(* ===== verification/Bfs_Prelude.thy ===== *)
theory Bfs_Prelude
  imports Main "HOL-Library.Sublist"
begin

text \<open>
  Shared vocabulary of the development: Rust strings and byte vectors, file-system paths,
  the string routines of the Rust standard library that BlossomFS uses, and the generic
  lemmas about them.

  A Rust \<open>String\<close> is its UTF-8 byte sequence, so both \<open>str\<close> and \<open>Vec<u8>\<close> are lists of
  8-bit characters here; \<open>length\<close> is \<open>str::len\<close>.  Routines that work by code point
  (\<open>pop\<close>, \<open>truncate\<close>) are written with the UTF-8 continuation-byte test, because popping
  one \<open>char\<close> may remove up to four bytes and truncating inside a \<open>char\<close> panics.
\<close>

section \<open>Types and collections\<close>

type_synonym bytes = "char list"
type_synonym fs_path = "string list"  \<comment> \<open>\<open>PathBuf\<close>: its components\<close>

abbreviation u64_max :: nat where "u64_max \<equiv> 2 ^ 64"

abbreviation nl :: string where "nl \<equiv> [CHR 0x0A]"
abbreviation quote :: string where "quote \<equiv> [CHR 0x27]"

named_theorems inv_intros \<open>preservation of the invariants\<close>

section \<open>Character classes\<close>

definition is_ascii_control :: "char \<Rightarrow> bool" where
  "is_ascii_control c \<longleftrightarrow> (of_char c :: nat) < 32 \<or> (of_char c :: nat) = 127"

definition is_ascii_digit :: "char \<Rightarrow> bool" where
  "is_ascii_digit c \<longleftrightarrow> 48 \<le> (of_char c :: nat) \<and> (of_char c :: nat) \<le> 57"

definition is_ascii_hexdigit :: "char \<Rightarrow> bool" where
  "is_ascii_hexdigit c \<longleftrightarrow> is_ascii_digit c
     \<or> (65 \<le> (of_char c :: nat) \<and> (of_char c :: nat) \<le> 70)
     \<or> (97 \<le> (of_char c :: nat) \<and> (of_char c :: nat) \<le> 102)"

definition is_lower_hexdigit :: "char \<Rightarrow> bool" where
  "is_lower_hexdigit c \<longleftrightarrow> is_ascii_digit c
     \<or> (97 \<le> (of_char c :: nat) \<and> (of_char c :: nat) \<le> 102)"

definition ascii_lower :: "char \<Rightarrow> char" where
  "ascii_lower c = (if 65 \<le> (of_char c :: nat) \<and> (of_char c :: nat) \<le> 90
                    then char_of ((of_char c :: nat) + 32) else c)"

text \<open>\<open>str::to_lowercase\<close> on ASCII text (bytes above 127 are left alone).\<close>

definition to_lowercase :: "string \<Rightarrow> string" where
  "to_lowercase s = map ascii_lower s"

text \<open>A UTF-8 continuation byte: \<open>10xxxxxx\<close>.\<close>

definition is_cont :: "char \<Rightarrow> bool" where
  "is_cont c \<longleftrightarrow> 128 \<le> (of_char c :: nat) \<and> (of_char c :: nat) < 192"

lemma of_char_ascii_lower:
  "(of_char (ascii_lower c) :: nat)
     = (if 65 \<le> (of_char c :: nat) \<and> (of_char c :: nat) \<le> 90 then of_char c + 32 else of_char c)"
  by (simp add: ascii_lower_def of_char_of)

lemma ascii_lower_hex:
  "is_ascii_hexdigit c \<Longrightarrow> is_lower_hexdigit (ascii_lower c)"
  by (auto simp: is_ascii_hexdigit_def is_lower_hexdigit_def is_ascii_digit_def
      of_char_ascii_lower)

lemma lower_hex_is_hex: "is_lower_hexdigit c \<Longrightarrow> is_ascii_hexdigit c"
  by (auto simp: is_ascii_hexdigit_def is_lower_hexdigit_def)

lemma ascii_lower_lower_hex: "is_lower_hexdigit c \<Longrightarrow> ascii_lower c = c"
  by (auto simp: is_lower_hexdigit_def is_ascii_digit_def ascii_lower_def)

lemma length_to_lowercase [simp]: "length (to_lowercase s) = length s"
  by (simp add: to_lowercase_def)

lemma to_lowercase_lower_hex:
  "list_all is_lower_hexdigit s \<Longrightarrow> to_lowercase s = s"
  by (auto simp: to_lowercase_def list_all_iff ascii_lower_lower_hex intro: map_idI)

text \<open>The characters of a string: each first byte with its continuation bytes.\<close>

function utf8_chars :: "string \<Rightarrow> string list" where
  "utf8_chars [] = []"
| "utf8_chars (c # cs) = (c # takeWhile is_cont cs) # utf8_chars (dropWhile is_cont cs)"
  by pat_completeness auto
termination
  by (relation "measure length") (auto simp: le_imp_less_Suc length_dropWhile_le)

definition is_ascii :: "string \<Rightarrow> bool" where
  "is_ascii s \<longleftrightarrow> list_all (\<lambda>c. (of_char c :: nat) < 128) s"

definition is_ascii_alnum :: "char \<Rightarrow> bool" where
  "is_ascii_alnum c \<longleftrightarrow> is_ascii_digit c
     \<or> (65 \<le> (of_char c :: nat) \<and> (of_char c :: nat) \<le> 90)
     \<or> (97 \<le> (of_char c :: nat) \<and> (of_char c :: nat) \<le> 122)"

text \<open>
  The Unicode tables of the Rust standard library, for text outside ASCII only:
  \<open>char::is_alphanumeric\<close> on one character and \<open>str::to_lowercase\<close> on a whole string.
  They are data of the standard library and stay parameters; ASCII text never consults them.
\<close>

record unicode_tables =
  uni_alnum :: "string \<Rightarrow> bool"
  uni_lower :: "string \<Rightarrow> string"

definition all_alphanumeric :: "unicode_tables \<Rightarrow> string \<Rightarrow> bool" where
  "all_alphanumeric u s \<longleftrightarrow> list_all
     (\<lambda>g. if is_ascii g then list_all is_ascii_alnum g else uni_alnum u g) (utf8_chars s)"

definition str_to_lowercase :: "unicode_tables \<Rightarrow> string \<Rightarrow> string" where
  "str_to_lowercase u s = (if is_ascii s then to_lowercase s else uni_lower u s)"

lemma utf8_chars_ascii: "is_ascii s \<Longrightarrow> utf8_chars s = map (\<lambda>c. [c]) s"
proof (induction s)
  case (Cons c cs)
  then have "takeWhile is_cont cs = [] \<and> dropWhile is_cont cs = cs"
    by (cases cs) (auto simp: is_ascii_def is_cont_def)
  with Cons show ?case by (simp add: is_ascii_def)
qed simp

lemma all_alphanumeric_ascii:
  "is_ascii s \<Longrightarrow> all_alphanumeric u s = list_all is_ascii_alnum s"
  by (auto simp: all_alphanumeric_def utf8_chars_ascii list_all_iff is_ascii_def)

section \<open>White space\<close>

text \<open>The characters \<open>str::trim\<close> removes, as UTF-8.\<close>

definition white_space :: "string list" where
  "white_space = map (map char_of)
     ([[9], [10], [11], [12], [13], [32], [0xC2, 0x85], [0xC2, 0xA0], [0xE1, 0x9A, 0x80 :: nat]]
      @ map (\<lambda>b. [0xE2, 0x80, b]) [0x80, 0x81, 0x82, 0x83, 0x84, 0x85, 0x86, 0x87, 0x88, 0x89, 0x8A,
                                   0xA8, 0xA9, 0xAF]
      @ [[0xE2, 0x81, 0x9F], [0xE3, 0x80, 0x80]])"

definition str_trim :: "string \<Rightarrow> string" where
  "str_trim s = concat (rev (dropWhile (\<lambda>c. c \<in> set white_space)
     (rev (dropWhile (\<lambda>c. c \<in> set white_space) (utf8_chars s)))))"

lemma str_trim_alnum:
  assumes "list_all is_ascii_alnum s"
  shows "str_trim s = s"
proof -
  have w: "[c] \<notin> set white_space" if "is_ascii_alnum c" for c
    using that by (auto simp: white_space_def is_ascii_alnum_def is_ascii_digit_def of_char_of)
  have a: "is_ascii s"
    using assms by (auto simp: is_ascii_def list_all_iff is_ascii_alnum_def is_ascii_digit_def)
  have d: "dropWhile (\<lambda>c. c \<in> set white_space) (map (\<lambda>c. [c]) t) = map (\<lambda>c. [c]) t"
    if "list_all is_ascii_alnum t" for t
    using that w by (cases t) auto
  have "concat (map (\<lambda>c. [c]) t) = t" for t :: string
    by (induction t) auto
  then show ?thesis
    using d [OF assms] d [of "rev s"] assms
    by (simp add: str_trim_def utf8_chars_ascii [OF a] rev_map list_all_iff)
qed

section \<open>Prefixes, splitting and joining\<close>

abbreviation starts_with :: "string \<Rightarrow> string \<Rightarrow> bool" where
  "starts_with s p \<equiv> prefix p s"

abbreviation str_contains :: "string \<Rightarrow> string \<Rightarrow> bool" where
  "str_contains s p \<equiv> sublist p s"

definition strip_prefix :: "string \<Rightarrow> string \<Rightarrow> string option" where
  "strip_prefix s p = (if prefix p s then Some (drop (length p) s) else None)"

text \<open>\<open>str::split(char)\<close>: never the empty list.\<close>

fun split_on :: "char \<Rightarrow> string \<Rightarrow> string list" where
  "split_on c [] = [[]]"
| "split_on c (x # xs) =
     (if x = c then [] # split_on c xs
      else (x # hd (split_on c xs)) # tl (split_on c xs))"

text \<open>\<open>str::split_once(char)\<close>.\<close>

fun split_once :: "char \<Rightarrow> string \<Rightarrow> (string \<times> string) option" where
  "split_once c [] = None"
| "split_once c (x # xs) =
     (if x = c then Some ([], xs)
      else map_option (\<lambda>(a, b). (x # a, b)) (split_once c xs))"

definition trim_start_matches :: "char \<Rightarrow> string \<Rightarrow> string" where
  "trim_start_matches c s = dropWhile (\<lambda>x. x = c) s"

definition trim_end_matches :: "char \<Rightarrow> string \<Rightarrow> string" where
  "trim_end_matches c s = rev (dropWhile (\<lambda>x. x = c) (rev s))"

fun str_join :: "string \<Rightarrow> string list \<Rightarrow> string" where
  "str_join sep [] = []"
| "str_join sep [x] = x"
| "str_join sep (x # y # ys) = x @ sep @ str_join sep (y # ys)"

lemma split_on_ne [simp]: "split_on c s \<noteq> []"
  by (induction s) auto

lemma split_on_no_sep: "x \<in> set (split_on c s) \<Longrightarrow> c \<notin> set x"
proof (induction s arbitrary: x)
  case (Cons a s)
  show ?case
  proof (cases "a = c")
    case True
    with Cons show ?thesis by auto
  next
    case False
    have hd_in: "hd (split_on c s) \<in> set (split_on c s)"
      by simp
    from False Cons.prems consider
        "x = a # hd (split_on c s)" | "x \<in> set (tl (split_on c s))"
      by auto
    then show ?thesis
    proof cases
      case 1
      with Cons.IH [OF hd_in] False show ?thesis by auto
    next
      case 2
      then have "x \<in> set (split_on c s)"
        by (cases "split_on c s") auto
      then show ?thesis by (rule Cons.IH)
    qed
  qed
qed simp

lemma hd_split_on: "hd (split_on c s) = takeWhile (\<lambda>x. x \<noteq> c) s"
  by (induction s) auto

lemma set_split_on: "x \<in> set (split_on c s) \<Longrightarrow> set x \<subseteq> set s"
proof (induction s arbitrary: x)
  case (Cons a s)
  have "set (hd (split_on c s)) \<subseteq> set s"
    by (rule Cons.IH) simp
  moreover have "y \<in> set (split_on c s)" if "y \<in> set (tl (split_on c s))" for y
    using that by (cases "split_on c s") auto
  moreover have "x = [] \<or> x \<in> set (split_on c s) \<or> x = a # hd (split_on c s)
      \<or> x \<in> set (tl (split_on c s))"
    using Cons.prems by (simp split: if_splits) blast
  ultimately show ?case
    using Cons.IH by (metis empty_subsetI list.set(1) list.set(2) insert_mono subset_insertI2)
qed simp

lemma split_on_id: "c \<notin> set s \<Longrightarrow> split_on c s = [s]"
  by (induction s) auto

lemma split_on_append:
  "c \<notin> set x \<Longrightarrow> split_on c (x @ c # s) = x # split_on c s"
  by (induction x) auto

lemma split_on_join:
  assumes "xs \<noteq> []" and "\<forall>x \<in> set xs. c \<notin> set x"
  shows "split_on c (str_join [c] xs) = xs"
  using assms
  by (induction "[c]" xs rule: str_join.induct) (auto simp: split_on_id split_on_append)

section \<open>Truncation and popping at character boundaries\<close>

definition is_char_boundary :: "string \<Rightarrow> nat \<Rightarrow> bool" where
  "is_char_boundary s n \<longleftrightarrow> n = 0 \<or> n = length s \<or> (n < length s \<and> \<not> is_cont (s ! n))"

text \<open>\<open>String::truncate\<close>: \<open>None\<close> is the panic "not a char boundary".\<close>

definition str_truncate :: "nat \<Rightarrow> string \<Rightarrow> string option" where
  "str_truncate n s =
     (if length s \<le> n then Some s
      else if is_char_boundary s n then Some (take n s) else None)"

text \<open>A string slice \<open>&s[..n]\<close>: \<open>None\<close> is the panic (out of range, or inside a character).\<close>

definition slice_to :: "nat \<Rightarrow> string \<Rightarrow> string option" where
  "slice_to n s = (if n \<le> length s \<and> is_char_boundary s n then Some (take n s) else None)"

text \<open>\<open>String::pop\<close>: removes the last character, that is its continuation bytes and its
  first byte.\<close>

definition str_pop :: "string \<Rightarrow> string" where
  "str_pop s = rev (tl (dropWhile is_cont (rev s)))"

lemma str_pop_prefix: "prefix (str_pop s) s"
proof -
  have "suffix (tl (dropWhile is_cont (rev s))) (rev s)"
    by (meson suffix_dropWhile suffix_order.trans suffix_tl)
  then show ?thesis
    by (simp add: str_pop_def suffix_to_prefix)
qed

lemma length_str_pop: "s \<noteq> [] \<Longrightarrow> length (str_pop s) < length s"
proof -
  assume "s \<noteq> []"
  have "length (dropWhile is_cont (rev s)) \<le> length s"
    by (metis length_dropWhile_le length_rev)
  moreover have "0 < length s"
    using \<open>s \<noteq> []\<close> by simp
  ultimately show ?thesis
    unfolding str_pop_def length_rev length_tl by linarith
qed

text \<open>\<open>while s.len() > n { s.pop(); }\<close>\<close>

function pop_to :: "nat \<Rightarrow> string \<Rightarrow> string" where
  "pop_to n s = (if n < length s then pop_to n (str_pop s) else s)"
  by pat_completeness auto
termination
  by (relation "measure (\<lambda>(n, s). length s)") (auto intro: length_str_pop)

declare pop_to.simps [simp del]

lemma pop_to_prefix: "prefix (pop_to n s) s"
proof (induction n s rule: pop_to.induct)
  case (1 n s)
  show ?case
  proof (cases "n < length s")
    case True
    with 1 have "prefix (pop_to n (str_pop s)) s"
      by (meson prefix_order.trans str_pop_prefix)
    with True show ?thesis by (simp add: pop_to.simps [of n s])
  next
    case False
    then show ?thesis by (simp add: pop_to.simps [of n s])
  qed
qed

lemma length_pop_to: "length (pop_to n s) \<le> n"
proof (induction n s rule: pop_to.induct)
  case (1 n s)
  then show ?case
    by (cases "n < length s") (simp_all add: pop_to.simps [of n s])
qed

lemma pop_to_short: "length s \<le> n \<Longrightarrow> pop_to n s = s"
  by (simp add: pop_to.simps [of n s])

lemma str_pop_ascii: "list_all (\<lambda>c. \<not> is_cont c) s \<Longrightarrow> str_pop s = butlast s"
  by (cases s rule: rev_cases) (auto simp: str_pop_def)

text \<open>On text without continuation bytes popping is plain truncation.\<close>

lemma pop_to_ascii:
  "list_all (\<lambda>c. \<not> is_cont c) s \<Longrightarrow> pop_to n s = take n s"
proof (induction n s rule: pop_to.induct)
  case (1 n s)
  show ?case
  proof (cases "n < length s")
    case True
    from "1.prems" have "list_all (\<lambda>c. \<not> is_cont c) (str_pop s)"
      by (auto simp: str_pop_ascii list_all_iff dest: in_set_butlastD)
    with 1 True have "pop_to n (str_pop s) = take n (butlast s)"
      by (simp add: str_pop_ascii)
    also have "\<dots> = take n s"
      using True by (simp add: butlast_conv_take)
    finally show ?thesis
      using True by (simp add: pop_to.simps [of n s])
  next
    case False
    then show ?thesis by (simp add: pop_to.simps [of n s])
  qed
qed

section \<open>Decimal numbers\<close>

definition digit_char :: "nat \<Rightarrow> char" where
  "digit_char d = char_of (48 + d)"

definition digit_val :: "char \<Rightarrow> nat" where
  "digit_val c = of_char c - 48"

fun nat_to_string :: "nat \<Rightarrow> string" where
  "nat_to_string n =
     (if n < 10 then [digit_char n]
      else nat_to_string (n div 10) @ [digit_char (n mod 10)])"

declare nat_to_string.simps [simp del]

definition digits_value :: "string \<Rightarrow> nat" where
  "digits_value s = foldl (\<lambda>a c. 10 * a + digit_val c) 0 s"

text \<open>\<open>str::parse::<u64>\<close>: an optional \<open>+\<close>, at least one digit, no overflow.\<close>

definition parse_u64 :: "string \<Rightarrow> nat option" where
  "parse_u64 s =
     (let d = (case s of [] \<Rightarrow> [] | c # cs \<Rightarrow> (if c = CHR ''+'' then cs else s))
      in if d \<noteq> [] \<and> list_all is_ascii_digit d \<and> digits_value d < u64_max
         then Some (digits_value d) else None)"

lemma digit_val_char [simp]: "d < 10 \<Longrightarrow> digit_val (digit_char d) = d"
  by (simp add: digit_val_def digit_char_def of_char_of)

lemma is_digit_char [simp]: "d < 10 \<Longrightarrow> is_ascii_digit (digit_char d)"
  by (simp add: is_ascii_digit_def digit_char_def of_char_of)

lemma nat_to_string_ne [simp]: "nat_to_string n \<noteq> []"
  by (subst nat_to_string.simps) simp

lemma nat_to_string_digits: "list_all is_ascii_digit (nat_to_string n)"
proof (induction n rule: nat_to_string.induct)
  case (1 n)
  then show ?case
    by (cases "n < 10") (simp_all add: nat_to_string.simps [of n])
qed

lemma digits_value_snoc: "digits_value (s @ [c]) = 10 * digits_value s + digit_val c"
  by (simp add: digits_value_def)

lemma digits_value_nat_to_string [simp]: "digits_value (nat_to_string n) = n"
proof (induction n rule: nat_to_string.induct)
  case (1 n)
  show ?case
  proof (cases "n < 10")
    case True
    then show ?thesis by (simp add: nat_to_string.simps [of n] digits_value_def)
  next
    case False
    with 1 show ?thesis
      by (simp add: nat_to_string.simps [of n] digits_value_snoc)
  qed
qed

lemma parse_nat_to_string:
  assumes "n < u64_max"
  shows "parse_u64 (nat_to_string n) = Some n"
proof -
  obtain c cs where s: "nat_to_string n = c # cs"
    using nat_to_string_ne by (meson neq_Nil_conv)
  then have "is_ascii_digit c"
    using nat_to_string_digits [of n] by simp
  then have "c \<noteq> CHR ''+''"
    by (auto simp: is_ascii_digit_def)
  then show ?thesis
    using assms s nat_to_string_digits [of n]
      digits_value_nat_to_string [of n]
    by (auto simp: parse_u64_def Let_def)
qed

lemma nat_to_string_inj: "nat_to_string m = nat_to_string n \<Longrightarrow> m = n"
  by (metis digits_value_nat_to_string)

text \<open>\<open>format!("{:0w}")\<close>: padded with zeros on the left to the given width.\<close>

definition pad_left :: "nat \<Rightarrow> string \<Rightarrow> string" where
  "pad_left w s = replicate (w - length s) (CHR ''0'') @ s"

section \<open>Results\<close>

text \<open>Errors are the left summand, as in \<open>Result::Err\<close>.\<close>

definition is_ok :: "'e + 'a \<Rightarrow> bool" where
  "is_ok r = (case r of Inl _ \<Rightarrow> False | Inr _ \<Rightarrow> True)"

lemma is_ok_simps [simp]: "is_ok (Inr x) = True" "is_ok (Inl e) = False"
  by (simp_all add: is_ok_def)

section \<open>Byte ranges\<close>

text \<open>The slice every read path takes of the data it found:
  empty at or past the end, clamped to the length otherwise.\<close>

definition read_slice :: "nat \<Rightarrow> nat \<Rightarrow> bytes \<Rightarrow> bytes" where
  "read_slice offset sz data =
     (if length data \<le> offset then []
      else let end = min (offset + sz) (length data)
           in take (end - offset) (drop offset data))"

lemma read_slice_eq: "read_slice offset sz data = take sz (drop offset data)"
  by (auto simp: read_slice_def Let_def min_def)

lemma length_read_slice: "length (read_slice offset sz data) = min sz (length data - offset)"
  by (simp add: read_slice_eq min.commute)

section \<open>Running operations that keep an invariant\<close>

text \<open>
  The contract every stateful component of the development offers: a transition function
  and a predicate that each transition keeps.  A client proves its own step lemma once,
  and the locale lifts it to whole runs.
\<close>

locale invariant_machine =
  fixes exec :: "'op \<Rightarrow> 's \<Rightarrow> 's"
    and inv :: "'s \<Rightarrow> bool"
  assumes step_inv: "inv s \<Longrightarrow> inv (exec op s)"
begin

lemma run_inv: "inv s \<Longrightarrow> inv (fold exec ops s)"
  by (induction ops arbitrary: s) (auto intro: step_inv)

lemma run_prefix_inv: "inv s \<Longrightarrow> inv (fold exec (take n ops) s)"
  by (rule run_inv)

end

text \<open>A machine whose steps never take the measure down (allocation counters, node counts).\<close>

locale monotone_machine = invariant_machine +
  fixes m :: "'b \<Rightarrow> nat"
  assumes step_mono: "inv s \<Longrightarrow> m s \<le> m (exec op s)"
begin

lemma run_mono: "inv s \<Longrightarrow> m s \<le> m (fold exec ops s)"
proof (induction ops arbitrary: s)
  case (Cons a ops)
  then show ?case
    using step_inv step_mono order.trans by (metis fold_simps(2))
qed simp

end

text \<open>Runs of a labelled step relation, and a predicate that every step keeps.\<close>

inductive runs :: "('l \<Rightarrow> 's \<Rightarrow> 's \<Rightarrow> bool) \<Rightarrow> 'l list \<Rightarrow> 's \<Rightarrow> 's \<Rightarrow> bool" for step where
  runs_nil: "runs step [] s s"
| runs_snoc: "runs step ls s t \<Longrightarrow> step l t u \<Longrightarrow> runs step (ls @ [l]) s u"

locale labelled_machine =
  fixes step :: "'l \<Rightarrow> 's \<Rightarrow> 's \<Rightarrow> bool"
    and inv :: "'s \<Rightarrow> bool"
  assumes step_keeps: "inv s \<Longrightarrow> step l s t \<Longrightarrow> inv t"
begin

lemma runs_keep: "runs step ls s t \<Longrightarrow> inv s \<Longrightarrow> inv t"
  by (induction rule: runs.induct) (auto intro: step_keeps)

end

end
