(* ===== verification/Bfs_Path.thy ===== *)
theory Bfs_Path
  imports Bfs_Prelude
begin

text \<open>
  \<open>src/util/path.rs\<close>: the sanitizers that stand between remote metadata and directory
  entries.  \<open>sanitize_path_component\<close> and \<open>sanitize_mime_for_path\<close> are total;
  \<open>sanitize_hostname\<close> is an option because \<open>String::truncate\<close> panics inside a
  multi-byte character; \<open>sanitize_sha256\<close> returns the two errors of the source.
\<close>

section \<open>Translation\<close>

text \<open>\<open>replace("..", "__")\<close>: leftmost, non-overlapping occurrences.\<close>

fun replace_dotdot :: "string \<Rightarrow> string" where
  "replace_dotdot [] = []"
| "replace_dotdot [x] = [x]"
| "replace_dotdot (x # y # zs) =
     (if x = CHR ''.'' \<and> y = CHR ''.'' then CHR ''_'' # CHR ''_'' # replace_dotdot zs
      else x # replace_dotdot (y # zs))"

definition host_unsafe :: "char \<Rightarrow> bool" where
  "host_unsafe c \<longleftrightarrow> c \<in> set [CHR 0x00, CHR 0x0A, CHR 0x0D, CHR ''*'', CHR ''?'', CHR 0x22,
     CHR ''<'', CHR ''>'', CHR ''|'', CHR 0x5C, CHR ''/'']"

definition sanitize_hostname :: "string \<Rightarrow> string option" where
  "sanitize_hostname input =
     (if input = [] then Some ''unknown''
      else
        let raw = (case strip_prefix input ''https://'' of Some r \<Rightarrow> r
                   | None \<Rightarrow> (case strip_prefix input ''http://'' of Some r \<Rightarrow> r | None \<Rightarrow> input));
            host = hd (split_on (CHR ''#'') (hd (split_on (CHR ''?'')
                     (hd (split_on (CHR '':'') (hd (split_on (CHR ''/'') raw)))))));
            result = map (\<lambda>c. if host_unsafe c then CHR ''_'' else c) host
        in (case str_truncate 255 (replace_dotdot result) of
              None \<Rightarrow> None
            | Some r \<Rightarrow> Some (if r = [] then ''unknown'' else r)))"

datatype sha_error = WrongLength nat | NotHex

definition sanitize_sha256 :: "string \<Rightarrow> sha_error + string" where
  "sanitize_sha256 input =
     (if length input \<noteq> 64 then Inl (WrongLength (length input))
      else if \<not> list_all is_ascii_hexdigit input then Inl NotHex
      else Inr (to_lowercase input))"

definition comp_unsafe :: "char \<Rightarrow> bool" where
  "comp_unsafe c \<longleftrightarrow> c = CHR ''/'' \<or> c = CHR 0x00 \<or> c = CHR 0x5C \<or> is_ascii_control c"

definition sanitize_path_component :: "string \<Rightarrow> string" where
  "sanitize_path_component input =
     (if input = [] then ''unnamed''
      else
        let result = map (\<lambda>c. if comp_unsafe c then CHR ''_'' else c) input;
            result = pop_to 255 (replace_dotdot result)
        in if result = [] \<or> list_all (\<lambda>c. c = CHR ''_'') result then ''unnamed'' else result)"

definition sanitize_mime_for_path :: "string \<Rightarrow> string" where
  "sanitize_mime_for_path mime =
     (if mime = [] then ''unknown''
      else
        let sanitized = map (\<lambda>c. if c = CHR ''/'' then CHR ''_'' else c) mime;
            result = sanitize_path_component sanitized
        in if result = [] \<or> list_all (\<lambda>c. c = CHR ''_'') result then ''unknown'' else result)"

section \<open>No double dot survives\<close>

fun no_dotdot :: "string \<Rightarrow> bool" where
  "no_dotdot (x # y # zs) \<longleftrightarrow> \<not> (x = CHR ''.'' \<and> y = CHR ''.'') \<and> no_dotdot (y # zs)"
| "no_dotdot _ \<longleftrightarrow> True"

lemma no_dotdot_tl: "no_dotdot (x # xs) \<Longrightarrow> no_dotdot xs"
  by (cases xs) auto

lemma no_dotdot_append: "no_dotdot (xs @ ys) \<Longrightarrow> no_dotdot xs"
  by (induction xs rule: no_dotdot.induct) auto

lemma no_dotdot_prefix: "prefix xs ys \<Longrightarrow> no_dotdot ys \<Longrightarrow> no_dotdot xs"
  by (auto simp: prefix_def dest: no_dotdot_append)

text \<open>The predicate says what it should: \<open>..\<close> does not occur.\<close>

lemma no_dotdot_iff: "no_dotdot s \<longleftrightarrow> \<not> str_contains s ''..''"
proof (induction s rule: no_dotdot.induct)
  case (1 x y zs)
  then show ?case by (auto simp: sublist_Cons_right)
qed (auto simp: sublist_Cons_right)

lemma replace_dotdot_ne: "s \<noteq> [] \<Longrightarrow> replace_dotdot s \<noteq> []"
  by (cases s rule: replace_dotdot.cases) auto

lemma replace_dotdot_hd:
  "replace_dotdot (x # xs) = c # cs \<Longrightarrow> c = CHR ''.'' \<Longrightarrow> x = CHR ''.''"
  by (cases xs) (auto split: if_splits)

lemma no_dotdot_replace: "no_dotdot (replace_dotdot s)"
proof (induction s rule: replace_dotdot.induct)
  case (3 x y zs)
  show ?case
  proof (cases "x = CHR ''.'' \<and> y = CHR ''.''")
    case True
    with 3 have "no_dotdot (replace_dotdot zs)" by simp
    with True show ?thesis by (cases "replace_dotdot zs") auto
  next
    case False
    with 3 have IH: "no_dotdot (replace_dotdot (y # zs))" by simp
    obtain c cs where eq: "replace_dotdot (y # zs) = c # cs"
      using replace_dotdot_ne [of "y # zs"] by (auto simp: neq_Nil_conv)
    then have "c = CHR ''.'' \<Longrightarrow> y = CHR ''.''"
      by (rule replace_dotdot_hd)
    with IH False eq show ?thesis by auto
  qed
qed auto

lemma replace_dotdot_id: "no_dotdot s \<Longrightarrow> replace_dotdot s = s"
  by (induction s rule: replace_dotdot.induct) auto

lemma set_replace_dotdot: "set (replace_dotdot s) \<subseteq> insert (CHR ''_'') (set s)"
  by (induction s rule: replace_dotdot.induct) auto

lemma length_replace_dotdot [simp]: "length (replace_dotdot s) = length s"
  by (induction s rule: replace_dotdot.induct) auto

section \<open>What a sanitized component is\<close>

text \<open>The contract of a directory-entry name.\<close>

definition safe_component :: "string \<Rightarrow> bool" where
  "safe_component s \<longleftrightarrow> s \<noteq> [] \<and> length s \<le> 255 \<and> list_all (\<lambda>c. \<not> comp_unsafe c) s
     \<and> no_dotdot s \<and> \<not> list_all (\<lambda>c. c = CHR ''_'') s"

lemma comp_unsafe_underscore [simp]: "\<not> comp_unsafe (CHR ''_'')"
  by (simp add: comp_unsafe_def is_ascii_control_def)

lemma safe_component_unnamed: "safe_component ''unnamed''"
  by (simp add: safe_component_def comp_unsafe_def is_ascii_control_def)

lemma sanitize_path_component_safe: "safe_component (sanitize_path_component s)"
proof (cases "s = []")
  case True
  then show ?thesis
    using safe_component_unnamed by (simp add: sanitize_path_component_def)
next
  case False
  define m where "m = map (\<lambda>c. if comp_unsafe c then CHR ''_'' else c) s"
  define r where "r = pop_to 255 (replace_dotdot m)"
  have pre: "prefix r (replace_dotdot m)"
    unfolding r_def by (rule pop_to_prefix)
  then have sub: "set r \<subseteq> set (replace_dotdot m)"
    by (rule set_mono_prefix)
  have "\<forall>c \<in> set m. \<not> comp_unsafe c"
    by (auto simp: m_def)
  then have safe: "list_all (\<lambda>c. \<not> comp_unsafe c) r"
    using sub set_replace_dotdot [of m] by (auto simp: list_all_iff)
  have dd: "no_dotdot r"
    using pre no_dotdot_replace by (rule no_dotdot_prefix)
  have len: "length r \<le> 255"
    unfolding r_def by (rule length_pop_to)
  have eq: "sanitize_path_component s
      = (if r = [] \<or> list_all (\<lambda>c. c = CHR ''_'') r then ''unnamed'' else r)"
    using False by (simp add: sanitize_path_component_def Let_def r_def m_def)
  show ?thesis
    using safe dd len safe_component_unnamed
    by (auto simp: eq safe_component_def)
qed

lemma sanitize_path_component_id:
  assumes "safe_component s"
  shows "sanitize_path_component s = s"
proof -
  have "map (\<lambda>c. if comp_unsafe c then CHR ''_'' else c) s = s"
    using assms by (auto simp: safe_component_def list_all_iff intro: map_idI)
  then show ?thesis
    using assms
    by (auto simp: sanitize_path_component_def safe_component_def replace_dotdot_id pop_to_short)
qed

lemma safe_component_iff: "safe_component s \<longleftrightarrow> sanitize_path_component s = s"
  using sanitize_path_component_safe sanitize_path_component_id by metis

lemma sanitize_path_component_ne [simp]: "sanitize_path_component s \<noteq> []"
  using sanitize_path_component_safe [of s] by (simp add: safe_component_def)

lemma safe_component_no_slash: "safe_component s \<Longrightarrow> CHR ''/'' \<notin> set s"
  by (auto simp: safe_component_def list_all_iff comp_unsafe_def)

lemma length_sanitize_path_component: "length (sanitize_path_component s) \<le> 255"
  using sanitize_path_component_safe [of s] by (simp add: safe_component_def)

section \<open>Hash strings\<close>

text \<open>A normalized digest: 64 lower-case hexadecimal digits.\<close>

definition sha_normal :: "string \<Rightarrow> bool" where
  "sha_normal s \<longleftrightarrow> length s = 64 \<and> list_all is_lower_hexdigit s"

lemma sanitize_sha256_normal: "sanitize_sha256 s = Inr h \<Longrightarrow> sha_normal h"
  by (auto simp: sanitize_sha256_def sha_normal_def to_lowercase_def list_all_iff
      ascii_lower_hex split: if_splits)

lemma sanitize_sha256_id: "sha_normal s \<Longrightarrow> sanitize_sha256 s = Inr s"
  by (auto simp: sanitize_sha256_def sha_normal_def list_all_iff lower_hex_is_hex
      intro!: to_lowercase_lower_hex)

lemma sanitize_sha256_Inr_iff:
  "sanitize_sha256 s = Inr h \<longleftrightarrow>
     length s = 64 \<and> list_all is_ascii_hexdigit s \<and> h = to_lowercase s"
  by (auto simp: sanitize_sha256_def)

lemma lower_hex_safe: "is_lower_hexdigit c \<Longrightarrow> \<not> comp_unsafe c \<and> c \<noteq> CHR ''.'' \<and> c \<noteq> CHR ''_''"
  by (auto simp: is_lower_hexdigit_def is_ascii_digit_def comp_unsafe_def is_ascii_control_def)

lemma no_dotdot_if_no_dot: "CHR ''.'' \<notin> set s \<Longrightarrow> no_dotdot s"
  by (induction s rule: no_dotdot.induct) auto

text \<open>A normalized digest is a safe file name, so the tree stores it unchanged.\<close>

lemma sha_normal_safe: "sha_normal s \<Longrightarrow> safe_component s"
proof -
  assume s: "sha_normal s"
  have "CHR ''.'' \<notin> set s"
    using s lower_hex_safe by (fastforce simp: sha_normal_def list_all_iff)
  moreover have "\<not> list_all (\<lambda>c. c = CHR ''_'') s"
    using s lower_hex_safe by (cases s) (fastforce simp: sha_normal_def list_all_iff)+
  ultimately show ?thesis
    using s lower_hex_safe
    by (auto simp: sha_normal_def safe_component_def list_all_iff no_dotdot_if_no_dot)
qed

section \<open>Host names\<close>

definition safe_hostname :: "string \<Rightarrow> bool" where
  "safe_hostname s \<longleftrightarrow> s \<noteq> [] \<and> length s \<le> 255 \<and> no_dotdot s
     \<and> list_all (\<lambda>c. \<not> host_unsafe c) s"

lemma host_unsafe_underscore [simp]: "\<not> host_unsafe (CHR ''_'')"
  by (simp add: host_unsafe_def)

lemma str_truncate_prefix: "str_truncate n s = Some r \<Longrightarrow> prefix r s \<and> length r \<le> n"
  by (auto simp: str_truncate_def take_is_prefix split: if_splits)

lemma safe_hostname_result:
  assumes "str_truncate 255 (replace_dotdot (map (\<lambda>c. if host_unsafe c then CHR ''_'' else c) h))
    = Some r" and "r \<noteq> []"
  shows "safe_hostname r"
proof -
  let ?m = "map (\<lambda>c. if host_unsafe c then CHR ''_'' else c) h"
  have pre: "prefix r (replace_dotdot ?m)" and len: "length r \<le> 255"
    using str_truncate_prefix [OF assms(1)] by auto
  have "set r \<subseteq> insert (CHR ''_'') (set ?m)"
    using set_mono_prefix [OF pre] set_replace_dotdot [of ?m] by blast
  then have "list_all (\<lambda>c. \<not> host_unsafe c) r"
    by (force simp: list_all_iff)
  then show ?thesis
    using assms(2) len no_dotdot_prefix [OF pre no_dotdot_replace]
    by (simp add: safe_hostname_def)
qed

lemma safe_hostname_unknown: "safe_hostname ''unknown''"
  by (simp add: safe_hostname_def host_unsafe_def)

lemma sanitize_hostname_Some_safe:
  "sanitize_hostname input = Some r \<Longrightarrow> safe_hostname r"
  by (auto simp: sanitize_hostname_def Let_def safe_hostname_unknown
      split: option.splits if_splits intro: safe_hostname_result)

lemma str_truncate_ascii:
  "list_all (\<lambda>c. \<not> is_cont c) s \<Longrightarrow> str_truncate n s = Some (take n s)"
  by (auto simp: str_truncate_def is_char_boundary_def list_all_iff)

lemma is_cont_underscore [simp]: "\<not> is_cont (CHR ''_'')"
  by (simp add: is_cont_def)

lemma set_hd_split_on: "set (hd (split_on c s)) \<subseteq> set s"
  by (auto simp: hd_split_on dest: set_takeWhileD)

lemma set_strip_prefix: "strip_prefix s p = Some r \<Longrightarrow> set r \<subseteq> set s"
  by (auto simp: strip_prefix_def dest: in_set_dropD split: if_splits)

lemma sanitize_hostname_ascii:
  assumes "list_all (\<lambda>c. \<not> is_cont c) input"
  shows "sanitize_hostname input \<noteq> None"
proof -
  define raw where "raw = (case strip_prefix input ''https://'' of Some r \<Rightarrow> r
    | None \<Rightarrow> (case strip_prefix input ''http://'' of Some r \<Rightarrow> r | None \<Rightarrow> input))"
  define h where "h = hd (split_on (CHR ''#'') (hd (split_on (CHR ''?'')
     (hd (split_on (CHR '':'') (hd (split_on (CHR ''/'') raw)))))))"
  define m where "m = map (\<lambda>c. if host_unsafe c then CHR ''_'' else c) h"
  have "set raw \<subseteq> set input"
    unfolding raw_def using set_strip_prefix by (fastforce split: option.splits)
  moreover have "set h \<subseteq> set raw"
    unfolding h_def using set_hd_split_on by (meson order.trans)
  ultimately have "\<forall>c \<in> set m. \<not> is_cont c"
    using assms by (auto simp: m_def list_all_iff)
  then have "list_all (\<lambda>c. \<not> is_cont c) (replace_dotdot m)"
    using set_replace_dotdot [of m] by (auto simp: list_all_iff)
  then have "str_truncate 255 (replace_dotdot m) = Some (take 255 (replace_dotdot m))"
    by (rule str_truncate_ascii)
  then show ?thesis
    by (simp add: sanitize_hostname_def Let_def raw_def [symmetric] h_def [symmetric]
        m_def [symmetric])
qed

section \<open>Properties\<close>

text \<open>C37. Every string is turned into a legal directory-entry name: not empty, at most
  255 bytes, free of slashes, backslashes, NUL and control characters, without \<open>..\<close>.
  Sanitizing twice changes nothing, and exactly the legal names pass unchanged.\<close>

theorem sanitize_component_contract:
  "safe_component (sanitize_path_component s)
   \<and> sanitize_path_component (sanitize_path_component s) = sanitize_path_component s
   \<and> (sanitize_path_component s = s \<longleftrightarrow> safe_component s)"
  using sanitize_path_component_safe sanitize_path_component_id safe_component_iff by blast

text \<open>A host directory name is never empty, longer than 255 bytes, or able to leave its
  directory; the only way \<open>sanitize_hostname\<close> fails to return is a panic of \<open>truncate\<close>,
  which takes a multi-byte character in the input.\<close>

theorem sanitize_hostname_contract:
  "case sanitize_hostname s of
     None \<Rightarrow> \<exists>c. c \<in> set s \<and> is_cont c
   | Some r \<Rightarrow> safe_hostname r"
proof (cases "sanitize_hostname s")
  case None
  then have "\<not> list_all (\<lambda>c. \<not> is_cont c) s"
    using sanitize_hostname_ascii by blast
  then show ?thesis
    using None by (auto simp: list_all_iff)
next
  case (Some r)
  then show ?thesis
    by (simp add: sanitize_hostname_Some_safe)
qed

text \<open>The panic is real: a server URL whose 255th byte lies inside a character.\<close>

lemma sanitize_hostname_plain:
  assumes "u \<noteq> []" and "strip_prefix u ''https://'' = Some h"
    and "\<forall>c \<in> set h. \<not> host_unsafe c \<and> c \<notin> {CHR '':'', CHR ''#'', CHR ''.''}"
  shows "sanitize_hostname u
    = map_option (\<lambda>r. if r = [] then ''unknown'' else r) (str_truncate 255 h)"
proof -
  have "CHR ''.'' \<notin> set h" and seps: "CHR ''/'' \<notin> set h" "CHR '':'' \<notin> set h" "CHR ''?'' \<notin> set h"
      "CHR ''#'' \<notin> set h"
    using assms(3) by (auto simp: host_unsafe_def)
  then have dd: "replace_dotdot h = h"
    by (simp add: replace_dotdot_id no_dotdot_if_no_dot)
  have m: "map (\<lambda>c. if host_unsafe c then CHR ''_'' else c) h = h"
    by (rule map_idI) (use assms(3) in auto)
  show ?thesis
    unfolding sanitize_hostname_def Let_def
    by (simp add: assms(1,2) seps dd m split_on_id split: option.split)
qed

lemma sanitize_hostname_panics:
  "sanitize_hostname (''https://'' @ replicate 254 (CHR ''a'') @ [CHR 0xC3, CHR 0xA9]) = None"
proof -
  define n :: nat where "n = 254"
  define h where "h = replicate n (CHR ''a'') @ [CHR 0xC3, CHR 0xA9]"
  have "length h = n + 2" and "h ! (n + 1) = CHR 0xA9"
    by (simp_all add: h_def nth_append)
  then have "str_truncate 255 h = None"
    by (simp add: n_def str_truncate_def is_char_boundary_def is_cont_def)
  moreover have "strip_prefix (''https://'' @ h) ''https://'' = Some h"
    by (simp add: strip_prefix_def)
  moreover have "\<forall>c \<in> set h. \<not> host_unsafe c \<and> c \<notin> {CHR '':'', CHR ''#'', CHR ''.''}"
    by (auto simp: h_def host_unsafe_def)
  ultimately show ?thesis
    unfolding n_def [symmetric] h_def [symmetric] by (subst sanitize_hostname_plain) auto
qed

text \<open>The component sanitizer lets the entry name \<open>.\<close> through.\<close>

lemma sanitize_path_component_dot: "sanitize_path_component ''.'' = ''.''"
  by (simp add: sanitize_path_component_def Let_def comp_unsafe_def is_ascii_control_def
      pop_to_short)

end
