(* ===== verification/Bfs_Tree.thy ===== *)
theory Bfs_Tree
  imports Bfs_Path
begin

text \<open>
  The virtual directory tree of \<open>src/fuse/tree.rs\<close>: an arena of nodes indexed by inode
  number (inode \<open>n\<close> lives at index \<open>n - 1\<close>), its accessors and its mutators.  Inodes,
  sizes and timestamps are natural numbers; the clock is an argument.

  The invariant of the arena and the proofs about it are in \<open>Bfs_Tree_Inv\<close>.
\<close>

section \<open>Data\<close>

datatype file_content =
    Static (static_data: bytes)
  | Remote (r_url: string) (r_sha256: string) (r_mime: "string option") (r_expires: "nat option")
  | Local (local_path: fs_path)

datatype lazy_dir = GitRepo (clone_url: string) (clone_cache: fs_path)

datatype node_kind = DirectoryKind | FileKind

datatype tree_node =
    Directory (n_ino: nat) (n_name: string) (n_children: "nat list") (n_parent: nat)
      (n_lazy: "lazy_dir option")
  | File (n_ino: nat) (n_name: string) (n_parent: nat) (n_size: nat) (n_content: file_content)
      (n_uploaded: nat)

record tree =
  nodes :: "tree_node list"
  root :: nat

definition new_tree :: tree where
  "new_tree = \<lparr>nodes = [Directory 1 ''/'' [] 0 None], root = 1\<rparr>"

section \<open>Accessors\<close>

definition node_count :: "tree \<Rightarrow> nat" where
  "node_count t = length (nodes t)"

definition get :: "tree \<Rightarrow> nat \<Rightarrow> tree_node option" where
  "get t ino =
     (if ino \<ge> 1 then
        (if ino - 1 < length (nodes t) then Some (nodes t ! (ino - 1)) else None)
      else None)"

text \<open>\<open>get_mut\<close> followed by a write: apply \<open>f\<close> to the node, if there is one.\<close>

definition update_node :: "tree \<Rightarrow> nat \<Rightarrow> (tree_node \<Rightarrow> tree_node) \<Rightarrow> tree" where
  "update_node t ino f =
     (case get t ino of
        None \<Rightarrow> t
      | Some n \<Rightarrow> t\<lparr>nodes := (nodes t)[ino - 1 := f n]\<rparr>)"

fun lookup_in :: "tree \<Rightarrow> nat list \<Rightarrow> string \<Rightarrow> nat option" where
  "lookup_in t [] nm = None"
| "lookup_in t (c # cs) nm =
     (case get t c of
        None \<Rightarrow> None
      | Some child \<Rightarrow> if n_name child = nm then Some c else lookup_in t cs nm)"

definition lookup :: "tree \<Rightarrow> nat \<Rightarrow> string \<Rightarrow> nat option" where
  "lookup t parent nm =
     (case get t parent of
        Some (Directory _ _ cs _ _) \<Rightarrow> lookup_in t cs nm
      | _ \<Rightarrow> None)"

definition node_kind_of :: "tree_node \<Rightarrow> node_kind" where
  "node_kind_of n = (case n of Directory _ _ _ _ _ \<Rightarrow> DirectoryKind | File _ _ _ _ _ _ \<Rightarrow> FileKind)"

fun readdir_in :: "tree \<Rightarrow> nat list \<Rightarrow> (nat \<times> string \<times> node_kind) list option" where
  "readdir_in t [] = Some []"
| "readdir_in t (c # cs) =
     (case get t c of
        None \<Rightarrow> None
      | Some child \<Rightarrow>
          map_option (\<lambda>es. (c, n_name child, node_kind_of child) # es) (readdir_in t cs))"

definition readdir :: "tree \<Rightarrow> nat \<Rightarrow> (nat \<times> string \<times> node_kind) list option" where
  "readdir t ino =
     (case get t ino of
        Some (Directory _ _ cs _ _) \<Rightarrow> readdir_in t cs
      | _ \<Rightarrow> None)"

definition kind :: "tree \<Rightarrow> nat \<Rightarrow> node_kind option" where
  "kind t ino = map_option node_kind_of (get t ino)"

definition node_size :: "tree \<Rightarrow> nat \<Rightarrow> nat option" where
  "node_size t ino =
     (case get t ino of
        None \<Rightarrow> None
      | Some (Directory _ _ _ _ _) \<Rightarrow> Some 0
      | Some (File _ _ _ sz _ _) \<Rightarrow> Some sz)"

definition uploaded :: "tree \<Rightarrow> nat \<Rightarrow> nat option" where
  "uploaded t ino =
     (case get t ino of
        Some (File _ _ _ _ _ u) \<Rightarrow> Some u
      | _ \<Rightarrow> None)"

definition expires :: "tree \<Rightarrow> nat \<Rightarrow> nat option" where
  "expires t ino =
     (case get t ino of
        Some (File _ _ _ _ (Remote _ _ _ e) _) \<Rightarrow> e
      | _ \<Rightarrow> None)"

definition next_inode :: "tree \<Rightarrow> nat" where
  "next_inode t = length (nodes t) + 1"

section \<open>Adding nodes\<close>

text \<open>The body every adder shares: push the node under the next inode number, then append
  the number to the parent's children if the parent is a directory.\<close>

definition link_child :: "nat \<Rightarrow> tree_node \<Rightarrow> tree_node" where
  "link_child c n =
     (case n of
        Directory i nm cs p lz \<Rightarrow> Directory i nm (cs @ [c]) p lz
      | File _ _ _ _ _ _ \<Rightarrow> n)"

definition add_node :: "tree \<Rightarrow> nat \<Rightarrow> (nat \<Rightarrow> tree_node) \<Rightarrow> nat \<times> tree" where
  "add_node t parent mk =
     (let ino = next_inode t;
          t1 = t\<lparr>nodes := nodes t @ [mk ino]\<rparr>
      in (ino, update_node t1 parent (link_child ino)))"

definition add_directory :: "tree \<Rightarrow> nat \<Rightarrow> string \<Rightarrow> nat \<times> tree" where
  "add_directory t parent name =
     (let sanitized = sanitize_path_component name
      in add_node t parent (\<lambda>ino. Directory ino sanitized [] parent None))"

definition add_lazy_dir :: "tree \<Rightarrow> nat \<Rightarrow> string \<Rightarrow> lazy_dir \<Rightarrow> nat \<times> tree" where
  "add_lazy_dir t parent name lz =
     (let sanitized = sanitize_path_component name
      in add_node t parent (\<lambda>ino. Directory ino sanitized [] parent (Some lz)))"

definition add_file_to_dir ::
  "tree \<Rightarrow> nat \<Rightarrow> string \<Rightarrow> file_content \<Rightarrow> nat \<Rightarrow> nat \<Rightarrow> nat \<times> tree" where
  "add_file_to_dir t parent name content sz up =
     (let sanitized = sanitize_path_component name
      in add_node t parent (\<lambda>ino. File ino sanitized parent sz content up))"

definition add_static_file :: "nat \<Rightarrow> tree \<Rightarrow> nat \<Rightarrow> string \<Rightarrow> bytes \<Rightarrow> nat \<times> tree" where
  "add_static_file now t parent name content =
     (let sanitized = sanitize_path_component name; sz = length content
      in add_node t parent (\<lambda>ino. File ino sanitized parent sz (Static content) now))"

definition add_remote_file ::
  "tree \<Rightarrow> nat \<Rightarrow> string \<Rightarrow> string \<Rightarrow> string \<Rightarrow> nat \<Rightarrow> string option \<Rightarrow> nat \<Rightarrow> nat option \<Rightarrow> nat \<times> tree"
where
  "add_remote_file t parent name url sha256 sz mime up expiration =
     (let sanitized = sanitize_path_component name
      in add_node t parent
           (\<lambda>ino. File ino sanitized parent sz (Remote url sha256 mime expiration) up))"

definition add_local_file :: "nat \<Rightarrow> tree \<Rightarrow> nat \<Rightarrow> string \<Rightarrow> fs_path \<Rightarrow> nat \<Rightarrow> nat \<times> tree" where
  "add_local_file now t parent name path sz =
     (let sanitized = sanitize_path_component name
      in add_node t parent (\<lambda>ino. File ino sanitized parent sz (Local path) now))"

definition get_or_create_dir :: "tree \<Rightarrow> nat \<Rightarrow> string \<Rightarrow> nat \<times> tree" where
  "get_or_create_dir t parent name =
     (case lookup t parent name of
        Some child_ino \<Rightarrow> (child_ino, t)
      | None \<Rightarrow> add_directory t parent name)"

section \<open>Changing nodes\<close>

definition take_lazy :: "tree \<Rightarrow> nat \<Rightarrow> lazy_dir option \<times> tree" where
  "take_lazy t ino =
     (case get t ino of
        Some (Directory i nm cs p lz) \<Rightarrow> (lz, update_node t ino (\<lambda>_. Directory i nm cs p None))
      | _ \<Rightarrow> (None, t))"

definition update_file_node :: "tree \<Rightarrow> nat \<Rightarrow> file_content \<Rightarrow> nat \<Rightarrow> nat \<Rightarrow> bool \<times> tree" where
  "update_file_node t ino content sz up =
     (case get t ino of
        Some (File i nm p _ _ _) \<Rightarrow> (True, update_node t ino (\<lambda>_. File i nm p sz content up))
      | _ \<Rightarrow> (False, t))"

definition update_file_size :: "tree \<Rightarrow> nat \<Rightarrow> nat \<Rightarrow> bool \<times> tree" where
  "update_file_size t ino sz =
     (case get t ino of
        Some (File i nm p _ c u) \<Rightarrow> (True, update_node t ino (\<lambda>_. File i nm p sz c u))
      | _ \<Rightarrow> (False, t))"

definition set_expires :: "tree \<Rightarrow> nat \<Rightarrow> nat option \<Rightarrow> bool \<times> tree" where
  "set_expires t ino e =
     (case get t ino of
        Some (File i nm p sz (Remote url sha mime _) u) \<Rightarrow>
          (True, update_node t ino (\<lambda>_. File i nm p sz (Remote url sha mime e) u))
      | _ \<Rightarrow> (False, t))"

text \<open>\<open>children.retain(|&c| c != child_ino)\<close>\<close>

definition unlink_child :: "nat \<Rightarrow> tree_node \<Rightarrow> tree_node" where
  "unlink_child c n =
     (case n of
        Directory i nm cs p lz \<Rightarrow> Directory i nm (filter (\<lambda>x. x \<noteq> c) cs) p lz
      | File _ _ _ _ _ _ \<Rightarrow> n)"

definition is_file :: "tree \<Rightarrow> nat \<Rightarrow> bool" where
  "is_file t ino = (case get t ino of Some (File _ _ _ _ _ _) \<Rightarrow> True | _ \<Rightarrow> False)"

definition is_dir :: "tree \<Rightarrow> nat \<Rightarrow> bool" where
  "is_dir t ino = (case get t ino of Some (Directory _ _ _ _ _) \<Rightarrow> True | _ \<Rightarrow> False)"

definition remove_file_from_dir :: "tree \<Rightarrow> nat \<Rightarrow> string \<Rightarrow> bool \<times> tree" where
  "remove_file_from_dir t parent name =
     (case lookup t parent name of
        None \<Rightarrow> (False, t)
      | Some child_ino \<Rightarrow>
          if \<not> is_file t child_ino then (False, t)
          else if is_dir t parent then (True, update_node t parent (unlink_child child_ino))
          else (False, t))"

definition expiring_entry :: "nat \<Rightarrow> nat \<Rightarrow> tree_node \<Rightarrow> (string \<times> nat) option" where
  "expiring_entry now threshold n =
     (case n of
        File _ name _ _ (Remote _ _ _ (Some e)) _ \<Rightarrow>
          if e > now \<and> e \<le> threshold then Some (name, e) else None
      | _ \<Rightarrow> None)"

text \<open>\<open>saturating_add\<close> on \<open>u64\<close>.\<close>

definition saturating_add :: "nat \<Rightarrow> nat \<Rightarrow> nat" where
  "saturating_add a b = min (a + b) (u64_max - 1)"

definition collect_expiring_blobs :: "tree \<Rightarrow> nat \<Rightarrow> nat \<Rightarrow> (string \<times> nat) list" where
  "collect_expiring_blobs t now within_secs =
     (let threshold = saturating_add now within_secs
      in List.map_filter (expiring_entry now threshold) (nodes t))"

end
