(* ===== verification/Bfs_Tree_Inv.thy ===== *)
theory Bfs_Tree_Inv
  imports Bfs_Tree
begin

text \<open>
  The well-formedness invariant of the directory tree, its preservation by every operation
  of \<open>Bfs_Tree\<close>, the specification of \<open>lookup\<close> and \<open>readdir\<close> as an association list, and
  what adding a node changes.  \<open>tree_wf\<close> says that the arena is a tree hanging off inode 1:
  every node knows its own number, children have larger numbers than their directory and
  point back to it, no child is listed twice, and every name except the root's is a legal
  path component.
\<close>

section \<open>The arena\<close>

named_theorems tree_get \<open>how \<open>get\<close> sees the result of an operation\<close>

lemma get_bounds: "get t i = Some n \<Longrightarrow> 1 \<le> i \<and> i \<le> node_count t"
  by (auto simp: get_def node_count_def split: if_splits)

lemma get_None_iff: "get t i = None \<longleftrightarrow> i = 0 \<or> node_count t < i"
  by (auto simp: get_def node_count_def)

lemma get_ex_iff: "(\<exists>n. get t i = Some n) \<longleftrightarrow> 1 \<le> i \<and> i \<le> node_count t"
  by (auto simp: get_def node_count_def)

lemma get_update_node [tree_get]:
  "get (update_node t i f) j = (if i = j then map_option f (get t j) else get t j)"
  by (auto simp: get_def update_node_def split: option.splits if_splits)

lemma node_count_update_node [simp]: "node_count (update_node t i f) = node_count t"
  by (simp add: update_node_def node_count_def split: option.split)

lemma root_update_node [simp]: "root (update_node t i f) = root t"
  by (simp add: update_node_def split: option.split)

lemma next_inode_eq: "next_inode t = node_count t + 1"
  by (simp add: next_inode_def node_count_def)

lemma get_push: "get (t\<lparr>nodes := nodes t @ [n]\<rparr>) j
    = (if j = next_inode t then Some n else get t j)"
  by (auto simp: get_def next_inode_def nth_append)

lemma fst_add_node [simp]: "fst (add_node t p mk) = next_inode t"
  by (simp add: add_node_def Let_def)

lemma node_count_add_node [simp]: "node_count (snd (add_node t p mk)) = node_count t + 1"
  by (simp add: add_node_def Let_def) (simp add: node_count_def)

lemma root_add_node [simp]: "root (snd (add_node t p mk)) = root t"
  by (simp add: add_node_def Let_def)

lemma get_add_node [tree_get]:
  "get (snd (add_node t p mk)) j =
     (if j = next_inode t
      then Some (if p = j then link_child j (mk j) else mk j)
      else if j = p then map_option (link_child (next_inode t)) (get t j)
      else get t j)"
  by (auto simp: add_node_def Let_def get_update_node get_push)

section \<open>The invariant\<close>

definition kids :: "tree_node \<Rightarrow> nat list" where
  "kids n = (case n of Directory _ _ cs _ _ \<Rightarrow> cs | File _ _ _ _ _ _ \<Rightarrow> [])"

lemma kids_simps [simp]:
  "kids (Directory i nm cs p lz) = cs" "kids (File i nm p sz c u) = []"
  by (simp_all add: kids_def)

definition node_wf :: "tree \<Rightarrow> nat \<Rightarrow> tree_node \<Rightarrow> bool" where
  "node_wf t i n \<longleftrightarrow> n_ino n = i \<and> n_parent n < i \<and> (i \<noteq> 1 \<longrightarrow> safe_component (n_name n)) \<and> distinct (kids n)
     \<and> (\<forall>c \<in> set (kids n). i < c \<and> (\<exists>m. get t c = Some m \<and> n_parent m = i))"

definition tree_wf :: "tree \<Rightarrow> bool" where
  "tree_wf t \<longleftrightarrow> root t = 1 \<and> is_dir t 1 \<and> (\<forall>i n. get t i = Some n \<longrightarrow> node_wf t i n)"

definition valid_ino :: "tree \<Rightarrow> nat \<Rightarrow> bool" where
  "valid_ino t i \<longleftrightarrow> 1 \<le> i \<and> i \<le> node_count t"

lemma valid_ino_iff: "valid_ino t i \<longleftrightarrow> (\<exists>n. get t i = Some n)"
  by (simp add: valid_ino_def get_ex_iff)

lemma tree_wfI:
  "root t = 1 \<Longrightarrow> is_dir t 1 \<Longrightarrow> (\<And>i n. get t i = Some n \<Longrightarrow> node_wf t i n) \<Longrightarrow> tree_wf t"
  by (simp add: tree_wf_def)

lemma tree_wf_node: "tree_wf t \<Longrightarrow> get t i = Some n \<Longrightarrow> node_wf t i n"
  by (simp add: tree_wf_def)

lemma tree_wf_root: "tree_wf t \<Longrightarrow> root t = 1 \<and> is_dir t 1"
  by (simp add: tree_wf_def)

lemma tree_wf_kid:
  "tree_wf t \<Longrightarrow> get t i = Some n \<Longrightarrow> c \<in> set (kids n) \<Longrightarrow>
     i < c \<and> (\<exists>m. get t c = Some m \<and> n_parent m = i)"
  by (auto simp: tree_wf_def node_wf_def)

lemma kids_bound: "tree_wf t \<Longrightarrow> get t i = Some n \<Longrightarrow> c \<in> set (kids n) \<Longrightarrow> c \<le> node_count t"
  using tree_wf_kid get_bounds by blast

lemma is_dir_valid: "is_dir t i \<Longrightarrow> valid_ino t i"
  by (auto simp: is_dir_def valid_ino_iff split: option.splits)

lemma is_file_valid: "is_file t i \<Longrightarrow> valid_ino t i"
  by (auto simp: is_file_def valid_ino_iff split: option.splits)

lemma dir_or_file: "valid_ino t i \<longleftrightarrow> is_dir t i \<or> is_file t i"
  by (auto simp: is_dir_def is_file_def valid_ino_iff split: option.splits tree_node.splits)

lemma dir_not_file: "is_dir t i \<Longrightarrow> \<not> is_file t i"
  by (auto simp: is_dir_def is_file_def split: option.splits tree_node.splits)

lemma tree_wf_new [inv_intros]: "tree_wf new_tree"
  by (auto simp: new_tree_def tree_wf_def is_dir_def get_def node_wf_def split: if_splits)

section \<open>Preservation\<close>

text \<open>Replacing a node by one with the same number, name, parent, kind and children.\<close>

definition same_frame :: "tree_node \<Rightarrow> tree_node \<Rightarrow> bool" where
  "same_frame n n' \<longleftrightarrow> n_ino n' = n_ino n \<and> n_name n' = n_name n \<and> n_parent n' = n_parent n
     \<and> kids n' = kids n \<and> node_kind_of n' = node_kind_of n"

lemma is_dir_kind: "is_dir t i \<longleftrightarrow> kind t i = Some DirectoryKind"
  by (auto simp: is_dir_def kind_def node_kind_of_def split: option.splits tree_node.splits)

lemma is_file_kind: "is_file t i \<longleftrightarrow> kind t i = Some FileKind"
  by (auto simp: is_file_def kind_def node_kind_of_def split: option.splits tree_node.splits)

text \<open>A step that keeps every node's frame, apart from dropping children, keeps the invariant.\<close>

lemma tree_wf_shrink:
  assumes wf: "tree_wf t" and root: "root t' = root t"
    and stp: "\<And>i n'. get t' i = Some n' \<Longrightarrow> \<exists>n. get t i = Some n \<and> n_ino n' = n_ino n
      \<and> n_name n' = n_name n \<and> n_parent n' = n_parent n \<and> distinct (kids n') \<and> set (kids n') \<subseteq> set (kids n)"
    and bck: "\<And>i n. get t i = Some n \<Longrightarrow> \<exists>n'. get t' i = Some n' \<and> n_parent n' = n_parent n
      \<and> node_kind_of n' = node_kind_of n"
  shows "tree_wf t'"
proof (rule tree_wfI)
  show "root t' = 1" using wf root by (simp add: tree_wf_def)
  have "kind t' 1 = kind t 1"
    using tree_wf_root [OF wf] bck [of 1]
    by (auto simp: is_dir_kind kind_def)
  then show "is_dir t' 1"
    using tree_wf_root [OF wf] by (simp add: is_dir_kind)
  fix i n'
  assume n': "get t' i = Some n'"
  then obtain n where n: "get t i = Some n" and s: "n_ino n' = n_ino n" "n_name n' = n_name n"
      "n_parent n' = n_parent n" "distinct (kids n')" "set (kids n') \<subseteq> set (kids n)"
    using stp by blast
  have "node_wf t i n" using wf n by (rule tree_wf_node)
  then show "node_wf t' i n'"
    using s bck unfolding node_wf_def by (metis subset_iff)
qed

lemma tree_wf_same_frame:
  assumes wf: "tree_wf t"
    and f: "\<And>n. get t i = Some n \<Longrightarrow> same_frame n (f n)"
  shows "tree_wf (update_node t i f)"
proof (rule tree_wf_shrink [OF wf])
  show "root (update_node t i f) = root t" by simp
next
  fix j n'
  assume "get (update_node t i f) j = Some n'"
  then obtain n where n: "get t j = Some n" "n' = n \<or> (i = j \<and> n' = f n)"
    by (auto simp: get_update_node split: if_splits)
  with f [of n] tree_wf_node [OF wf n(1)] show "\<exists>n. get t j = Some n \<and> n_ino n' = n_ino n
      \<and> n_name n' = n_name n \<and> n_parent n' = n_parent n \<and> distinct (kids n') \<and> set (kids n') \<subseteq> set (kids n)"
    by (auto simp: same_frame_def node_wf_def)
next
  fix j n
  assume "get t j = Some n"
  with f [of n] show "\<exists>n'. get (update_node t i f) j = Some n' \<and> n_parent n' = n_parent n
      \<and> node_kind_of n' = node_kind_of n"
    by (auto simp: get_update_node same_frame_def)
qed

lemma kids_link_child:
  "kids (link_child c n) = (case n of Directory _ _ cs _ _ \<Rightarrow> cs @ [c] | _ \<Rightarrow> [])"
  by (cases n) (auto simp: link_child_def)

lemma link_child_frame [simp]:
  "n_ino (link_child c n) = n_ino n" "n_name (link_child c n) = n_name n"
  "n_parent (link_child c n) = n_parent n" "node_kind_of (link_child c n) = node_kind_of n"
  by (cases n; simp add: link_child_def node_kind_of_def)+

text \<open>Adding a node under an existing inode.\<close>

lemma tree_wf_add_node:
  assumes wf: "tree_wf t" and p: "valid_ino t p"
    and mk: "n_ino (mk (next_inode t)) = next_inode t" "n_parent (mk (next_inode t)) = p"
      "safe_component (n_name (mk (next_inode t)))" "kids (mk (next_inode t)) = []"
  shows "tree_wf (snd (add_node t p mk))"
proof (rule tree_wfI)
  let ?k = "next_inode t" and ?t = "snd (add_node t p mk)"
  have pk: "p < ?k" using p by (simp add: valid_ino_def next_inode_eq)
  have old: "get t i = Some n \<Longrightarrow> i < ?k" for i n
    using get_bounds by (fastforce simp: next_inode_eq)
  show "root ?t = 1" using wf by (simp add: tree_wf_def)
  have "?k \<noteq> 1" using pk p by (simp add: valid_ino_def)
  then show "is_dir ?t 1"
    using tree_wf_root [OF wf]
    by (auto simp: is_dir_def get_add_node link_child_def split: option.splits tree_node.splits)
  have keep: "get t c = Some m \<Longrightarrow> \<exists>m'. get ?t c = Some m' \<and> n_parent m' = n_parent m" for c m
    using old [of c m] by (auto simp: get_add_node)
  fix i n
  assume n: "get ?t i = Some n"
  consider (new) "i = ?k" "n = mk ?k" | (parent) n0 where "i = p" "get t p = Some n0"
      "n = link_child ?k n0" | (other) "get t i = Some n"
    using n pk by (auto simp: get_add_node split: if_splits)
  then show "node_wf ?t i n"
  proof cases
    case new
    then show ?thesis using mk pk by (simp add: node_wf_def)
  next
    case (parent n0)
    have w: "node_wf t p n0" using wf parent by (simp add: tree_wf_node)
    have "?k \<notin> set (kids n0)"
      using tree_wf_kid [OF wf parent(2)] old by blast
    moreover have "get ?t ?k = Some (mk ?k)"
      using pk by (simp add: get_add_node)
    moreover have "\<exists>m. get ?t c = Some m \<and> n_parent m = p" if "c \<in> set (kids n0)" for c
      using w that keep by (fastforce simp: node_wf_def)
    ultimately show ?thesis
      using w parent pk mk by (cases n0) (auto simp: node_wf_def kids_link_child link_child_def)
  next
    case other
    then have "node_wf t i n" using wf by (simp add: tree_wf_node)
    then show ?thesis
      using keep by (fastforce simp: node_wf_def)
  qed
qed

lemma tree_wf_add_directory [inv_intros]:
  "tree_wf t \<Longrightarrow> valid_ino t p \<Longrightarrow> tree_wf (snd (add_directory t p nm))"
  by (auto simp: add_directory_def sanitize_path_component_safe intro: tree_wf_add_node)

lemma tree_wf_add_lazy_dir [inv_intros]:
  "tree_wf t \<Longrightarrow> valid_ino t p \<Longrightarrow> tree_wf (snd (add_lazy_dir t p nm lz))"
  by (auto simp: add_lazy_dir_def sanitize_path_component_safe intro: tree_wf_add_node)

lemma tree_wf_add_file_to_dir [inv_intros]:
  "tree_wf t \<Longrightarrow> valid_ino t p \<Longrightarrow> tree_wf (snd (add_file_to_dir t p nm c sz u))"
  by (auto simp: add_file_to_dir_def sanitize_path_component_safe intro: tree_wf_add_node)

lemma tree_wf_add_static_file [inv_intros]:
  "tree_wf t \<Longrightarrow> valid_ino t p \<Longrightarrow> tree_wf (snd (add_static_file now t p nm c))"
  by (auto simp: add_static_file_def sanitize_path_component_safe intro: tree_wf_add_node)

lemma tree_wf_add_remote_file [inv_intros]:
  "tree_wf t \<Longrightarrow> valid_ino t p \<Longrightarrow> tree_wf (snd (add_remote_file t p nm url sha sz mime u e))"
  by (auto simp: add_remote_file_def sanitize_path_component_safe intro: tree_wf_add_node)

lemma tree_wf_add_local_file [inv_intros]:
  "tree_wf t \<Longrightarrow> valid_ino t p \<Longrightarrow> tree_wf (snd (add_local_file now t p nm path sz))"
  by (auto simp: add_local_file_def sanitize_path_component_safe intro: tree_wf_add_node)

lemma tree_wf_get_or_create_dir [inv_intros]:
  "tree_wf t \<Longrightarrow> valid_ino t p \<Longrightarrow> tree_wf (snd (get_or_create_dir t p nm))"
  by (auto simp: get_or_create_dir_def split: option.split intro: tree_wf_add_directory)

lemma tree_wf_take_lazy [inv_intros]: "tree_wf t \<Longrightarrow> tree_wf (snd (take_lazy t i))"
  by (auto simp: take_lazy_def same_frame_def node_kind_of_def
      split: option.split tree_node.split intro!: tree_wf_same_frame)

lemma tree_wf_update_file_node [inv_intros]:
  "tree_wf t \<Longrightarrow> tree_wf (snd (update_file_node t i c sz u))"
  by (auto simp: update_file_node_def same_frame_def node_kind_of_def
      split: option.split tree_node.split intro!: tree_wf_same_frame)

lemma tree_wf_update_file_size [inv_intros]:
  "tree_wf t \<Longrightarrow> tree_wf (snd (update_file_size t i sz))"
  by (auto simp: update_file_size_def same_frame_def node_kind_of_def
      split: option.split tree_node.split intro!: tree_wf_same_frame)

lemma tree_wf_set_expires [inv_intros]: "tree_wf t \<Longrightarrow> tree_wf (snd (set_expires t i e))"
  by (auto simp: set_expires_def same_frame_def node_kind_of_def
      split: option.split tree_node.split file_content.split intro!: tree_wf_same_frame)

lemma unlink_child_frame [simp]:
  "n_ino (unlink_child c n) = n_ino n" "n_name (unlink_child c n) = n_name n"
  "n_parent (unlink_child c n) = n_parent n" "node_kind_of (unlink_child c n) = node_kind_of n"
  "kids (unlink_child c n) = filter (\<lambda>x. x \<noteq> c) (kids n)"
  by (cases n; simp add: unlink_child_def node_kind_of_def)+

lemma tree_wf_unlink_child [inv_intros]:
  assumes "tree_wf t"
  shows "tree_wf (update_node t p (unlink_child c))"
proof (rule tree_wf_shrink [OF assms])
  fix i n'
  assume "get (update_node t p (unlink_child c)) i = Some n'"
  then obtain n where "get t i = Some n" "n' = n \<or> n' = unlink_child c n"
    by (auto simp: get_update_node split: if_splits)
  with tree_wf_node [OF assms this(1)]
  show "\<exists>n. get t i = Some n \<and> n_ino n' = n_ino n
      \<and> n_name n' = n_name n \<and> n_parent n' = n_parent n \<and> distinct (kids n') \<and> set (kids n') \<subseteq> set (kids n)"
    by (auto simp: node_wf_def)
qed (auto simp: get_update_node)

lemma tree_wf_remove_file [inv_intros]:
  "tree_wf t \<Longrightarrow> tree_wf (snd (remove_file_from_dir t p nm))"
  by (auto simp: remove_file_from_dir_def split: option.split intro: tree_wf_unlink_child)

section \<open>Lookup and listing\<close>

text \<open>The entries of a directory, as the association list \<open>lookup\<close> and \<open>readdir\<close> implement.\<close>

definition node_at :: "tree \<Rightarrow> nat \<Rightarrow> tree_node" where
  "node_at t i = nodes t ! (i - 1)"

definition dir_kids :: "tree \<Rightarrow> nat \<Rightarrow> nat list" where
  "dir_kids t i = (case get t i of None \<Rightarrow> [] | Some n \<Rightarrow> kids n)"

definition dir_entries :: "tree \<Rightarrow> nat \<Rightarrow> (string \<times> nat) list" where
  "dir_entries t i = map (\<lambda>c. (n_name (node_at t c), c)) (dir_kids t i)"

lemma get_node_at: "get t i = Some n \<Longrightarrow> node_at t i = n"
  by (auto simp: get_def node_at_def split: if_splits)

lemma dir_kids_get: "get t i = Some n \<Longrightarrow> dir_kids t i = kids n"
  by (simp add: dir_kids_def)

lemma dir_kids_valid:
  assumes "tree_wf t" and "c \<in> set (dir_kids t i)"
  shows "get t c = Some (node_at t c) \<and> i < c \<and> n_parent (node_at t c) = i"
proof -
  from assms(2) obtain n where "get t i = Some n" "c \<in> set (kids n)"
    by (cases "get t i") (auto simp: dir_kids_def)
  with tree_wf_kid [OF assms(1)] obtain m where "i < c" "get t c = Some m" "n_parent m = i"
    by blast
  then show ?thesis
    using get_node_at [of t c m] by simp
qed

lemma dir_kids_distinct: "tree_wf t \<Longrightarrow> distinct (dir_kids t i)"
  by (auto simp: dir_kids_def tree_wf_def node_wf_def split: option.splits)

lemma lookup_in_map_of:
  "(\<And>c. c \<in> set cs \<Longrightarrow> get t c = Some (node_at t c)) \<Longrightarrow>
     lookup_in t cs nm = map_of (map (\<lambda>c. (n_name (node_at t c), c)) cs) nm"
  by (induction cs) auto

lemma readdir_in_entries:
  "(\<And>c. c \<in> set cs \<Longrightarrow> get t c = Some (node_at t c)) \<Longrightarrow>
     readdir_in t cs = Some (map (\<lambda>c. (c, n_name (node_at t c), node_kind_of (node_at t c))) cs)"
  by (induction cs) auto

lemma lookup_kids: "lookup t p nm = lookup_in t (dir_kids t p) nm"
  by (simp add: lookup_def dir_kids_def split: option.split tree_node.split)

lemma readdir_kids: "is_dir t p \<Longrightarrow> readdir t p = readdir_in t (dir_kids t p)"
  by (auto simp: readdir_def is_dir_def dir_kids_def split: option.splits tree_node.splits)

lemma lookup_map_of: "tree_wf t \<Longrightarrow> lookup t p nm = map_of (dir_entries t p) nm"
  unfolding lookup_kids dir_entries_def
  by (rule lookup_in_map_of) (simp add: dir_kids_valid)

lemma readdir_entries:
  assumes "tree_wf t" and "is_dir t p"
  shows "readdir t p
    = Some (map (\<lambda>(nm, c). (c, nm, node_kind_of (node_at t c))) (dir_entries t p))"
  using readdir_in_entries [of "dir_kids t p" t] dir_kids_valid [OF assms(1)]
  by (simp add: readdir_kids [OF assms(2)] dir_entries_def comp_def)

lemma dir_entries_get: "get t i = Some n \<Longrightarrow> map snd (dir_entries t i) = kids n"
  by (simp add: dir_entries_def dir_kids_def comp_def)

lemma dir_entries_inos: "map snd (dir_entries t i) = dir_kids t i"
  by (simp add: dir_entries_def comp_def)

lemma map_of_find:
  "map_of xs nm = map_option fst (List.find (\<lambda>e. fst (snd e) = nm)
      (map (\<lambda>(nm, c). (c, nm, f c)) xs))"
  by (induction xs) auto

text \<open>C30. In a well-formed tree \<open>readdir\<close> of a directory lists its entries without repeating
  an inode, and \<open>lookup\<close> finds exactly the first listed entry of the name: the two views the
  kernel has of a directory agree.\<close>

theorem lookup_agrees_with_readdir:
  assumes "tree_wf t" and "is_dir t p"
  shows "\<exists>es. readdir t p = Some es \<and> distinct (map fst es)
     \<and> (\<forall>nm. lookup t p nm = map_option fst (List.find (\<lambda>e. fst (snd e) = nm) es))"
proof -
  have "distinct (map fst (map (\<lambda>(nm, c). (c, nm, node_kind_of (node_at t c))) (dir_entries t p)))"
    using dir_kids_distinct [OF assms(1)] dir_entries_inos [of t p]
    by (simp add: comp_def case_prod_beta)
  then show ?thesis
    using readdir_entries [OF assms] lookup_map_of [OF assms(1)] map_of_find by auto
qed

theorem lookup_agrees_with_readdir_witness:
  "\<exists>es. readdir (snd (add_directory new_tree 1 ''d'')) 1 = Some es \<and> distinct (map fst es)"
proof -
  have w: "tree_wf (snd (add_directory new_tree 1 ''d''))"
    by (intro inv_intros) (simp add: valid_ino_def node_count_def new_tree_def)
  from lookup_agrees_with_readdir [OF this, of 1] tree_wf_root [OF w] show ?thesis by blast
qed

section \<open>What adding and removing change\<close>

definition name_at :: "tree \<Rightarrow> nat \<Rightarrow> string" where
  "name_at t c = (case get t c of None \<Rightarrow> [] | Some n \<Rightarrow> n_name n)"

lemma lookup_in_cong:
  "(\<And>c. c \<in> set cs \<Longrightarrow> map_option n_name (get t c) = map_option n_name (get t' c)) \<Longrightarrow>
     lookup_in t cs nm = lookup_in t' cs nm"
proof (induction cs)
  case (Cons c cs)
  have "map_option n_name (get t c) = map_option n_name (get t' c)"
    by (rule Cons.prems) simp
  moreover have "lookup_in t cs nm = lookup_in t' cs nm"
    by (rule Cons.IH, rule Cons.prems) simp
  ultimately show ?case
    by (cases "get t c"; cases "get t' c") auto
qed simp

lemma lookup_in_append:
  "(\<And>c. c \<in> set cs \<Longrightarrow> get t c \<noteq> None) \<Longrightarrow>
   lookup_in t (cs @ ds) nm = (case lookup_in t cs nm of None \<Rightarrow> lookup_in t ds nm | Some i \<Rightarrow> Some i)"
proof (induction cs)
  case (Cons a cs)
  from Cons.prems [of a] obtain n where "get t a = Some n" by auto
  with Cons show ?case by simp
qed simp

lemma dir_kids_add_node:
  assumes p: "is_dir t p" and mk: "kids (mk (next_inode t)) = []"
  shows "dir_kids (snd (add_node t p mk)) j =
    (if j = p then dir_kids t p @ [next_inode t] else dir_kids t j)"
proof -
  have "p \<noteq> next_inode t"
    using is_dir_valid [OF p] by (simp add: valid_ino_def next_inode_eq)
  moreover have "get t (next_inode t) = None"
    by (simp add: get_None_iff next_inode_eq)
  ultimately show ?thesis
    using p mk
    by (auto simp: dir_kids_def get_add_node is_dir_def kids_link_child
        split: option.splits tree_node.splits)
qed

lemma lookup_add_node:
  assumes wf: "tree_wf t" and p: "is_dir t p" and mk: "kids (mk (next_inode t)) = []"
  shows "lookup (snd (add_node t p mk)) j nm =
    (case lookup t j nm of
       Some i \<Rightarrow> Some i
     | None \<Rightarrow> if j = p \<and> n_name (mk (next_inode t)) = nm then Some (next_inode t) else None)"
proof -
  let ?t = "snd (add_node t p mk)"
  have old: "map_option n_name (get ?t c) = map_option n_name (get t c)"
    if "c \<in> set (dir_kids t i)" for c i
    using dir_kids_valid [OF wf that] get_bounds [of t c "node_at t c"]
    by (auto simp: get_add_node next_inode_eq)
  have cong: "lookup_in ?t (dir_kids t i) nm = lookup_in t (dir_kids t i) nm" for i
    by (rule lookup_in_cong) (rule old)
  have ne: "get ?t c \<noteq> None" if "c \<in> set (dir_kids t p)" for c
    using old [OF that] dir_kids_valid [OF wf that] by auto
  have "p \<noteq> next_inode t"
    using is_dir_valid [OF p] by (simp add: valid_ino_def next_inode_eq)
  then have new: "get ?t (next_inode t) = Some (mk (next_inode t))"
    by (simp add: get_add_node)
  show ?thesis
    using cong [of j] cong [of p] lookup_in_append [of "dir_kids t p" ?t, OF ne] new
    by (auto simp: lookup_kids dir_kids_add_node [where mk = mk, OF p mk] split: option.split)
qed

lemma is_dir_add_node:
  assumes "is_dir t j"
  shows "is_dir (snd (add_node t p mk)) j"
proof -
  have "j \<noteq> next_inode t"
    using is_dir_valid [OF assms] by (simp add: valid_ino_def next_inode_eq)
  with assms show ?thesis
    by (auto simp: is_dir_def get_add_node link_child_def split: option.splits tree_node.splits)
qed

lemma get_add_node_new:
  "valid_ino t p \<Longrightarrow> get (snd (add_node t p mk)) (next_inode t) = Some (mk (next_inode t))"
  by (simp add: get_add_node valid_ino_def next_inode_eq)

text \<open>Old nodes keep everything but their children.\<close>

lemma get_add_node_old:
  assumes "get t i = Some n"
  shows "\<exists>n'. get (snd (add_node t p mk)) i = Some n'
    \<and> (n' = n \<or> (i = p \<and> n' = link_child (next_inode t) n))"
  using get_bounds [OF assms] assms by (auto simp: get_add_node next_inode_eq)

lemma lookup_valid:
  assumes "tree_wf t" and "lookup t p nm = Some i"
  shows "valid_ino t i \<and> name_at t i = nm \<and> i \<in> set (dir_kids t p)"
proof -
  have "(nm, i) \<in> set (dir_entries t p)"
    using assms(2) map_of_SomeD unfolding lookup_map_of [OF assms(1)] by fast
  then have "i \<in> set (dir_kids t p)" "nm = n_name (node_at t i)"
    by (auto simp: dir_entries_def)
  with dir_kids_valid [OF assms(1)] show ?thesis
    by (simp add: valid_ino_iff name_at_def)
qed

text \<open>The recorded number of a fresh node is one more than the nodes there were.\<close>

lemma lookup_fresh_None:
  "tree_wf t \<Longrightarrow> lookup t (next_inode t) nm = None"
  using get_None_iff [of t "next_inode t"] by (simp add: lookup_kids dir_kids_def next_inode_eq)

end
