(* ===== verification/Bfs_Dirs.thy ===== *)
theory Bfs_Dirs
  imports Bfs_Tree_Inv
begin

text \<open>
  The interface between the directory tree and everything that builds subtrees in it.  A
  \<open>directory_store\<close> can look a name up and can get or create a directory; its laws say what
  a lookup returns after a creation.  The clients (the date hierarchy of the tree builder,
  drive paths, restored drive trees, the NIP-34 and tollgate trees) walk a path with
  get-or-create steps; the locale proves once that such a walk leads where resolving the
  path leads, keeps everything that was there, and is idempotent.  The interpretation gives
  the laws for \<open>lookup\<close> and \<open>get_or_create_dir\<close> of \<open>src/fuse/tree.rs\<close>.
\<close>

section \<open>Walking and resolving paths\<close>

fun walk_dirs :: "('t \<Rightarrow> nat \<Rightarrow> string \<Rightarrow> nat \<times> 't) \<Rightarrow> 't \<Rightarrow> nat \<Rightarrow> string list \<Rightarrow> nat \<times> 't" where
  "walk_dirs mk t p [] = (p, t)"
| "walk_dirs mk t p (n # ns) = (let (i, t') = mk t p n in walk_dirs mk t' i ns)"

fun resolve :: "('t \<Rightarrow> nat \<Rightarrow> string \<Rightarrow> nat option) \<Rightarrow> 't \<Rightarrow> nat \<Rightarrow> string list \<Rightarrow> nat option" where
  "resolve look t p [] = Some p"
| "resolve look t p (n # ns) =
     (case look t p n of None \<Rightarrow> None | Some i \<Rightarrow> resolve look t i ns)"

text \<open>No regular file stands where the walk needs a directory.\<close>

fun clear_way ::
  "('t \<Rightarrow> nat \<Rightarrow> string \<Rightarrow> nat option) \<Rightarrow> ('t \<Rightarrow> nat \<Rightarrow> bool) \<Rightarrow> 't \<Rightarrow> nat \<Rightarrow> string list \<Rightarrow> bool" where
  "clear_way look isd t p [] = isd t p"
| "clear_way look isd t p (n # ns) =
     (isd t p \<and> (case look t p n of None \<Rightarrow> True | Some i \<Rightarrow> clear_way look isd t i ns))"

section \<open>The interface\<close>

locale directory_store =
  fixes wf :: "'t \<Rightarrow> bool"
    and isd :: "'t \<Rightarrow> nat \<Rightarrow> bool"
    and look :: "'t \<Rightarrow> nat \<Rightarrow> string \<Rightarrow> nat option"
    and mkdir :: "'t \<Rightarrow> nat \<Rightarrow> string \<Rightarrow> nat \<times> 't"
    and ok :: "string \<Rightarrow> bool"
  assumes mkdir_wf: "wf t \<Longrightarrow> isd t p \<Longrightarrow> wf (snd (mkdir t p n))"
    and mkdir_existing: "look t p n = Some i \<Longrightarrow> mkdir t p n = (i, t)"
    and mkdir_find: "wf t \<Longrightarrow> isd t p \<Longrightarrow> ok n \<Longrightarrow>
      look (snd (mkdir t p n)) p n = Some (fst (mkdir t p n))"
    and mkdir_keeps: "wf t \<Longrightarrow> isd t p \<Longrightarrow> look t q m = Some i \<Longrightarrow>
      look (snd (mkdir t p n)) q m = Some i"
    and mkdir_isd_keeps: "isd t q \<Longrightarrow> isd (snd (mkdir t p n)) q"
    and mkdir_new: "wf t \<Longrightarrow> isd t p \<Longrightarrow> look t p n = None \<Longrightarrow>
      isd (snd (mkdir t p n)) (fst (mkdir t p n))
      \<and> (\<forall>m. look (snd (mkdir t p n)) (fst (mkdir t p n)) m = None)"
begin

lemma clear_way_isd: "clear_way look isd t p ns \<Longrightarrow> isd t p"
  by (cases ns) auto

lemma mkdir_clear:
  assumes "wf t" "clear_way look isd t p (n # ns)"
  shows "clear_way look isd (snd (mkdir t p n)) (fst (mkdir t p n)) ns"
proof (cases "look t p n")
  case None
  have "isd (snd (mkdir t p n)) (fst (mkdir t p n))"
    "\<And>m. look (snd (mkdir t p n)) (fst (mkdir t p n)) m = None"
    using mkdir_new [OF assms(1) clear_way_isd [OF assms(2)] None] by auto
  then show ?thesis by (cases ns) auto
next
  case (Some i)
  with assms(2) show ?thesis by (simp add: mkdir_existing)
qed

lemma walk_wf: "wf t \<Longrightarrow> clear_way look isd t p ns \<Longrightarrow> wf (snd (walk_dirs mkdir t p ns))"
proof (induction ns arbitrary: t p)
  case (Cons n ns)
  have "wf (snd (mkdir t p n))"
    using Cons.prems clear_way_isd mkdir_wf by blast
  with Cons.IH mkdir_clear [OF Cons.prems] show ?case
    by (simp add: case_prod_beta)
qed simp

lemma walk_keeps:
  "wf t \<Longrightarrow> clear_way look isd t p ns \<Longrightarrow> look t q m = Some i \<Longrightarrow>
     look (snd (walk_dirs mkdir t p ns)) q m = Some i"
proof (induction ns arbitrary: t p)
  case (Cons n ns)
  have d: "isd t p" using Cons.prems(2) by (rule clear_way_isd)
  show ?case
    using Cons.IH [OF mkdir_wf [OF Cons.prems(1) d] mkdir_clear [OF Cons.prems(1,2)]
        mkdir_keeps [OF Cons.prems(1) d Cons.prems(3)]]
    by (simp add: case_prod_beta)
qed simp

lemma walk_isd_keeps: "isd t q \<Longrightarrow> isd (snd (walk_dirs mkdir t p ns)) q"
  by (induction ns arbitrary: t p) (auto simp: case_prod_beta mkdir_isd_keeps)

lemma walk_isd:
  "wf t \<Longrightarrow> clear_way look isd t p ns \<Longrightarrow>
     isd (snd (walk_dirs mkdir t p ns)) (fst (walk_dirs mkdir t p ns))"
proof (induction ns arbitrary: t p)
  case (Cons n ns)
  show ?case
    using Cons.IH [OF mkdir_wf [OF Cons.prems(1) clear_way_isd [OF Cons.prems(2)]]
        mkdir_clear [OF Cons.prems]]
    by (simp add: case_prod_beta)
qed simp

text \<open>The walk ends where resolving the path in the new tree ends.\<close>

lemma walk_resolve:
  "wf t \<Longrightarrow> clear_way look isd t p ns \<Longrightarrow> list_all ok ns \<Longrightarrow>
     resolve look (snd (walk_dirs mkdir t p ns)) p ns = Some (fst (walk_dirs mkdir t p ns))"
proof (induction ns arbitrary: t p)
  case (Cons n ns)
  let ?t = "snd (mkdir t p n)" and ?i = "fst (mkdir t p n)"
  have d: "isd t p" using Cons.prems(2) by (rule clear_way_isd)
  have w: "wf ?t" using mkdir_wf [OF Cons.prems(1) d] .
  have c: "clear_way look isd ?t ?i ns" using mkdir_clear [OF Cons.prems(1,2)] .
  have "look ?t p n = Some ?i"
    using mkdir_find [OF Cons.prems(1) d] Cons.prems(3) by simp
  then have "look (snd (walk_dirs mkdir ?t ?i ns)) p n = Some ?i"
    by (rule walk_keeps [OF w c])
  with Cons.IH [OF w c] Cons.prems(3) show ?case
    by (simp add: case_prod_beta)
qed simp

text \<open>A path that resolves is walked without changing the tree.\<close>

lemma walk_existing: "resolve look t p ns = Some i \<Longrightarrow> walk_dirs mkdir t p ns = (i, t)"
  by (induction ns arbitrary: p) (auto simp: mkdir_existing split: option.splits)

lemma walk_again:
  assumes "wf t" "clear_way look isd t p ns" "list_all ok ns"
  shows "walk_dirs mkdir (snd (walk_dirs mkdir t p ns)) p ns = walk_dirs mkdir t p ns"
  using walk_existing [OF walk_resolve [OF assms]] by simp

end

section \<open>The tree is a directory store\<close>

text \<open>The names \<open>sanitize_path_component\<close> leaves alone: for these the stored name is the name
  asked for.\<close>

definition plain_name :: "string \<Rightarrow> bool" where
  "plain_name nm \<longleftrightarrow> sanitize_path_component nm = nm"

lemma get_or_create_dir_new:
  assumes "lookup t p nm = None"
  shows "get_or_create_dir t p nm = (next_inode t, snd (add_node t p
    (\<lambda>ino. Directory ino (sanitize_path_component nm) [] p None)))"
  using assms fst_add_node [of t p "\<lambda>ino. Directory ino (sanitize_path_component nm) [] p None"]
  by (simp add: get_or_create_dir_def add_directory_def Let_def prod_eq_iff)

lemma lookup_get_or_create_dir:
  assumes "tree_wf t" "is_dir t p"
  shows "lookup (snd (get_or_create_dir t p nm)) j m =
    (case lookup t j m of
       Some i \<Rightarrow> Some i
     | None \<Rightarrow> if j = p \<and> lookup t p nm = None \<and> sanitize_path_component nm = m
               then Some (next_inode t) else None)"
proof (cases "lookup t p nm")
  case None
  then show ?thesis
    using lookup_add_node [OF assms, of "\<lambda>ino. Directory ino (sanitize_path_component nm) [] p None"]
    by (simp add: get_or_create_dir_new split: option.split)
next
  case (Some i)
  then show ?thesis
    by (auto simp: get_or_create_dir_def split: option.split)
qed

lemma lookup_get_or_create_self:
  assumes "tree_wf t" "is_dir t p" "plain_name n"
  shows "lookup (snd (get_or_create_dir t p n)) p n = Some (fst (get_or_create_dir t p n))"
proof (cases "lookup t p n")
  case None
  then have "fst (get_or_create_dir t p n) = next_inode t"
    by (simp add: get_or_create_dir_new)
  with None assms(3) show ?thesis
    unfolding lookup_get_or_create_dir [OF assms(1,2)] by (simp add: plain_name_def)
next
  case (Some i)
  then show ?thesis by (simp add: get_or_create_dir_def)
qed

lemma is_dir_get_or_create_dir: "is_dir t q \<Longrightarrow> is_dir (snd (get_or_create_dir t p nm)) q"
  by (auto simp: get_or_create_dir_def add_directory_def is_dir_add_node split: option.split)

lemma is_dir_get_or_create_new:
  "valid_ino t p \<Longrightarrow> lookup t p nm = None \<Longrightarrow>
     is_dir (snd (get_or_create_dir t p nm)) (fst (get_or_create_dir t p nm))"
  by (simp add: get_or_create_dir_new is_dir_def get_add_node_new)

interpretation dirs: directory_store tree_wf is_dir lookup get_or_create_dir plain_name
proof unfold_locales
  fix t p n assume "tree_wf t" "is_dir t p"
  then show "tree_wf (snd (get_or_create_dir t p n))"
    by (simp add: tree_wf_get_or_create_dir is_dir_valid)
next
  fix t p n i assume "lookup t p n = Some i"
  then show "get_or_create_dir t p n = (i, t)"
    by (simp add: get_or_create_dir_def)
next
  fix t p n assume "tree_wf t" "is_dir t p" "plain_name n"
  then show "lookup (snd (get_or_create_dir t p n)) p n = Some (fst (get_or_create_dir t p n))"
    by (rule lookup_get_or_create_self)
next
  fix t p q m i n assume "tree_wf t" "is_dir t p" "lookup t q m = Some i"
  then show "lookup (snd (get_or_create_dir t p n)) q m = Some i"
    by (simp add: lookup_get_or_create_dir)
next
  fix t q p n assume "is_dir t q"
  then show "is_dir (snd (get_or_create_dir t p n)) q"
    by (rule is_dir_get_or_create_dir)
next
  fix t p n assume a: "tree_wf t" "is_dir t p" "lookup t p n = None"
  have "lookup (snd (get_or_create_dir t p n)) (next_inode t) m = None" for m
    using lookup_get_or_create_dir [OF a(1,2), of n "next_inode t" m] lookup_fresh_None [OF a(1)]
      is_dir_valid [OF a(2)]
    by (simp add: valid_ino_def next_inode_eq)
  then show "is_dir (snd (get_or_create_dir t p n)) (fst (get_or_create_dir t p n))
      \<and> (\<forall>m. lookup (snd (get_or_create_dir t p n)) (fst (get_or_create_dir t p n)) m = None)"
    using is_dir_get_or_create_new [OF is_dir_valid [OF a(2)] a(3)] a(3)
    by (simp add: get_or_create_dir_new)
qed

text \<open>The walks the program makes.\<close>

abbreviation dir_path :: "tree \<Rightarrow> nat \<Rightarrow> string list \<Rightarrow> nat \<times> tree" where
  "dir_path \<equiv> walk_dirs get_or_create_dir"

abbreviation find_path :: "tree \<Rightarrow> nat \<Rightarrow> string list \<Rightarrow> nat option" where
  "find_path \<equiv> resolve lookup"

abbreviation clear_path :: "tree \<Rightarrow> nat \<Rightarrow> string list \<Rightarrow> bool" where
  "clear_path \<equiv> clear_way lookup is_dir"

text \<open>Getting or creating a directory under an existing directory keeps the tree
  well formed and every earlier entry; for a name that needs no sanitising the new entry is
  found under that name, and asking again returns the same inode and leaves the tree alone.\<close>

theorem get_or_create_dir_contract:
  assumes "tree_wf t" and "is_dir t p"
  shows "tree_wf (snd (get_or_create_dir t p nm))
    \<and> (\<forall>q m i. lookup t q m = Some i \<longrightarrow> lookup (snd (get_or_create_dir t p nm)) q m = Some i)
    \<and> (plain_name nm \<longrightarrow>
         lookup (snd (get_or_create_dir t p nm)) p nm = Some (fst (get_or_create_dir t p nm))
         \<and> get_or_create_dir (snd (get_or_create_dir t p nm)) p nm = get_or_create_dir t p nm)"
  using dirs.mkdir_wf [OF assms] dirs.mkdir_keeps [OF assms] dirs.mkdir_find [OF assms]
    dirs.mkdir_existing
  by auto

theorem get_or_create_dir_contract_witness:
  "tree_wf (snd (get_or_create_dir new_tree 1 ''docs''))"
proof -
  have "is_dir new_tree 1" by (simp add: is_dir_def new_tree_def get_def)
  from get_or_create_dir_contract [OF tree_wf_new this, of "''docs''"] show ?thesis by blast
qed

text \<open>The other names: the directory is stored under the sanitised name, so the raw name is
  not found afterwards and asking again makes a second sibling of the same stored name.\<close>

lemma get_or_create_dir_duplicates:
  assumes "tree_wf t" "is_dir t p" "lookup t p nm = None" "\<not> plain_name nm"
  shows "fst (get_or_create_dir (snd (get_or_create_dir t p nm)) p nm)
    \<noteq> fst (get_or_create_dir t p nm)"
proof -
  let ?t = "snd (get_or_create_dir t p nm)"
  have "lookup ?t p nm = None"
    using assms by (simp add: lookup_get_or_create_dir plain_name_def)
  then have "fst (get_or_create_dir ?t p nm) = node_count t + 2"
    using assms(3) by (simp add: get_or_create_dir_new next_inode_eq)
  then show ?thesis
    using assms(3) by (simp add: get_or_create_dir_new next_inode_eq)
qed

end
