(* ===== verification/Bfs_Tree_Ext.thy ===== *)
theory Bfs_Tree_Ext
  imports Bfs_Dirs
begin

text \<open>
  Growing trees: \<open>tree_ext t t'\<close> says that \<open>t'\<close> still has every entry, directory and file
  of \<open>t\<close>.  All adders extend; the theory also follows parent chains (\<open>par\<close>), so that clients
  can tell subtrees apart, and describes a freshly added directory completely.
\<close>

section \<open>Growing trees\<close>

text \<open>\<open>tree_ext t t'\<close>: \<open>t'\<close> has everything \<open>t\<close> has, at the same places.\<close>

definition tree_ext :: "tree \<Rightarrow> tree \<Rightarrow> bool" where
  "tree_ext t t' \<longleftrightarrow>
     (\<forall>q m i. lookup t q m = Some i \<longrightarrow> lookup t' q m = Some i)
     \<and> (\<forall>q. is_dir t q \<longrightarrow> is_dir t' q)
     \<and> (\<forall>c n. get t c = Some n \<longrightarrow> (\<exists>n'. get t' c = Some n' \<and> n_parent n' = n_parent n
            \<and> n_name n' = n_name n \<and> (is_file t c \<longrightarrow> n' = n)))
     \<and> (\<forall>q. set (dir_kids t q) \<subseteq> set (dir_kids t' q))"

lemma tree_ext_refl [simp]: "tree_ext t t"
  by (simp add: tree_ext_def)

lemma tree_ext_lookup: "tree_ext t t' \<Longrightarrow> lookup t q m = Some i \<Longrightarrow> lookup t' q m = Some i"
  by (simp add: tree_ext_def)

lemma tree_ext_is_dir: "tree_ext t t' \<Longrightarrow> is_dir t q \<Longrightarrow> is_dir t' q"
  by (simp add: tree_ext_def)

lemma tree_ext_get: "tree_ext t t' \<Longrightarrow> get t c = Some n \<Longrightarrow>
    \<exists>n'. get t' c = Some n' \<and> n_parent n' = n_parent n \<and> n_name n' = n_name n"
  unfolding tree_ext_def by blast

lemma get_is_file: "get t c = Some (File i nm p sz ct up) \<Longrightarrow> is_file t c"
  by (simp add: is_file_def)

lemma tree_ext_file:
  "tree_ext t t' \<Longrightarrow> get t c = Some (File i nm p sz ct up) \<Longrightarrow>
     get t' c = Some (File i nm p sz ct up)"
  unfolding tree_ext_def using get_is_file by blast

lemma tree_ext_kids: "tree_ext t t' \<Longrightarrow> c \<in> set (dir_kids t q) \<Longrightarrow> c \<in> set (dir_kids t' q)"
  unfolding tree_ext_def by blast

lemma tree_ext_is_file:
  assumes "tree_ext t t'" "is_file t c"
  shows "is_file t' c"
proof -
  obtain n where n: "get t c = Some n" using assms(2) by (auto simp: is_file_def split: option.splits)
  with assms have "get t' c = Some n" unfolding tree_ext_def by blast
  with n assms(2) show ?thesis by (simp add: is_file_def)
qed

lemma tree_ext_trans:
  assumes "tree_ext a b" "tree_ext b c"
  shows "tree_ext a c"
  unfolding tree_ext_def
proof (intro conjI allI impI)
  fix i n assume n: "get a i = Some n"
  from assms(1) n obtain n1 where n1: "get b i = Some n1" "n_parent n1 = n_parent n"
      "n_name n1 = n_name n" "is_file a i \<longrightarrow> n1 = n"
    unfolding tree_ext_def by blast
  from assms(2) n1(1) obtain n2 where "get c i = Some n2" "n_parent n2 = n_parent n1"
      "n_name n2 = n_name n1" "is_file b i \<longrightarrow> n2 = n1"
    unfolding tree_ext_def by blast
  with n1 tree_ext_is_file [OF assms(1)]
  show "\<exists>n'. get c i = Some n' \<and> n_parent n' = n_parent n \<and> n_name n' = n_name n
      \<and> (is_file a i \<longrightarrow> n' = n)"
    by auto
next
  fix q show "set (dir_kids a q) \<subseteq> set (dir_kids c q)"
    using assms unfolding tree_ext_def by (meson order.trans)
qed (use assms in \<open>simp_all add: tree_ext_def\<close>)

lemma tree_ext_find_path:
  "tree_ext t t' \<Longrightarrow> find_path t p ns = Some i \<Longrightarrow> find_path t' p ns = Some i"
  by (induction ns arbitrary: p) (auto split: option.splits dest: tree_ext_lookup)

lemma tree_ext_add_node:
  assumes wf: "tree_wf t" and p: "is_dir t p" and mk: "kids (mk (next_inode t)) = []"
  shows "tree_ext t (snd (add_node t p mk))"
  unfolding tree_ext_def
proof (intro conjI allI impI)
  fix q m i assume "lookup t q m = Some i"
  then show "lookup (snd (add_node t p mk)) q m = Some i"
    by (simp add: lookup_add_node [where mk = mk, OF wf p mk])
next
  fix q assume "is_dir t q"
  then show "is_dir (snd (add_node t p mk)) q" by (rule is_dir_add_node)
next
  fix c n assume n: "get t c = Some n"
  from get_add_node_old [OF n, of p mk] obtain n' where
    n': "get (snd (add_node t p mk)) c = Some n'" "n' = n \<or> c = p \<and> n' = link_child (next_inode t) n"
    by blast
  moreover have "c = p \<Longrightarrow> \<not> is_file t c"
    using p dir_not_file by simp
  ultimately show "\<exists>n'. get (snd (add_node t p mk)) c = Some n' \<and> n_parent n' = n_parent n
      \<and> n_name n' = n_name n \<and> (is_file t c \<longrightarrow> n' = n)"
    by auto
next
  fix q show "set (dir_kids t q) \<subseteq> set (dir_kids (snd (add_node t p mk)) q)"
    by (auto simp: dir_kids_add_node [where mk = mk, OF p mk])
qed

text \<open>Below a file the new node is no one's child, so nothing that was there changes either.\<close>

lemma file_not_linked:
  assumes "valid_ino t p" "\<not> is_dir t p" "get t p = Some n"
  shows "link_child c n = n"
  using assms by (cases n) (simp_all add: is_dir_def link_child_def)

lemma tree_ext_add_node_valid:
  assumes wf: "tree_wf t" and p: "valid_ino t p" and mk: "kids (mk (next_inode t)) = []"
  shows "tree_ext t (snd (add_node t p mk))"
proof (cases "is_dir t p")
  case True
  then show ?thesis by (rule tree_ext_add_node [where mk = mk, OF wf _ mk])
next
  case False
  let ?t = "snd (add_node t p mk)"
  have g: "get ?t c = Some n" if "get t c = Some n" for c n
    using get_add_node_old [OF that, of p mk] file_not_linked [OF p False] that by metis
  have "get ?t q = None" if "get t q = None" "q \<noteq> next_inode t" for q
    using that by (auto simp: get_None_iff next_inode_eq)
  then have k: "dir_kids ?t q = dir_kids t q" for q
    using g get_add_node_new [OF p, of mk] mk
    by (cases "get t q"; cases "q = next_inode t") (simp_all add: dir_kids_def)
  have "lookup_in ?t (dir_kids t q) m = lookup_in t (dir_kids t q) m" for q m
    by (rule lookup_in_cong) (use g dir_kids_valid [OF wf] in fastforce)
  then have "lookup ?t q m = lookup t q m" for q m
    by (simp add: lookup_kids k)
  with g k show ?thesis
    by (auto simp: tree_ext_def is_dir_def split: option.splits)
qed

lemma tree_ext_add_directory: "tree_wf t \<Longrightarrow> is_dir t p \<Longrightarrow> tree_ext t (snd (add_directory t p nm))"
  by (simp add: add_directory_def Let_def tree_ext_add_node)

lemma tree_ext_get_or_create:
  "tree_wf t \<Longrightarrow> is_dir t p \<Longrightarrow> tree_ext t (snd (get_or_create_dir t p nm))"
  by (auto simp: get_or_create_dir_def tree_ext_add_directory split: option.split)

lemma tree_ext_dir_path:
  "tree_wf t \<Longrightarrow> clear_path t p ns \<Longrightarrow> tree_ext t (snd (dir_path t p ns))"
proof (induction ns arbitrary: t p)
  case (Cons n ns)
  have d: "is_dir t p" using Cons.prems(2) by (rule dirs.clear_way_isd)
  show ?case
    using tree_ext_trans [OF tree_ext_get_or_create [OF Cons.prems(1) d]
        Cons.IH [OF dirs.mkdir_wf [OF Cons.prems(1) d] dirs.mkdir_clear [OF Cons.prems]]]
    by (simp add: case_prod_beta)
qed simp

section \<open>Ancestors\<close>

definition par :: "tree \<Rightarrow> nat \<Rightarrow> nat" where
  "par t c = (case get t c of None \<Rightarrow> 0 | Some n \<Rightarrow> n_parent n)"

lemma par_get: "get t c = Some n \<Longrightarrow> par t c = n_parent n"
  by (simp add: par_def)

lemma par_less: "tree_wf t \<Longrightarrow> 0 < c \<Longrightarrow> par t c < c"
  using tree_wf_node [of t c] by (auto simp: par_def node_wf_def split: option.split)

lemma par_le: "tree_wf t \<Longrightarrow> par t c \<le> c"
  using par_less [of t c] by (cases "c = 0") (auto simp: par_def get_def)

lemma par_pow_le: "tree_wf t \<Longrightarrow> (par t ^^ j) c \<le> c"
  by (induction j) (auto intro: order.trans [OF par_le])

lemma par_pow_less: "tree_wf t \<Longrightarrow> 0 < c \<Longrightarrow> 0 < j \<Longrightarrow> (par t ^^ j) c < c"
  using par_pow_le [of t "j - 1" "par t c"] par_less [of t c]
  by (cases j) (auto simp: funpow_swap1 simp del: funpow.simps(2) simp: funpow_Suc_right)

lemma par_kid: "tree_wf t \<Longrightarrow> c \<in> set (dir_kids t p) \<Longrightarrow> par t c = p"
  using dir_kids_valid [of t c p] by (simp add: par_get)

lemma par_lookup: "tree_wf t \<Longrightarrow> lookup t p nm = Some i \<Longrightarrow> par t i = p"
  using lookup_valid par_kid by blast

lemma par_ext: "tree_ext t t' \<Longrightarrow> valid_ino t c \<Longrightarrow> par t' c = par t c"
  using tree_ext_get [of t t' c] unfolding valid_ino_iff by (auto simp: par_def)

lemma par_zero [simp]: "par t 0 = 0"
  by (simp add: par_def get_def)

lemma par_pow_zero [simp]: "(par t ^^ j) 0 = 0"
  by (induction j) auto

lemma par_valid: "tree_wf t \<Longrightarrow> valid_ino t c \<Longrightarrow> par t c = 0 \<or> valid_ino t (par t c)"
  using par_le [of t c] by (auto simp: valid_ino_def)

lemma par_pow_ext:
  "tree_ext t t' \<Longrightarrow> tree_wf t \<Longrightarrow> valid_ino t c \<Longrightarrow> (par t' ^^ j) c = (par t ^^ j) c"
proof (induction j arbitrary: c)
  case (Suc j)
  have "par t' c = par t c" by (rule par_ext [OF Suc.prems(1,3)])
  moreover have "(par t' ^^ j) (par t c) = (par t ^^ j) (par t c)"
    using par_valid [OF Suc.prems(2,3)] Suc.IH [OF Suc.prems(1,2)] by auto
  ultimately show ?case by (simp add: funpow_Suc_right del: funpow.simps(2))
qed simp

text \<open>Every node at most \<open>k\<close> levels below \<open>D\<close> is a directory.\<close>

definition sub_dirs :: "tree \<Rightarrow> nat \<Rightarrow> nat \<Rightarrow> bool" where
  "sub_dirs t D k \<longleftrightarrow> (\<forall>c j. 1 \<le> j \<longrightarrow> j \<le> k \<longrightarrow> (par t ^^ j) c = D \<longrightarrow> is_dir t c)"

lemma sub_dirs_clear:
  "tree_wf t \<Longrightarrow> sub_dirs t D k \<Longrightarrow> (par t ^^ j) c = D \<Longrightarrow> is_dir t c \<Longrightarrow> j + length ns \<le> k \<Longrightarrow>
     clear_path t c ns"
proof (induction ns arbitrary: c j)
  case (Cons n ns)
  show ?case
  proof (cases "lookup t c n")
    case (Some i)
    have J: "(par t ^^ Suc j) i = D"
      using par_lookup [OF Cons.prems(1) Some] Cons.prems(3)
      by (simp add: funpow_Suc_right del: funpow.simps(2))
    then have d: "is_dir t i"
      using Cons.prems(2,5) unfolding sub_dirs_def
      by (elim allE [of _ i] allE [of _ "Suc j"]) simp
    have "clear_path t i ns"
      using Cons.IH [OF Cons.prems(1,2) J d] Cons.prems(5) by simp
    with Some Cons.prems(4) show ?thesis by simp
  qed (use Cons.prems in simp)
qed simp

lemma par_add_node:
  "tree_wf t \<Longrightarrow> is_dir t p \<Longrightarrow> n_parent (mk (next_inode t)) = p \<Longrightarrow>
     par (snd (add_node t p mk)) c = (if c = next_inode t then p else par t c)"
  using is_dir_valid [of t p]
  by (auto simp: par_def get_add_node valid_ino_def next_inode_eq split: option.split)

lemma par_pow_next:
  assumes wf: "tree_wf t" and p: "is_dir t p" and mk: "n_parent (mk (next_inode t)) = p"
    "kids (mk (next_inode t)) = []" and j: "1 \<le> j"
  shows "(par (snd (add_node t p mk)) ^^ j) (next_inode t) = (par t ^^ (j - 1)) p"
proof -
  have "par (snd (add_node t p mk)) (next_inode t) = p"
    by (simp add: par_add_node [where mk = mk, OF wf p mk(1)])
  moreover have "(par (snd (add_node t p mk)) ^^ (j - 1)) p = (par t ^^ (j - 1)) p"
    by (rule par_pow_ext [OF tree_ext_add_node [where mk = mk, OF wf p mk(2)] wf is_dir_valid [OF p]])
  ultimately show ?thesis
    using j by (cases j) (auto simp: funpow_Suc_right simp del: funpow.simps(2))
qed

lemma sub_dirs_add_node:
  assumes wf: "tree_wf t" and p: "is_dir t p" and mk: "n_parent (mk (next_inode t)) = p"
      "kids (mk (next_inode t)) = []"
    and s: "sub_dirs t D k" and D: "0 < D"
    and ok: "node_kind_of (mk (next_inode t)) = DirectoryKind \<or> (\<forall>j < k. (par t ^^ j) p \<noteq> D)"
  shows "sub_dirs (snd (add_node t p mk)) D k"
  unfolding sub_dirs_def
proof (intro allI impI)
  let ?t = "snd (add_node t p mk)"
  have ext: "tree_ext t ?t" by (rule tree_ext_add_node [where mk = mk, OF wf p mk(2)])
  fix c j assume j: "1 \<le> j" "j \<le> k" and c: "(par ?t ^^ j) c = D"
  show "is_dir ?t c"
  proof (cases "c = next_inode t")
    case True
    then have "(par t ^^ (j - 1)) p = D"
      using par_pow_next [where mk = mk, OF wf p mk j(1)] c by simp
    then have "node_kind_of (mk (next_inode t)) = DirectoryKind"
      using ok j by (metis Suc_le_eq Suc_pred' less_le_trans zero_less_one)
    then show ?thesis
      using True get_add_node_new [OF is_dir_valid [OF p]] by (simp add: is_dir_kind kind_def)
  next
    case False
    have "get ?t c \<noteq> None"
    proof
      assume "get ?t c = None"
      then have "par ?t c = 0" by (simp add: par_def)
      then have "(par ?t ^^ j) c = 0"
        using j(1) by (cases j) (simp_all add: funpow_Suc_right del: funpow.simps(2))
      with c D show False by simp
    qed
    with False have v: "valid_ino t c"
      by (auto simp: get_None_iff valid_ino_def next_inode_eq)
    then have "(par t ^^ j) c = D"
      using c par_pow_ext [OF ext wf v] by simp
    then have "is_dir t c" using s j unfolding sub_dirs_def by blast
    then show ?thesis by (rule is_dir_add_node)
  qed
qed

section \<open>Walking below a directory\<close>

lemma sub_dirs_get_or_create:
  assumes "tree_wf t" "is_dir t p" "sub_dirs t D k" "0 < D"
  shows "sub_dirs (snd (get_or_create_dir t p nm)) D k"
proof (cases "lookup t p nm")
  case None
  then show ?thesis
    using sub_dirs_add_node [of t p "\<lambda>ino. Directory ino (sanitize_path_component nm) [] p None" D k] assms
    by (simp add: get_or_create_dir_new node_kind_of_def)
qed (simp add: get_or_create_dir_def assms)

lemma par_get_or_create:
  assumes "tree_wf t" "is_dir t p"
  shows "par (snd (get_or_create_dir t p nm)) (fst (get_or_create_dir t p nm)) = p"
proof (cases "lookup t p nm")
  case None
  then show ?thesis
    using par_add_node [of t p "\<lambda>ino. Directory ino (sanitize_path_component nm) [] p None"] assms
    by (simp add: get_or_create_dir_new)
next
  case (Some i)
  then show ?thesis using assms by (simp add: get_or_create_dir_def par_lookup)
qed

lemma dir_kids_get_or_create:
  assumes "is_dir t p" "q \<noteq> p"
  shows "dir_kids (snd (get_or_create_dir t p nm)) q = dir_kids t q"
proof (cases "lookup t p nm")
  case None
  then show ?thesis
    using dir_kids_add_node [of t p "\<lambda>ino. Directory ino (sanitize_path_component nm) [] p None"] assms
    by (simp add: get_or_create_dir_new)
qed (simp add: get_or_create_dir_def)

lemma walk_ancestor:
  "tree_wf t \<Longrightarrow> clear_path t p ns \<Longrightarrow> (par (snd (dir_path t p ns)) ^^ length ns) (fst (dir_path t p ns)) = p"
proof (induction ns arbitrary: t p)
  case (Cons n ns)
  let ?t = "snd (get_or_create_dir t p n)" and ?i = "fst (get_or_create_dir t p n)"
  have d: "is_dir t p" using Cons.prems(2) by (rule dirs.clear_way_isd)
  have w: "tree_wf ?t" using Cons.prems(1) d by (rule dirs.mkdir_wf)
  have c: "clear_path ?t ?i ns" using Cons.prems by (rule dirs.mkdir_clear)
  have "valid_ino ?t ?i"
    using c dirs.clear_way_isd is_dir_valid by blast
  then have "par (snd (dir_path ?t ?i ns)) ?i = p"
    using par_ext [OF tree_ext_dir_path [OF w c]] par_get_or_create [OF Cons.prems(1) d] by simp
  with Cons.IH [OF w c] show ?case
    by (simp add: case_prod_beta)
qed simp

lemma sub_dirs_walk:
  "tree_wf t \<Longrightarrow> clear_path t p ns \<Longrightarrow> sub_dirs t D k \<Longrightarrow> 0 < D \<Longrightarrow>
     sub_dirs (snd (dir_path t p ns)) D k"
proof (induction ns arbitrary: t p)
  case (Cons n ns)
  have d: "is_dir t p" using Cons.prems(2) by (rule dirs.clear_way_isd)
  show ?case
    using Cons.IH [OF dirs.mkdir_wf [OF Cons.prems(1) d] dirs.mkdir_clear [OF Cons.prems(1,2)]
        sub_dirs_get_or_create [OF Cons.prems(1) d Cons.prems(3,4)] Cons.prems(4)]
    by (simp add: case_prod_beta)
qed simp

text \<open>A walk below \<open>p\<close> leaves the listing of every directory outside \<open>p\<close>'s subtree alone.\<close>

lemma dir_kids_walk:
  "tree_wf t \<Longrightarrow> clear_path t p ns \<Longrightarrow> valid_ino t q \<Longrightarrow> (\<forall>j. (par t ^^ j) q \<noteq> p) \<Longrightarrow>
     dir_kids (snd (dir_path t p ns)) q = dir_kids t q"
proof (induction ns arbitrary: t p)
  case (Cons n ns)
  let ?t = "snd (get_or_create_dir t p n)" and ?i = "fst (get_or_create_dir t p n)"
  have d: "is_dir t p" using Cons.prems(2) by (rule dirs.clear_way_isd)
  have w: "tree_wf ?t" using Cons.prems(1) d by (rule dirs.mkdir_wf)
  have ext: "tree_ext t ?t" using Cons.prems(1) d by (rule tree_ext_get_or_create)
  have v: "valid_ino ?t q"
    using ext Cons.prems(3) tree_ext_get unfolding valid_ino_iff by blast
  have "(par ?t ^^ j) q \<noteq> ?i" for j
  proof
    assume "(par ?t ^^ j) q = ?i"
    then have "(par ?t ^^ Suc j) q = p"
      using par_get_or_create [OF Cons.prems(1) d] by simp
    then show False
      using par_pow_ext [OF ext Cons.prems(1,3), of "Suc j"] Cons.prems(4) by metis
  qed
  then have "dir_kids (snd (dir_path ?t ?i ns)) q = dir_kids ?t q"
    using Cons.IH [OF w dirs.mkdir_clear [OF Cons.prems(1,2)] v] by blast
  moreover have "q \<noteq> p"
    using Cons.prems(4) by (metis funpow_0)
  ultimately show ?case
    by (simp add: case_prod_beta dir_kids_get_or_create [OF d])
qed simp

lemma par_pow_split:
  assumes "k \<le> l"
  shows "(par t ^^ l) x = (par t ^^ (l - k)) ((par t ^^ k) x)"
proof -
  have "(par t ^^ ((l - k) + k)) x = (par t ^^ (l - k)) ((par t ^^ k) x)"
    unfolding funpow_add by simp
  with assms show ?thesis by simp
qed

section \<open>A fresh directory\<close>

lemma add_directory_eq:
  "add_directory t p nm = (next_inode t,
     snd (add_node t p (\<lambda>ino. Directory ino (sanitize_path_component nm) [] p None)))"
  by (simp add: add_directory_def Let_def prod_eq_iff)

lemma add_directory_new:
  assumes "tree_wf t" "is_dir t p" "lookup t p nm = None" "plain_name nm"
  defines "i \<equiv> fst (add_directory t p nm)" and "t' \<equiv> snd (add_directory t p nm)"
  shows "tree_wf t'" "tree_ext t t'" "is_dir t' i" "par t' i = p" "lookup t' p nm = Some i"
    "dir_kids t' i = []" "p < i" "node_count t < i" "node_count t' = node_count t + 1"
    "i = node_count t + 1"
    "sub_dirs t D k \<Longrightarrow> 0 < D \<Longrightarrow> sub_dirs t' D k"
    "m \<noteq> nm \<Longrightarrow> lookup t' p m = lookup t p m"
    "sub_dirs t' i k"
proof -
  let ?mk = "\<lambda>ino. Directory ino (sanitize_path_component nm) [] p None"
  have i: "i = next_inode t" and t': "t' = snd (add_node t p ?mk)"
    by (simp_all add: i_def t'_def add_directory_eq)
  have pv: "p < next_inode t" using is_dir_valid [OF assms(2)] by (simp add: valid_ino_def next_inode_eq)
  show wf': "tree_wf t'"
    unfolding t'_def by (rule tree_wf_add_directory [OF assms(1) is_dir_valid [OF assms(2)]])
  show ext: "tree_ext t t'" unfolding t'_def by (rule tree_ext_add_directory [OF assms(1,2)])
  show "is_dir t' i" "par t' i = p"
    using get_add_node_new [OF is_dir_valid [OF assms(2)], of ?mk]
    by (simp_all add: i t' is_dir_def par_def)
  show "lookup t' p nm = Some i"
    using assms(3,4) by (simp add: i t' lookup_add_node [OF assms(1,2)] plain_name_def)
  have "dir_kids t (next_inode t) = []"
    using get_None_iff [of t "next_inode t"] by (simp add: dir_kids_def next_inode_eq)
  then show "dir_kids t' i = []"
    using pv by (simp add: i t' dir_kids_add_node [OF assms(2)])
  show "p < i" using pv by (simp add: i)
  show "node_count t < i" "node_count t' = node_count t + 1" "i = node_count t + 1"
    by (simp_all add: i t' next_inode_eq)
  show "sub_dirs t D k \<Longrightarrow> 0 < D \<Longrightarrow> sub_dirs t' D k"
    unfolding t' by (rule sub_dirs_add_node [OF assms(1,2)]) (auto simp: node_kind_of_def)
  show "m \<noteq> nm \<Longrightarrow> lookup t' p m = lookup t p m"
    using assms(4) by (simp add: t' lookup_add_node [OF assms(1,2)] plain_name_def split: option.split)
  have "(par t' ^^ j) c \<noteq> i" if "0 < j" for c j
  proof
    assume a: "(par t' ^^ j) c = i"
    have "c \<noteq> 0" using a pv by (cases "c = 0") (auto simp: i)
    show False
    proof (cases "valid_ino t' c")
      case True
      then have "c \<le> i" by (simp add: valid_ino_def i t' next_inode_eq)
      with par_pow_less [OF wf' _ that, of c] a \<open>c \<noteq> 0\<close> show False by simp
    next
      case False
      then have "get t' c = None" using valid_ino_iff by (metis not_None_eq)
      then have "par t' c = 0" by (simp add: par_def)
      with a that pv show False
        by (cases j) (auto simp: i funpow_Suc_right simp del: funpow.simps(2))
    qed
  qed
  then show "sub_dirs t' i k" unfolding sub_dirs_def by (metis less_eq_Suc_le One_nat_def)
qed

end
