(* ===== verification/Bfs_Descriptor.thy ===== *)
theory Bfs_Descriptor
  imports Bfs_Path
begin

text \<open>
  Blob descriptors (\<open>src/blossom/descriptor.rs\<close>, \<open>src/blossom/manifest.rs\<close>) and file
  extensions (\<open>src/util/mime.rs\<close>).  The \<open>mime_guess\<close> crate's parser and table and the
  JSON reader are parameters.
\<close>

section \<open>Blob descriptors\<close>

definition MAX_BLOB_SIZE :: nat where
  "MAX_BLOB_SIZE = 2 * 1024 * 1024 * 1024"

record blob_descriptor =
  bd_url :: string
  bd_sha256 :: string
  bd_size :: nat
  bd_mime :: "string option"
  bd_uploaded :: nat
  bd_expiration :: "nat option"

definition effective_mime_type :: "blob_descriptor \<Rightarrow> string" where
  "effective_mime_type d =
     (case bd_mime d of Some m \<Rightarrow> m | None \<Rightarrow> ''application/octet-stream'')"

definition sha256_lower :: "unicode_tables \<Rightarrow> blob_descriptor \<Rightarrow> string" where
  "sha256_lower u d = str_to_lowercase u (bd_sha256 d)"

datatype descriptor_error = InvalidUrlScheme string | SizeTooLarge nat

definition validate_descriptor :: "blob_descriptor \<Rightarrow> descriptor_error + unit" where
  "validate_descriptor d =
     (if \<not> starts_with (bd_url d) ''http://'' \<and> \<not> starts_with (bd_url d) ''https://''
      then Inl (InvalidUrlScheme (bd_url d))
      else if bd_size d > MAX_BLOB_SIZE then Inl (SizeTooLarge (bd_size d))
      else Inr ())"

datatype manifest_error = ManifestIo | ManifestParse

text \<open>\<open>parse_manifest\<close> is the JSON reader; \<open>load_manifest\<close> reads the file first.\<close>

definition parse_manifest ::
  "(string \<Rightarrow> blob_descriptor list option) \<Rightarrow> string \<Rightarrow> manifest_error + blob_descriptor list" where
  "parse_manifest json s = (case json s of None \<Rightarrow> Inl ManifestParse | Some ds \<Rightarrow> Inr ds)"

definition load_manifest ::
  "(string \<Rightarrow> blob_descriptor list option) \<Rightarrow> string option \<Rightarrow> manifest_error + blob_descriptor list" where
  "load_manifest json file =
     (case file of None \<Rightarrow> Inl ManifestIo | Some content \<Rightarrow> parse_manifest json content)"

lemma validate_descriptor_ok:
  "is_ok (validate_descriptor d) \<longleftrightarrow>
     (starts_with (bd_url d) ''http://'' \<or> starts_with (bd_url d) ''https://'')
     \<and> bd_size d \<le> MAX_BLOB_SIZE"
  by (simp add: validate_descriptor_def)

section \<open>File extensions\<close>

text \<open>The \<open>mime_guess\<close> crate: parsing of a MIME type into type and subtype, and the
  extension table.\<close>

record mime_db =
  mime_parse :: "string \<Rightarrow> (string \<times> string) option"
  mime_exts :: "string \<times> string \<Rightarrow> string list option"

definition preferred_extension :: "string \<Rightarrow> string option" where
  "preferred_extension m =
     (if m = ''image/jpeg'' then Some ''jpg''
      else if m = ''text/plain'' then Some ''txt'' else None)"

definition mime_to_extension :: "mime_db \<Rightarrow> string \<Rightarrow> string option" where
  "mime_to_extension db m =
     (if m = [] then None
      else case preferred_extension m of
        Some e \<Rightarrow> Some e
      | None \<Rightarrow>
          (case mime_parse db m of
             None \<Rightarrow> None
           | Some p \<Rightarrow>
               if p = (''application'', ''octet-stream'') then None
               else (case mime_exts db p of Some (e # _) \<Rightarrow> Some e | _ \<Rightarrow> None)))"

definition rfind :: "char \<Rightarrow> string \<Rightarrow> nat option" where
  "rfind c s = (if c \<in> set s then Some (length s - 1 - length (takeWhile (\<lambda>x. x \<noteq> c) (rev s)))
                else None)"

definition extract_extension_from_url :: "unicode_tables \<Rightarrow> string \<Rightarrow> string" where
  "extract_extension_from_url u url =
     (let path = hd (split_on (CHR ''#'') (hd (split_on (CHR ''?'') url)));
          last_segment = last (split_on (CHR ''/'') path)
      in case rfind (CHR ''.'') last_segment of
           None \<Rightarrow> []
         | Some dot_pos \<Rightarrow>
             let ext = drop (dot_pos + 1) last_segment
             in if ext \<noteq> [] \<and> length ext \<le> 5 \<and> all_alphanumeric u ext
                then str_to_lowercase u ext else [])"

definition extension_for_descriptor ::
  "mime_db \<Rightarrow> unicode_tables \<Rightarrow> string option \<Rightarrow> string \<Rightarrow> string" where
  "extension_for_descriptor db u mime url =
     (case Option.bind mime (mime_to_extension db) of
        Some e \<Rightarrow> e
      | None \<Rightarrow> extract_extension_from_url u url)"

lemma rfind_last_dot:
  assumes "rfind c s = Some i"
  shows "i < length s" and "s ! i = c" and "c \<notin> set (drop (i + 1) s)"
proof -
  let ?t = "takeWhile (\<lambda>x. x \<noteq> c) (rev s)"
  have c: "c \<in> set s" and i: "i = length s - 1 - length ?t"
    using assms by (auto simp: rfind_def split: if_splits)
  obtain r where r: "rev s = ?t @ c # r"
  proof -
    have "dropWhile (\<lambda>x. x \<noteq> c) (rev s) \<noteq> []"
      using c by (simp add: dropWhile_eq_Nil_conv)
    then obtain y ys where y: "dropWhile (\<lambda>x. x \<noteq> c) (rev s) = y # ys"
      by (meson neq_Nil_conv)
    then have "y = c"
      using hd_dropWhile [of "\<lambda>x. x \<noteq> c" "rev s"] by simp
    with y that show thesis
      by (metis takeWhile_dropWhile_id)
  qed
  then have s: "s = rev r @ c # rev ?t"
    by (metis append.assoc append_Cons append_Nil rev.simps(2) rev_append rev_rev_ident)
  have len: "length s = length r + 1 + length ?t"
    by (subst s) simp
  then have ir: "i = length (rev r)"
    using i by simp
  show "i < length s" using len ir by simp
  show "s ! i = c" by (subst s) (simp add: ir nth_append)
  have "drop (i + 1) s = rev ?t"
    by (subst s) (simp add: ir)
  then show "c \<notin> set (drop (i + 1) s)"
    by (auto dest: set_takeWhileD)
qed

lemma alnum_lower: "is_ascii_alnum c \<Longrightarrow> is_ascii_alnum (ascii_lower c)"
  by (auto simp: is_ascii_alnum_def is_ascii_digit_def of_char_ascii_lower)

lemma set_last_split_on: "set (last (split_on c s)) \<subseteq> set s"
  by (rule set_split_on [OF last_in_set]) simp

text \<open>An extension taken from an ASCII URL is a short alphanumeric word or nothing.\<close>

lemma extract_extension_ascii:
  assumes "is_ascii url"
  shows "length (extract_extension_from_url u url) \<le> 5
    \<and> list_all is_ascii_alnum (extract_extension_from_url u url)"
proof -
  define seg where "seg = last (split_on (CHR ''/'')
    (hd (split_on (CHR ''#'') (hd (split_on (CHR ''?'') url)))))"
  have "set seg \<subseteq> set url"
    unfolding seg_def using set_last_split_on set_hd_split_on by (meson order.trans)
  then have "is_ascii seg"
    using assms by (auto simp: is_ascii_def list_all_iff)
  then have asc: "is_ascii (drop n seg)" for n
    by (auto simp: is_ascii_def list_all_iff dest: in_set_dropD)
  show ?thesis
    using asc
    by (auto simp: extract_extension_from_url_def Let_def seg_def [symmetric]
        all_alphanumeric_ascii str_to_lowercase_def to_lowercase_def list_all_iff
        alnum_lower split: option.split)
qed

end
