(* ===== verification/Bfs_Calendar.thy ===== *)
theory Bfs_Calendar
  imports Bfs_Prelude "HOL-Library.Signed_Division"
begin

text \<open>
  \<open>unix_to_ymd\<close> of \<open>src/fuse/tree.rs\<close>: the date arithmetic behind the \<open>by-date/\<close>
  directories.  It is compared with the Gregorian calendar itself, given as the start date
  of the Unix epoch and the successor of a date.
\<close>

section \<open>Translation\<close>

datatype ymd = YMD (year: int) (month: int) (day: int)

definition day_of_era :: "int \<Rightarrow> int" where
  "day_of_era z =
     (let era = (if z \<ge> 0 then z div 146097 else (z - 146096) sdiv 146097)
      in z - era * 146097)"

definition year_of_era :: "int \<Rightarrow> int" where
  "year_of_era doe = (doe - doe div 1460 + doe div 36524 - doe div 146096) div 365"

definition day_of_year :: "int \<Rightarrow> int \<Rightarrow> int" where
  "day_of_year doe yoe = doe - (365 * yoe + yoe div 4 - yoe div 100)"

definition month_day :: "int \<Rightarrow> int \<times> int" where
  "month_day doy =
     (let mp = (5 * doy + 2) div 153;
          d = doy - (153 * mp + 2) div 5 + 1;
          m = (if mp < 10 then mp + 3 else mp - 9)
      in (m, d))"

text \<open>The date of a number of days since 1970-01-01.\<close>

definition civil_from_days :: "int \<Rightarrow> ymd" where
  "civil_from_days days =
     (let z = days + 719468;
          era = (if z \<ge> 0 then z div 146097 else (z - 146096) sdiv 146097);
          doe = day_of_era z;
          yoe = year_of_era doe;
          y = yoe + era * 400;
          md = month_day (day_of_year doe yoe);
          yr = (if fst md \<le> 2 then y + 1 else y)
      in YMD yr (fst md) (snd md))"

text \<open>The result fields are cast to \<open>u32\<close>.\<close>

definition unix_to_ymd :: "nat \<Rightarrow> nat \<times> nat \<times> nat" where
  "unix_to_ymd ts =
     (let r = civil_from_days (int (ts div 86400))
      in (nat (year r mod 2 ^ 32), nat (month r mod 2 ^ 32), nat (day r mod 2 ^ 32)))"

section \<open>The Gregorian calendar\<close>

definition leap :: "int \<Rightarrow> bool" where
  "leap y \<longleftrightarrow> y mod 4 = 0 \<and> (y mod 100 \<noteq> 0 \<or> y mod 400 = 0)"

definition days_in_month :: "int \<Rightarrow> int \<Rightarrow> int" where
  "days_in_month y m =
     (if m = 2 then (if leap y then 29 else 28)
      else if m = 4 \<or> m = 6 \<or> m = 9 \<or> m = 11 then 30 else 31)"

definition valid_date :: "ymd \<Rightarrow> bool" where
  "valid_date c \<longleftrightarrow> 1 \<le> month c \<and> month c \<le> 12 \<and> 1 \<le> day c
     \<and> day c \<le> days_in_month (year c) (month c)"

definition next_date :: "ymd \<Rightarrow> ymd" where
  "next_date c =
     (if day c < days_in_month (year c) (month c) then YMD (year c) (month c) (day c + 1)
      else if month c < 12 then YMD (year c) (month c + 1) 1
      else YMD (year c + 1) 1 1)"

text \<open>Dates are ordered by year, month and day.\<close>

instantiation ymd :: linorder
begin

definition less_eq_ymd :: "ymd \<Rightarrow> ymd \<Rightarrow> bool" where
  "less_eq_ymd a b \<longleftrightarrow> year a < year b \<or> (year a = year b \<and>
     (month a < month b \<or> (month a = month b \<and> day a \<le> day b)))"

definition less_ymd :: "ymd \<Rightarrow> ymd \<Rightarrow> bool" where
  "less_ymd a b \<longleftrightarrow> year a < year b \<or> (year a = year b \<and>
     (month a < month b \<or> (month a = month b \<and> day a < day b)))"

instance
  by standard (auto simp: less_eq_ymd_def less_ymd_def ymd.expand)

end

section \<open>Years of an era\<close>

text \<open>Days of the era before its year \<open>y\<close> (years start on the first of March), and the
  length of that year.\<close>

definition days_before :: "int \<Rightarrow> int" where
  "days_before y = 365 * y + y div 4 - y div 100"

definition year_len :: "int \<Rightarrow> int" where
  "year_len y = (if leap (y + 1) then 366 else 365)"

definition era_year_ok :: "int \<Rightarrow> bool" where
  "era_year_ok y \<longleftrightarrow>
     year_of_era (days_before y) = y
     \<and> year_of_era (days_before y + year_len y - 1) = y
     \<and> (if y = 399 then days_before y + year_len y = 146097
        else days_before (y + 1) = days_before y + year_len y)"

lemma era_years_checked: "list_all era_year_ok [0..399]"
  by code_simp

lemma era_year: "0 \<le> y \<Longrightarrow> y \<le> 399 \<Longrightarrow> era_year_ok y"
  using era_years_checked by (simp add: list_all_iff)

text \<open>The numerator of \<open>year_of_era\<close> never goes down inside an era.\<close>

definition year_num :: "int \<Rightarrow> int" where
  "year_num doe = doe - doe div 1460 + doe div 36524 - doe div 146096"

lemma year_num_step:
  assumes "0 \<le> x" and "x + 1 \<le> 146096"
  shows "year_num x \<le> year_num (x + 1)"
proof (cases "x + 1 = 146096")
  case True
  then have "x = 146095" by simp
  then show ?thesis by (simp add: year_num_def)
next
  case False
  have zero: "(x + 1) div 146096 = 0" "x div 146096 = 0"
    using assms False by (simp_all add: div_pos_pos_trivial)
  have down: "(x + 1) div 1460 \<le> x div 1460 + 1"
  proof -
    have "(x + 1) div 1460 \<le> (x + 1460) div 1460"
      by (rule zdiv_mono1) auto
    then show ?thesis by simp
  qed
  have up: "x div 36524 \<le> (x + 1) div 36524"
    by (rule zdiv_mono1) auto
  have "x - a + b - c \<le> x + 1 - a' + b' - c'"
    if "a' \<le> a + 1" "b \<le> b'" "c' = 0" "c = 0" for a b c a' b' c' :: int
    using that by simp
  then show ?thesis
    unfolding year_num_def using down up zero by blast
qed

lemma year_num_mono:
  assumes "0 \<le> a" and "a \<le> b" and "b \<le> 146096"
  shows "year_num a \<le> year_num b"
  using assms(2,3)
proof (induction b rule: int_ge_induct)
  case (step i)
  then have "year_num a \<le> year_num i" by simp
  also have "\<dots> \<le> year_num (i + 1)"
    using step assms(1) by (intro year_num_step) auto
  finally show ?case .
qed simp

lemma year_of_era_mono:
  "0 \<le> a \<Longrightarrow> a \<le> b \<Longrightarrow> b \<le> 146096 \<Longrightarrow> year_of_era a \<le> year_of_era b"
  using year_num_mono [of a b] unfolding year_of_era_def year_num_def
  by (intro zdiv_mono1) auto

lemma days_before_bounds:
  assumes "0 \<le> y" and "y \<le> 399"
  shows "0 \<le> days_before y" and "days_before y + year_len y \<le> 146097"
proof -
  show "0 \<le> days_before y"
    using assms by (simp add: days_before_def)
  have "days_before y + year_len y \<le> 365 * y + y div 4 - y div 100 + 366"
    by (simp add: days_before_def year_len_def)
  also have "\<dots> \<le> 146097" if "y < 399"
  proof -
    have "y div 4 \<le> 399 div 4" and "0 \<le> y div 100"
      using assms by (auto intro: zdiv_mono1 simp: pos_imp_zdiv_nonneg_iff)
    then show ?thesis using that by simp
  qed
  finally show "days_before y + year_len y \<le> 146097"
    using era_year [OF assms] assms by (cases "y = 399") (auto simp: era_year_ok_def)
qed

lemma year_of_era_unique:
  assumes y: "0 \<le> y" "y \<le> 399"
    and doe: "days_before y \<le> doe" "doe < days_before y + year_len y"
  shows "year_of_era doe = y"
proof -
  note b = days_before_bounds [OF y]
  have ok: "year_of_era (days_before y) = y" "year_of_era (days_before y + year_len y - 1) = y"
    using era_year [OF y] by (auto simp: era_year_ok_def)
  have "year_of_era (days_before y) \<le> year_of_era doe"
    using b doe by (intro year_of_era_mono) auto
  moreover have "year_of_era doe \<le> year_of_era (days_before y + year_len y - 1)"
    using b doe by (intro year_of_era_mono) auto
  ultimately show ?thesis using ok by simp
qed

lemma era_split:
  assumes "0 \<le> doe" and "doe \<le> 146096"
  obtains y where "0 \<le> y" and "y \<le> 399" and "days_before y \<le> doe"
    and "doe < days_before y + year_len y" and "year_of_era doe = y"
proof -
  have "\<exists>y. 0 \<le> y \<and> y \<le> 399 \<and> days_before y \<le> doe \<and> doe < days_before y + year_len y"
    if "0 \<le> k" "k \<le> 399" "doe < days_before k + year_len k" for k
    using that
  proof (induction k rule: int_ge_induct)
    case base
    with assms show ?case by (intro exI [of _ 0]) (simp add: days_before_def)
  next
    case (step i)
    show ?case
    proof (cases "doe < days_before i + year_len i")
      case True
      with step show ?thesis by simp
    next
      case False
      have "days_before (i + 1) = days_before i + year_len i"
        using era_year [of i] step by (auto simp: era_year_ok_def)
      with False step show ?thesis by (intro exI [of _ "i + 1"]) auto
    qed
  qed
  from this [of 399] obtain y where "0 \<le> y" "y \<le> 399" "days_before y \<le> doe"
      "doe < days_before y + year_len y"
    using assms by (auto simp: days_before_def year_len_def leap_def)
  then show thesis using that year_of_era_unique by blast
qed

section \<open>Months of a year\<close>

definition month_step_ok :: "int \<Rightarrow> bool" where
  "month_step_ok doy \<longleftrightarrow>
     (let (m, d) = month_day doy; (m', d') = month_day (doy + 1);
          len = (if m = 4 \<or> m = 6 \<or> m = 9 \<or> m = 11 then 30 else 31)
      in 1 \<le> d \<and> 1 \<le> m \<and> m \<le> 12 \<and>
         (if m = 2 then m' = 2 \<and> d' = d + 1 \<and> d \<le> 28 \<and> (doy < 364 \<longrightarrow> d < 28)
          else d \<le> len \<and> (if d < len then m' = m \<and> d' = d + 1
                else d' = 1 \<and> m' = (if m < 12 then m + 1 else 1))))"

lemma months_checked: "list_all month_step_ok [0..364]"
  by code_simp

lemma month_step: "0 \<le> doy \<Longrightarrow> doy \<le> 364 \<Longrightarrow> month_step_ok doy"
  using months_checked by (simp add: list_all_iff)

lemma month_day_ends:
  "month_day 0 = (3, 1)" "month_day 364 = (2, 28)" "month_day 365 = (2, 29)"
  by (simp_all add: month_day_def)

lemma leap_period: "leap (y + 400 * k) = leap y"
proof -
  have "(y + 400 * k) mod 4 = y mod 4" "(y + 400 * k) mod 100 = y mod 100"
      "(y + 400 * k) mod 400 = y mod 400"
    using mod_mult_self2 [of y 4 "100 * k"] mod_mult_self2 [of y 100 "4 * k"] by simp_all
  then show ?thesis by (simp add: leap_def)
qed

section \<open>The algorithm is the calendar\<close>

lemma civil_from_days_at:
  assumes "0 \<le> y" "y \<le> 399" "0 \<le> doy" "doy < year_len y" "0 \<le> era"
    and n: "n + 719468 = era * 146097 + days_before y + doy"
  shows "civil_from_days n =
    YMD (y + era * 400 + (if fst (month_day doy) \<le> 2 then 1 else 0))
      (fst (month_day doy)) (snd (month_day doy))"
proof -
  define z where "z = n + 719468"
  define doe where "doe = days_before y + doy"
  have doe: "0 \<le> doe" "doe < 146097" "z = era * 146097 + doe"
    using assms days_before_bounds [of y] by (auto simp: doe_def z_def)
  have z: "0 \<le> z" "z div 146097 = era"
    using doe assms(5) by auto
  have d: "day_of_era z = doe"
    using z doe by (simp add: day_of_era_def Let_def)
  have yoe: "year_of_era doe = y"
    using assms by (intro year_of_era_unique) (auto simp: doe_def)
  have doy: "day_of_year doe y = doy"
    by (simp add: day_of_year_def doe_def days_before_def)
  show ?thesis
    using z by (simp add: civil_from_days_def z_def [symmetric] Let_def d yoe doy)
qed

lemma days_decompose:
  assumes "0 \<le> n + 719468"
  obtains era y doy where "0 \<le> era" "0 \<le> y" "y \<le> 399" "0 \<le> doy" "doy < year_len y"
    "n + 719468 = era * 146097 + days_before y + doy"
proof -
  define doe where "doe = (n + 719468) mod 146097"
  define era where "era = (n + 719468) div 146097"
  have "0 \<le> doe" "doe \<le> 146096"
    using pos_mod_bound [of 146097 "n + 719468"] by (auto simp: doe_def)
  then obtain y where y: "0 \<le> y" "y \<le> 399" "days_before y \<le> doe"
      "doe < days_before y + year_len y"
    by (rule era_split)
  have e: "n + 719468 = era * 146097 + doe" "0 \<le> era"
    using assms by (auto simp: era_def doe_def pos_imp_zdiv_nonneg_iff)
  show thesis
    by (rule that [of era y "doe - days_before y"]) (use y e in auto)
qed

lemma civil_next:
  assumes "0 \<le> n + 719468"
  shows "civil_from_days (n + 1) = next_date (civil_from_days n)"
proof -
  from assms obtain era y doy where e: "0 \<le> era" and y: "0 \<le> y" "y \<le> 399"
      and doy: "0 \<le> doy" "doy < year_len y"
      and n: "n + 719468 = era * 146097 + days_before y + doy"
    by (rule days_decompose)
  note here = civil_from_days_at [OF y doy e n]
  have lp: "leap (y + era * 400 + 1) = leap (y + 1)"
    using leap_period [of "y + 1" era] by (simp add: algebra_simps)
  have len: "year_len y = (if leap (y + 1) then 366 else 365)"
    by (simp add: year_len_def)
  show ?thesis
  proof (cases "doy + 1 < year_len y")
    case True
    have "doy \<le> 364" using True len by (auto split: if_splits)
    then have ok: "month_step_ok doy" using month_step doy by simp
    have nxt: "civil_from_days (n + 1) =
      YMD (y + era * 400 + (if fst (month_day (doy + 1)) \<le> 2 then 1 else 0))
        (fst (month_day (doy + 1))) (snd (month_day (doy + 1)))"
      by (intro civil_from_days_at [OF y _ True e]) (use n doy in linarith)+
    have feb: "doy = 364 \<Longrightarrow> leap (y + 1)"
      using True len by (auto split: if_splits)
    show ?thesis
      using ok feb month_day_ends(2) lp \<open>doy \<le> 364\<close>
      unfolding here nxt month_step_ok_def
      by (cases "month_day doy"; cases "month_day (doy + 1)"; cases "doy = 364")
        (auto simp: next_date_def days_in_month_def Let_def split: if_splits)
  next
    case False
    then have last: "doy = year_len y - 1" using doy by simp
    have md: "month_day doy = (2, if leap (y + 1) then 29 else 28)"
      using last len month_day_ends by auto
    have nd: "next_date (civil_from_days n) = YMD (y + era * 400 + 1) 3 1"
      using lp by (auto simp: here md next_date_def days_in_month_def)
    show ?thesis
    proof (cases "y = 399")
      case True
      then have "days_before y + year_len y = 146097"
        using era_year [OF y] by (auto simp: era_year_ok_def)
      then have "n + 1 + 719468 = (era + 1) * 146097 + days_before 0 + 0"
        using n last by (simp add: days_before_def algebra_simps)
      then have "civil_from_days (n + 1) = YMD (0 + (era + 1) * 400 + 0) 3 1"
        using e by (subst civil_from_days_at [of 0 0 "era + 1"])
          (auto simp: month_day_ends year_len_def leap_def)
      then show ?thesis using nd True by simp
    next
      case False
      then have "days_before (y + 1) = days_before y + year_len y"
        using era_year [OF y] by (auto simp: era_year_ok_def)
      then have "n + 1 + 719468 = era * 146097 + days_before (y + 1) + 0"
        using n last by simp
      then have "civil_from_days (n + 1) = YMD (y + 1 + era * 400 + 0) 3 1"
        using e y False by (subst civil_from_days_at [of "y + 1" 0 era])
          (auto simp: month_day_ends year_len_def)
      then show ?thesis using nd by (simp add: algebra_simps)
    qed
  qed
qed

lemma civil_epoch: "civil_from_days 0 = YMD 1970 1 1"
  by code_simp

lemma month_day_range:
  assumes "0 \<le> doy" "doy \<le> 365"
  shows "1 \<le> fst (month_day doy) \<and> fst (month_day doy) \<le> 12"
proof (cases "doy = 365")
  case True
  then show ?thesis by (simp add: month_day_ends)
next
  case False
  then have "month_step_ok doy" using assms month_step by simp
  then show ?thesis
    by (cases "month_day doy"; cases "month_day (doy + 1)") (auto simp: month_step_ok_def Let_def)
qed

lemma valid_next: "valid_date c \<Longrightarrow> valid_date (next_date c)"
  by (auto simp: valid_date_def next_date_def days_in_month_def)

lemma next_greater: "valid_date c \<Longrightarrow> c < next_date c"
  by (auto simp: less_ymd_def next_date_def)

lemma civil_valid: "valid_date (civil_from_days (int n))"
proof (induction n)
  case 0
  then show ?case by (simp add: civil_epoch valid_date_def days_in_month_def)
next
  case (Suc n)
  then have "valid_date (next_date (civil_from_days (int n)))" by (rule valid_next)
  then show ?case using civil_next [of "int n"] by (simp add: add.commute)
qed

lemma civil_Suc: "civil_from_days (int (Suc n)) = next_date (civil_from_days (int n))"
  using civil_next [of "int n"] by (simp add: add.commute)

lemma civil_mono: "m \<le> n \<Longrightarrow> civil_from_days (int m) \<le> civil_from_days (int n)"
proof (induction n rule: dec_induct)
  case (step n)
  have "civil_from_days (int n) < civil_from_days (int (Suc n))"
    unfolding civil_Suc by (rule next_greater [OF civil_valid])
  with step show ?case by (meson less_imp_le order.trans)
qed simp

lemma civil_year_bounds:
  "1970 \<le> year (civil_from_days (int n))"
  "year (civil_from_days (int n)) \<le> ((int n + 719468) div 146097) * 400 + 400"
proof -
  have "YMD 1970 1 1 \<le> civil_from_days (int n)"
    using civil_mono [of 0 n] by (simp add: civil_epoch)
  then show "1970 \<le> year (civil_from_days (int n))"
    by (auto simp: less_eq_ymd_def)
  obtain era y doy where e: "0 \<le> era" and y: "0 \<le> y" "y \<le> 399"
      and doy: "0 \<le> doy" "doy < year_len y"
      and n: "int n + 719468 = era * 146097 + days_before y + doy"
    by (rule days_decompose [of "int n"]) auto
  have "(int n + 719468) div 146097 = era"
    using n doy days_before_bounds [OF y]
    by (intro int_div_pos_eq [of _ 146097 era "days_before y + doy"]) auto
  then show "year (civil_from_days (int n)) \<le> ((int n + 719468) div 146097) * 400 + 400"
    using civil_from_days_at [OF y doy e n] y by simp
qed

section \<open>Properties\<close>

text \<open>C36. The date arithmetic of the \<open>by-date\<close> tree is the Gregorian calendar: day 0 is
  1970-01-01, each further day is the calendar's next date (month lengths and leap years
  included), every date is valid, and dates strictly increase.\<close>

theorem civil_from_days_calendar:
  "civil_from_days 0 = YMD 1970 1 1
   \<and> civil_from_days (int (Suc n)) = next_date (civil_from_days (int n))
   \<and> valid_date (civil_from_days (int n))
   \<and> civil_from_days (int n) < civil_from_days (int (Suc n))"
  using civil_epoch civil_Suc civil_valid next_greater [OF civil_valid] by simp

text \<open>For every timestamp below 2^56 seconds (two thousand million years) the casts to
  \<open>u32\<close> lose nothing, so the directory path of a blob is its true upload date, and later
  uploads never sort before earlier ones.\<close>

theorem unix_to_ymd_exact:
  assumes "ts \<le> ts'" and "ts' < 2 ^ 56"
  shows "unix_to_ymd ts = (let c = civil_from_days (int (ts div 86400))
           in (nat (year c), nat (month c), nat (day c)))
    \<and> civil_from_days (int (ts div 86400)) \<le> civil_from_days (int (ts' div 86400))"
proof
  show "civil_from_days (int (ts div 86400)) \<le> civil_from_days (int (ts' div 86400))"
    using assms by (intro civil_mono div_le_mono)
  define n where "n = ts div 86400"
  define c where "c = civil_from_days (int n)"
  have "n \<le> 2 ^ 56 div 86400"
    unfolding n_def using assms by (intro div_le_mono) simp
  then have "int n + 719468 \<le> 834000719468" by simp
  then have "(int n + 719468) div 146097 \<le> 834000719468 div 146097"
    by (rule zdiv_mono1) simp
  then have "year c < 2 ^ 32"
    using civil_year_bounds(2) [of n] by (simp add: c_def)
  moreover have "0 \<le> year c" and "valid_date c"
    using civil_year_bounds(1) [of n] civil_valid [of n] by (auto simp: c_def)
  moreover then have "0 \<le> day c" "day c < 2 ^ 32" "0 \<le> month c" "month c < 2 ^ 32"
    by (auto simp: valid_date_def days_in_month_def split: if_splits)
  ultimately show "unix_to_ymd ts = (let c = civil_from_days (int (ts div 86400))
           in (nat (year c), nat (month c), nat (day c)))"
    by (simp add: unix_to_ymd_def Let_def c_def [symmetric] n_def [symmetric])
qed

theorem unix_to_ymd_exact_witness:
  "unix_to_ymd 1725105921 = (2024, 8, 31)
   \<and> civil_from_days (int (1725105921 div 86400)) \<le> civil_from_days (int (1725192321 div 86400))"
proof -
  have "civil_from_days 19966 = YMD 2024 8 31" by code_simp
  then show ?thesis
    using unix_to_ymd_exact [of 1725105921 1725192321] by simp
qed

text \<open>Beyond that range the year is truncated.\<close>

lemma unix_to_ymd_wraps: "unix_to_ymd (2 ^ 64 - 1) = (438498967, 11, 9)"
proof -
  have "civil_from_days 213503982334601 = YMD 584554051223 11 9" by code_simp
  then show ?thesis by (simp add: unix_to_ymd_def)
qed

end
