(* ===== verification/Bfs_Tree_Build.thy ===== *)
theory Bfs_Tree_Build
  imports Bfs_Tree_Ext Bfs_Descriptor Bfs_Calendar
begin

text \<open>
  The views built from a server's blob list (\<open>build_from_descriptors\<close> and
  \<open>build_by_sha256_only\<close> of \<open>src/fuse/tree.rs\<close>): \<open>by-sha256\<close> with every hash once,
  \<open>by-type\<close>, and \<open>by-date\<close> with every blob under its year, month and day.
\<close>

section \<open>The builders\<close>

definition blob_file_name :: "mime_db \<Rightarrow> unicode_tables \<Rightarrow> blob_descriptor \<Rightarrow> string \<Rightarrow> string" where
  "blob_file_name db u d sha =
     (let ext = extension_for_descriptor db u (bd_mime d) (bd_url d)
      in if ext = [] then sha else sha @ ''.'' @ ext)"

definition add_blob :: "tree \<Rightarrow> nat \<Rightarrow> string \<Rightarrow> blob_descriptor \<Rightarrow> string \<Rightarrow> tree" where
  "add_blob t dir file_name d sha =
     snd (add_remote_file t dir file_name (bd_url d) sha (bd_size d) (bd_mime d)
            (bd_uploaded d) (bd_expiration d))"

definition date_path :: "nat \<Rightarrow> string list" where
  "date_path ts =
     (case unix_to_ymd ts of (y, m, d) \<Rightarrow>
        [pad_left 4 (nat_to_string y), pad_left 2 (nat_to_string m), pad_left 2 (nat_to_string d)])"

definition build_step ::
  "mime_db \<Rightarrow> unicode_tables \<Rightarrow> nat \<Rightarrow> nat \<Rightarrow> nat \<Rightarrow> string set \<times> tree \<Rightarrow> blob_descriptor
     \<Rightarrow> string set \<times> tree" where
  "build_step db u by_sha by_type by_date st d =
     (case st of (seen, t) \<Rightarrow>
       (case sanitize_sha256 (bd_sha256 d) of
          Inl _ \<Rightarrow> (seen, t)
        | Inr sha \<Rightarrow>
            let file_name = blob_file_name db u d sha;
                t1 = (if sha \<in> seen then t else add_blob t by_sha file_name d sha);
                (type_dir, t2) =
                  get_or_create_dir t1 by_type (sanitize_mime_for_path (effective_mime_type d));
                t3 = add_blob t2 type_dir file_name d sha;
                (day_dir, t4) = dir_path t3 by_date (date_path (bd_uploaded d))
            in (insert sha seen, add_blob t4 day_dir file_name d sha)))"

definition build_from_descriptors ::
  "mime_db \<Rightarrow> unicode_tables \<Rightarrow> tree \<Rightarrow> nat \<Rightarrow> blob_descriptor list \<Rightarrow> tree" where
  "build_from_descriptors db u t parent ds =
     (let (by_sha, t1) = add_directory t parent ''by-sha256'';
          (by_type, t2) = add_directory t1 parent ''by-type'';
          (by_date, t3) = add_directory t2 parent ''by-date''
      in snd (foldl (build_step db u by_sha by_type by_date) ({}, t3) ds))"

definition sha_only_step ::
  "mime_db \<Rightarrow> unicode_tables \<Rightarrow> nat \<Rightarrow> string set \<times> tree \<Rightarrow> blob_descriptor \<Rightarrow> string set \<times> tree" where
  "sha_only_step db u by_sha st d =
     (case st of (seen, t) \<Rightarrow>
       (case sanitize_sha256 (bd_sha256 d) of
          Inl _ \<Rightarrow> (seen, t)
        | Inr sha \<Rightarrow>
            if sha \<in> seen then (seen, t)
            else (insert sha seen, add_blob t by_sha (blob_file_name db u d sha) d sha)))"

definition build_by_sha256_only ::
  "mime_db \<Rightarrow> unicode_tables \<Rightarrow> tree \<Rightarrow> nat \<Rightarrow> blob_descriptor list \<Rightarrow> tree" where
  "build_by_sha256_only db u t parent ds =
     (let (by_sha, t1) = add_directory t parent ''by-sha256''
      in snd (foldl (sha_only_step db u by_sha) ({}, t1) ds))"

section \<open>Adding one blob\<close>

lemma add_blob_eq:
  "add_blob t p nm d sha = snd (add_node t p (\<lambda>ino. File ino (sanitize_path_component nm) p
     (bd_size d) (Remote (bd_url d) sha (bd_mime d) (bd_expiration d)) (bd_uploaded d)))"
  by (simp add: add_blob_def add_remote_file_def Let_def)

lemma tree_wf_add_blob [inv_intros]:
  "tree_wf t \<Longrightarrow> valid_ino t p \<Longrightarrow> tree_wf (add_blob t p nm d sha)"
  by (simp add: add_blob_def tree_wf_add_remote_file)

lemma tree_ext_add_blob: "tree_wf t \<Longrightarrow> is_dir t p \<Longrightarrow> tree_ext t (add_blob t p nm d sha)"
  by (simp add: add_blob_eq tree_ext_add_node)

definition blob_in :: "tree \<Rightarrow> nat \<Rightarrow> string \<Rightarrow> blob_descriptor \<Rightarrow> string \<Rightarrow> bool" where
  "blob_in t p nm d sha \<longleftrightarrow> (\<exists>c \<in> set (dir_kids t p).
     get t c = Some (File c (sanitize_path_component nm) p (bd_size d)
       (Remote (bd_url d) sha (bd_mime d) (bd_expiration d)) (bd_uploaded d)))"

lemma blob_in_ext: "tree_ext t t' \<Longrightarrow> blob_in t p nm d sha \<Longrightarrow> blob_in t' p nm d sha"
  unfolding blob_in_def using tree_ext_kids tree_ext_file by blast

lemma blob_in_add_blob:
  "is_dir t p \<Longrightarrow> blob_in (add_blob t p nm d sha) p nm d sha"
  using get_add_node_new [OF is_dir_valid, of t p]
  unfolding blob_in_def
  by (intro bexI [of _ "next_inode t"]) (simp_all add: add_blob_eq dir_kids_add_node)

section \<open>Names\<close>

lemma length_nat_to_string: "n < 10 ^ k \<Longrightarrow> 1 \<le> k \<Longrightarrow> length (nat_to_string n) \<le> k"
proof (induction n arbitrary: k rule: nat_to_string.induct)
  case (1 n)
  show ?case
  proof (cases "n < 10")
    case False
    have "k \<noteq> 1" using 1(2) False by auto
    then have "2 \<le> k" using 1(3) by linarith
    then obtain k' where k: "k = Suc k'" "1 \<le> k'" by (cases k) auto
    then have "n div 10 < 10 ^ k'"
      using 1(2) by (simp add: less_mult_imp_div_less mult.commute)
    then show ?thesis
      using 1(1) [OF False] k False by (simp add: nat_to_string.simps [of n])
  qed (use 1 in \<open>simp add: nat_to_string.simps [of n]\<close>)
qed

lemma digits_safe:
  assumes "s \<noteq> []" "length s \<le> 255" "list_all is_ascii_digit s"
  shows "plain_name s"
proof -
  have "is_ascii_digit c \<Longrightarrow> is_lower_hexdigit c" for c by (simp add: is_lower_hexdigit_def)
  then have h: "list_all is_lower_hexdigit s" using assms(3) by (auto simp: list_all_iff)
  then have "CHR ''.'' \<notin> set s" "\<forall>c \<in> set s. \<not> comp_unsafe c" "\<forall>c \<in> set s. c \<noteq> CHR ''_''"
    using lower_hex_safe by (auto simp: list_all_iff)
  moreover obtain c where "c \<in> set s" using assms(1) by (meson list.set_sel(1))
  ultimately have "safe_component s"
    using assms by (auto simp: safe_component_def list_all_iff no_dotdot_if_no_dot)
  then show ?thesis by (simp add: plain_name_def safe_component_iff)
qed

lemma pad_left_digits:
  assumes "n < 2 ^ 32" "w \<le> 10"
  shows "plain_name (pad_left w (nat_to_string n))"
proof (rule digits_safe)
  have "length (nat_to_string n) \<le> 10"
    using assms(1) by (intro length_nat_to_string) auto
  then show "length (pad_left w (nat_to_string n)) \<le> 255"
    using assms(2) by (simp add: pad_left_def)
  show "list_all is_ascii_digit (pad_left w (nat_to_string n))"
    using nat_to_string_digits [of n]
    by (auto simp: pad_left_def list_all_iff is_ascii_digit_def)
qed (simp add: pad_left_def)

lemma date_path_plain: "list_all plain_name (date_path ts)"
proof -
  have "nat (x mod 2 ^ 32) < 2 ^ 32" for x :: int
    by (simp add: nat_less_iff)
  then show ?thesis
    by (simp add: date_path_def unix_to_ymd_def Let_def pad_left_digits)
qed

lemma length_date_path [simp]: "length (date_path ts) = 3"
  by (simp add: date_path_def case_prod_beta)

lemma mime_dir_plain: "plain_name (sanitize_mime_for_path m)"
proof -
  have u: "safe_component ''unknown''"
    by (simp add: safe_component_def comp_unsafe_def is_ascii_control_def)
  show ?thesis
    unfolding plain_name_def safe_component_iff [symmetric] sanitize_mime_for_path_def Let_def
    using u sanitize_path_component_safe by (simp split: if_split)
qed

section \<open>The loop invariant\<close>

definition valid_shas :: "blob_descriptor list \<Rightarrow> string list" where
  "valid_shas ds = List.map_filter
     (\<lambda>d. case sanitize_sha256 (bd_sha256 d) of Inl _ \<Rightarrow> None | Inr s \<Rightarrow> Some s) ds"

text \<open>The hashes of the files of a directory, in listing order.\<close>

definition sha_at :: "tree \<Rightarrow> nat \<Rightarrow> string" where
  "sha_at t c = (case get t c of Some (File _ _ _ _ (Remote _ sha _ _) _) \<Rightarrow> sha | _ \<Rightarrow> [])"

definition dir_shas :: "tree \<Rightarrow> nat \<Rightarrow> string list" where
  "dir_shas t p = map (sha_at t) (dir_kids t p)"

text \<open>Keep the first occurrence of every element.\<close>

definition keep_first :: "'a list \<Rightarrow> 'a list" where
  "keep_first xs = rev (remdups (rev xs))"

lemma keep_first_snoc:
  "keep_first (xs @ [x]) = (if x \<in> set xs then keep_first xs else keep_first xs @ [x])"
  by (simp add: keep_first_def)

lemma sha_at_ext:
  assumes "tree_ext t t'" "valid_ino t c"
  shows "sha_at t' c = sha_at t c"
proof (cases "is_file t c")
  case True
  then show ?thesis
    using assms(1) tree_ext_file
    by (auto simp: sha_at_def is_file_def split: option.splits tree_node.splits)
next
  case False
  then have "is_dir t c" using assms(2) dir_or_file by blast
  with tree_ext_is_dir [OF assms(1)] show ?thesis
    by (fastforce simp: sha_at_def is_dir_def split: option.splits tree_node.splits)
qed

lemma dir_shas_ext:
  assumes "tree_wf t" "tree_ext t t'" "dir_kids t' q = dir_kids t q"
  shows "dir_shas t' q = dir_shas t q"
  using assms dir_kids_valid [OF assms(1)] sha_at_ext [OF assms(2)]
  by (auto simp: dir_shas_def valid_ino_iff)

lemma dir_kids_add_blob:
  "is_dir t p \<Longrightarrow> dir_kids (add_blob t p nm d sha) q
     = (if q = p then dir_kids t p @ [next_inode t] else dir_kids t q)"
  by (simp add: add_blob_eq dir_kids_add_node)

lemma dir_shas_add_blob:
  assumes "tree_wf t" "is_dir t p"
  shows "dir_shas (add_blob t p nm d sha) q
    = (if q = p then dir_shas t p @ [sha] else dir_shas t q)"
proof -
  have "sha_at (add_blob t p nm d sha) (next_inode t) = sha"
    using get_add_node_new [OF is_dir_valid [OF assms(2)]] by (simp add: sha_at_def add_blob_eq)
  moreover have "sha_at (add_blob t p nm d sha) c = sha_at t c" if "c \<in> set (dir_kids t r)" for c r
    using sha_at_ext [OF tree_ext_add_blob [OF assms]] dir_kids_valid [OF assms(1) that]
    by (auto simp: valid_ino_iff)
  ultimately show ?thesis
    using assms by (auto simp: dir_shas_def dir_kids_add_blob)
qed

lemma sub_dirs_add_blob:
  assumes "tree_wf t" "is_dir t p" "sub_dirs t D k" "0 < D" "\<forall>j < k. (par t ^^ j) p \<noteq> D"
  shows "sub_dirs (add_blob t p nm d sha) D k"
  unfolding add_blob_eq by (rule sub_dirs_add_node) (use assms in auto)

text \<open>The three view directories \<open>S\<close>, \<open>T\<close> and \<open>D\<close> below \<open>p0\<close>, while they are being filled.\<close>

definition views_ok :: "nat \<Rightarrow> nat \<Rightarrow> nat \<Rightarrow> nat \<Rightarrow> tree \<Rightarrow> bool" where
  "views_ok p0 S T D t \<longleftrightarrow> tree_wf t \<and> is_dir t S \<and> is_dir t T \<and> is_dir t D
     \<and> p0 < S \<and> S < T \<and> T < D \<and> par t S = p0 \<and> par t T = p0 \<and> par t D = p0
     \<and> sub_dirs t T 1 \<and> sub_dirs t D 3"

text \<open>No proper ancestor of a view directory is a view directory.\<close>

lemma views_anc:
  assumes "views_ok p0 S T D t" "V \<in> {S, T, D}" "W \<in> {S, T, D}" "0 < j"
  shows "(par t ^^ j) V \<noteq> W"
proof -
  have "par t V = p0" "p0 < W" "tree_wf t" using assms by (auto simp: views_ok_def)
  with par_pow_le [of t "j - 1" p0] assms(4) show ?thesis
    by (cases j) (auto simp: funpow_Suc_right simp del: funpow.simps(2))
qed

text \<open>One blob goes into a directory that lies directly in \<open>T\<close>, three levels below \<open>D\<close>, or is
  \<open>S\<close> itself; none of that breaks the invariant.\<close>

lemma views_ok_ext:
  assumes "views_ok p0 S T D t" "tree_ext t t'" "tree_wf t'" "sub_dirs t' T 1" "sub_dirs t' D 3"
  shows "views_ok p0 S T D t'"
  using assms tree_ext_is_dir [OF assms(2)] par_ext [OF assms(2) is_dir_valid]
  by (auto simp: views_ok_def)

lemma views_ok_add_sha:
  assumes "views_ok p0 S T D t"
  shows "views_ok p0 S T D (add_blob t S nm d sha)"
proof -
  have w: "tree_wf t" "is_dir t S" "0 < T" "0 < D" "sub_dirs t T 1" "sub_dirs t D 3" "S \<noteq> T" "S \<noteq> D"
    using assms by (auto simp: views_ok_def)
  have "(par t ^^ j) S \<noteq> V" if "V \<in> {T, D}" for j V
    using views_anc [OF assms, of S V j] w(7,8) that by (cases "j = 0") auto
  then show ?thesis
    using w by (intro views_ok_ext [OF assms tree_ext_add_blob [OF w(1,2)]])
      (auto intro!: sub_dirs_add_blob tree_wf_add_blob is_dir_valid)
qed

text \<open>A blob below \<open>T\<close> or \<open>D\<close>: \<open>x\<close> is \<open>k\<close> levels below the view.\<close>

lemma views_below:
  assumes v: "views_ok p0 S T D t" and V: "V \<in> {S, T, D}" and W: "W \<in> {S, T, D}"
    and x: "(par t ^^ k) x = V" and j: "(par t ^^ j) x = W"
  shows "W = V \<and> j = k"
proof -
  have wf: "tree_wf t" and pos: "0 < V" "0 < W"
    using v V W by (auto simp: views_ok_def)
  consider "j < k" | "k < j" | "j = k" by linarith
  then show ?thesis
  proof cases
    case 1
    then have "(par t ^^ (k - j)) W = V"
      using x j par_pow_split [of j k t x] by simp
    then show ?thesis using views_anc [OF v W V] 1 by simp
  next
    case 2
    then have "(par t ^^ (j - k)) V = W"
      using x j par_pow_split [of k j t x] by simp
    then show ?thesis using views_anc [OF v V W] 2 by simp
  qed (use x j in simp)
qed

lemma views_ok_add_below:
  assumes v: "views_ok p0 S T D t" and x: "is_dir t x"
    and k: "(par t ^^ k) x = V" "V = T \<and> 1 \<le> k \<or> V = D \<and> 3 \<le> k"
  shows "views_ok p0 S T D (add_blob t x nm d sha)"
proof -
  have w: "tree_wf t" "0 < T" "0 < D" "sub_dirs t T 1" "sub_dirs t D 3" "T \<noteq> D"
    using v by (auto simp: views_ok_def)
  have "(par t ^^ j) x \<noteq> T" if "j < 1" for j
    using views_below [OF v _ _ k(1), of T j] k(2) w that by auto
  moreover have "(par t ^^ j) x \<noteq> D" if "j < 3" for j
    using views_below [OF v _ _ k(1), of D j] k(2) w that by auto
  ultimately show ?thesis
    using w x by (intro views_ok_ext [OF v tree_ext_add_blob [OF w(1) x]])
      (auto intro!: sub_dirs_add_blob tree_wf_add_blob is_dir_valid)
qed

lemma views_ok_type_dir:
  fixes nm :: string
  assumes v: "views_ok p0 S T D t"
  defines "r \<equiv> get_or_create_dir t T nm"
  shows "views_ok p0 S T D (snd r)" and "is_dir (snd r) (fst r)" and "(par (snd r) ^^ 1) (fst r) = T"
    and "tree_ext t (snd r)" and "dir_kids (snd r) S = dir_kids t S"
proof -
  have w: "tree_wf t" "is_dir t T" "sub_dirs t T 1" "sub_dirs t D 3" "0 < T" "0 < D" "S \<noteq> T"
    using v by (auto simp: views_ok_def)
  show e: "tree_ext t (snd r)" unfolding r_def using w by (simp add: tree_ext_get_or_create)
  show "views_ok p0 S T D (snd r)"
    using w e unfolding r_def
    by (intro views_ok_ext [OF v]) (auto intro!: sub_dirs_get_or_create dirs.mkdir_wf)
  have "clear_path t T [nm]"
    by (rule sub_dirs_clear [OF w(1,3), of 0]) (use w in auto)
  from dirs.walk_isd [OF w(1) this] show "is_dir (snd r) (fst r)"
    by (simp add: r_def case_prod_beta)
  show "(par (snd r) ^^ 1) (fst r) = T"
    using par_get_or_create [OF w(1,2)] by (simp add: r_def)
  show "dir_kids (snd r) S = dir_kids t S"
    using dir_kids_get_or_create [OF w(2,7)] by (simp add: r_def)
qed

lemma views_ok_date_dir:
  fixes ts :: nat
  assumes v: "views_ok p0 S T D t"
  defines "r \<equiv> dir_path t D (date_path ts)"
  shows "views_ok p0 S T D (snd r)" and "is_dir (snd r) (fst r)" and "(par (snd r) ^^ 3) (fst r) = D"
    and "tree_ext t (snd r)" and "dir_kids (snd r) S = dir_kids t S"
    and "find_path (snd r) D (date_path ts) = Some (fst r)"
proof -
  have w: "tree_wf t" "is_dir t D" "is_dir t S" "sub_dirs t T 1" "sub_dirs t D 3" "0 < T" "0 < D"
      "S \<noteq> D"
    using v by (auto simp: views_ok_def)
  have c: "clear_path t D (date_path ts)"
    by (rule sub_dirs_clear [OF w(1,5), of 0]) (use w in auto)
  show e: "tree_ext t (snd r)" unfolding r_def by (rule tree_ext_dir_path [OF w(1) c])
  show "views_ok p0 S T D (snd r)"
    using w e c unfolding r_def
    by (intro views_ok_ext [OF v]) (auto intro!: sub_dirs_walk dirs.walk_wf)
  show "is_dir (snd r) (fst r)" unfolding r_def by (rule dirs.walk_isd [OF w(1) c])
  show "(par (snd r) ^^ 3) (fst r) = D"
    using walk_ancestor [OF w(1) c] by (simp add: r_def)
  have "(par t ^^ j) S \<noteq> D" for j
    using views_anc [OF v, of S D j] w(8) by (cases "j = 0") auto
  then show "dir_kids (snd r) S = dir_kids t S"
    unfolding r_def by (intro dir_kids_walk [OF w(1) c is_dir_valid [OF w(3)]]) auto
  show "find_path (snd r) D (date_path ts) = Some (fst r)"
    unfolding r_def by (rule dirs.walk_resolve [OF w(1) c date_path_plain])
qed

text \<open>What one descriptor adds.\<close>

definition blob_views :: "mime_db \<Rightarrow> unicode_tables \<Rightarrow> nat \<Rightarrow> nat \<Rightarrow> tree \<Rightarrow> blob_descriptor \<Rightarrow> string \<Rightarrow> bool" where
  "blob_views db u T D t d sha \<longleftrightarrow>
     (\<exists>ty dy. lookup t T (sanitize_mime_for_path (effective_mime_type d)) = Some ty
        \<and> blob_in t ty (blob_file_name db u d sha) d sha
        \<and> find_path t D (date_path (bd_uploaded d)) = Some dy
        \<and> blob_in t dy (blob_file_name db u d sha) d sha)"

lemma blob_views_ext: "tree_ext t t' \<Longrightarrow> blob_views db u T D t d sha \<Longrightarrow> blob_views db u T D t' d sha"
  unfolding blob_views_def using tree_ext_lookup tree_ext_find_path blob_in_ext by blast

lemma build_step_Inr:
  fixes db :: mime_db and u :: unicode_tables and seen :: "string set"
  assumes v: "views_ok p0 S T D t" and sha: "sanitize_sha256 (bd_sha256 d) = Inr sha"
  defines "r \<equiv> build_step db u S T D (seen, t) d"
  shows "fst r = insert sha seen" and "views_ok p0 S T D (snd r)" and "tree_ext t (snd r)"
    and "dir_shas (snd r) S = (if sha \<in> seen then dir_shas t S else dir_shas t S @ [sha])"
    and "blob_views db u T D (snd r) d sha"
    and "blob_in (snd r) S (blob_file_name db u d sha) d sha \<or> sha \<in> seen"
proof -
  define f where "f = blob_file_name db u d sha"
  define t1 where "t1 = (if sha \<in> seen then t else add_blob t S f d sha)"
  define m where "m = sanitize_mime_for_path (effective_mime_type d)"
  define ty where "ty = fst (get_or_create_dir t1 T m)"
  define t2 where "t2 = snd (get_or_create_dir t1 T m)"
  define t3 where "t3 = add_blob t2 ty f d sha"
  define dy where "dy = fst (dir_path t3 D (date_path (bd_uploaded d)))"
  define t4 where "t4 = snd (dir_path t3 D (date_path (bd_uploaded d)))"
  define t5 where "t5 = add_blob t4 dy f d sha"
  have r: "r = (insert sha seen, t5)"
    unfolding r_def build_step_def t5_def t4_def dy_def t3_def t2_def ty_def m_def t1_def f_def
    by (simp add: sha case_prod_beta Let_def)
  note wfs = views_ok_def
  have v1: "views_ok p0 S T D t1" using v views_ok_add_sha by (simp add: t1_def)
  have e1: "tree_ext t t1" using v by (auto simp: t1_def wfs intro: tree_ext_add_blob)
  note ty = views_ok_type_dir [OF v1, of m, folded ty_def t2_def]
  have v3: "views_ok p0 S T D t3"
    unfolding t3_def by (rule views_ok_add_below [OF ty(1,2,3)]) simp
  have w2: "tree_wf t2" using ty(1) by (simp add: wfs)
  have e3: "tree_ext t2 t3" unfolding t3_def by (rule tree_ext_add_blob [OF w2 ty(2)])
  note dy = views_ok_date_dir [OF v3, of "bd_uploaded d", folded dy_def t4_def]
  have v5: "views_ok p0 S T D t5"
    unfolding t5_def by (rule views_ok_add_below [OF dy(1,2,3)]) simp
  have w4: "tree_wf t4" using dy(1) by (simp add: wfs)
  have e5: "tree_ext t4 t5" unfolding t5_def by (rule tree_ext_add_blob [OF w4 dy(2)])
  have e: "tree_ext t2 t5" using tree_ext_trans [OF tree_ext_trans [OF e3 dy(4)] e5] .
  show "fst r = insert sha seen" "views_ok p0 S T D (snd r)" using v5 by (simp_all add: r)
  show "tree_ext t (snd r)" using tree_ext_trans [OF tree_ext_trans [OF e1 ty(4)] e] by (simp add: r)
  have "S \<noteq> ty"
    using views_below [OF ty(1) _ _ ty(3), of S 0] v by (auto simp: wfs)
  moreover have "S \<noteq> dy"
    using views_below [OF dy(1) _ _ dy(3), of S 0] v by (auto simp: wfs)
  moreover have "tree_wf t1" "tree_wf t3" using v1 v3 by (simp_all add: wfs)
  ultimately have "dir_shas t5 S = dir_shas t1 S"
    unfolding t5_def t3_def
    using dir_shas_add_blob [OF w4 dy(2)] dir_shas_add_blob [OF w2 ty(2)]
      dir_shas_ext [OF _ ty(4,5)] dir_shas_ext [OF _ dy(4,5)] t3_def by simp
  moreover have "dir_shas t1 S = (if sha \<in> seen then dir_shas t S else dir_shas t S @ [sha])"
    using v by (simp add: t1_def wfs dir_shas_add_blob)
  ultimately show "dir_shas (snd r) S = (if sha \<in> seen then dir_shas t S else dir_shas t S @ [sha])"
    by (simp add: r)
  have "lookup t2 T m = Some ty"
    unfolding t2_def ty_def m_def using v1
    by (intro lookup_get_or_create_self mime_dir_plain) (auto simp: wfs)
  moreover have "blob_in t3 ty f d sha" unfolding t3_def by (rule blob_in_add_blob [OF ty(2)])
  moreover have "blob_in t5 dy f d sha" unfolding t5_def by (rule blob_in_add_blob [OF dy(2)])
  ultimately show "blob_views db u T D (snd r) d sha"
    unfolding blob_views_def f_def [symmetric] m_def [symmetric]
    using tree_ext_lookup [OF e] blob_in_ext [OF tree_ext_trans [OF dy(4) e5]]
      tree_ext_find_path [OF e5 dy(6)] r by auto
  have "blob_in t1 S f d sha" if "sha \<notin> seen"
    using v that by (simp add: t1_def wfs blob_in_add_blob)
  then show "blob_in (snd r) S (blob_file_name db u d sha) d sha \<or> sha \<in> seen"
    using blob_in_ext [OF tree_ext_trans [OF ty(4) e]] by (auto simp: r f_def [symmetric])
qed

lemma build_step_Inl:
  "sanitize_sha256 (bd_sha256 d) = Inl e \<Longrightarrow> build_step db u S T D st d = st"
  by (simp add: build_step_def case_prod_beta)

lemma valid_shas_simps:
  "valid_shas [] = []"
  "valid_shas (ds @ [d]) = (case sanitize_sha256 (bd_sha256 d) of Inl _ \<Rightarrow> valid_shas ds
     | Inr s \<Rightarrow> valid_shas ds @ [s])"
  by (simp_all add: valid_shas_def map_filter_def split: sum.split)

text \<open>Every valid hash has a file in \<open>S\<close> that describes a blob of that hash.\<close>

definition sha_files :: "mime_db \<Rightarrow> unicode_tables \<Rightarrow> nat \<Rightarrow> blob_descriptor list \<Rightarrow> tree \<Rightarrow> bool" where
  "sha_files db u S ds t \<longleftrightarrow> (\<forall>sha \<in> set (valid_shas ds). \<exists>d \<in> set ds.
     sanitize_sha256 (bd_sha256 d) = Inr sha \<and> blob_in t S (blob_file_name db u d sha) d sha)"

lemma sha_files_ext: "tree_ext t t' \<Longrightarrow> sha_files db u S ds t \<Longrightarrow> sha_files db u S ds t'"
  unfolding sha_files_def using blob_in_ext by blast

lemma sha_files_snoc:
  assumes "sha_files db u S ds t" "sanitize_sha256 (bd_sha256 d) = Inr sha"
    and "sha \<notin> set (valid_shas ds) \<Longrightarrow> blob_in t S (blob_file_name db u d sha) d sha"
  shows "sha_files db u S (ds @ [d]) t"
  using assms unfolding sha_files_def valid_shas_simps
  by (cases "sha \<in> set (valid_shas ds)") auto

lemma build_loop:
  fixes db :: mime_db and u :: unicode_tables
  assumes v: "views_ok p0 S T D t" and e: "dir_shas t S = []"
  defines "r \<equiv> \<lambda>ds. foldl (build_step db u S T D) ({}, t) ds"
  shows "fst (r ds) = set (valid_shas ds) \<and> views_ok p0 S T D (snd (r ds)) \<and> tree_ext t (snd (r ds))
    \<and> dir_shas (snd (r ds)) S = keep_first (valid_shas ds) \<and> sha_files db u S ds (snd (r ds))
    \<and> (\<forall>d \<in> set ds. \<forall>sha. sanitize_sha256 (bd_sha256 d) = Inr sha \<longrightarrow>
         blob_views db u T D (snd (r ds)) d sha)"
proof (induction ds rule: rev_induct)
  case Nil
  then show ?case using v e by (simp add: r_def valid_shas_simps keep_first_def sha_files_def)
next
  case (snoc d ds)
  have r: "r (ds @ [d]) = build_step db u S T D (fst (r ds), snd (r ds)) d"
    by (simp add: r_def)
  show ?case
  proof (cases "sanitize_sha256 (bd_sha256 d)")
    case (Inl e)
    then have "r (ds @ [d]) = r ds" by (simp add: r build_step_Inl)
    with snoc.IH Inl show ?thesis by (auto simp: valid_shas_simps sha_files_def)
  next
    case (Inr sha)
    note st = build_step_Inr [OF _ Inr, of p0 S T D "snd (r ds)" db u "fst (r ds)", folded r]
    have v': "views_ok p0 S T D (snd (r ds))" using snoc.IH by blast
    have sh: "dir_shas (snd (r (ds @ [d]))) S = keep_first (valid_shas (ds @ [d]))"
      using st(4) [OF v'] snoc.IH Inr by (simp add: valid_shas_simps keep_first_snoc)
    have seen: "fst (r (ds @ [d])) = set (valid_shas (ds @ [d]))"
      using st(1) [OF v'] snoc.IH Inr by (simp add: valid_shas_simps)
    have fs: "sha_files db u S (ds @ [d]) (snd (r (ds @ [d])))"
      using sha_files_ext [OF st(3) [OF v']] st(6) [OF v'] snoc.IH by (intro sha_files_snoc [OF _ Inr]) auto
    have "blob_views db u T D (snd (r (ds @ [d]))) d' s"
      if "d' \<in> set (ds @ [d])" "sanitize_sha256 (bd_sha256 d') = Inr s" for d' s
    proof (cases "d' \<in> set ds")
      case True
      then have "blob_views db u T D (snd (r ds)) d' s" using snoc.IH that by blast
      then show ?thesis by (rule blob_views_ext [OF st(3) [OF v']])
    next
      case False
      then have "d' = d" "s = sha" using that Inr by auto
      then show ?thesis using st(5) [OF v'] by simp
    qed
    then show ?thesis
      using seen sh fs st(2) [OF v'] tree_ext_trans [OF conjunct1 [OF conjunct2 [OF conjunct2 [OF snoc.IH]]] st(3) [OF v']]
      by blast
  qed
qed

section \<open>Setting the views up\<close>

text \<open>The three empty view directories satisfy the loop invariant.\<close>

lemma views_setup:
  assumes wf: "tree_wf t" and p: "is_dir t p"
    and fresh: "lookup t p ''by-sha256'' = None" "lookup t p ''by-type'' = None"
      "lookup t p ''by-date'' = None"
  defines "a \<equiv> add_directory t p ''by-sha256''"
  defines "b \<equiv> add_directory (snd a) p ''by-type''"
  defines "c \<equiv> add_directory (snd b) p ''by-date''"
  shows "views_ok p (fst a) (fst b) (fst c) (snd c)" "dir_shas (snd c) (fst a) = []"
    "tree_ext t (snd c)" "lookup (snd c) p ''by-sha256'' = Some (fst a)"
    "lookup (snd c) p ''by-type'' = Some (fst b)" "lookup (snd c) p ''by-date'' = Some (fst c)"
proof -
  have pl: "plain_name ''by-sha256''" "plain_name ''by-type''" "plain_name ''by-date''"
    by (simp_all add: plain_name_def safe_component_iff [symmetric] safe_component_def
        comp_unsafe_def is_ascii_control_def)
  note A = add_directory_new [OF wf p fresh(1) pl(1), folded a_def]
  have pa: "is_dir (snd a) p" using tree_ext_is_dir [OF A(2) p] .
  have fa: "lookup (snd a) p ''by-type'' = None" "lookup (snd a) p ''by-date'' = None"
    using A(12) [of "''by-type''"] A(12) [of "''by-date''"] fresh by simp_all
  note B = add_directory_new [OF A(1) pa fa(1) pl(2), folded b_def]
  have pb: "is_dir (snd b) p" using tree_ext_is_dir [OF B(2) pa] .
  have fb: "lookup (snd b) p ''by-date'' = None" using B(12) [of "''by-date''"] fa by simp
  note C = add_directory_new [OF B(1) pb fb pl(3), folded c_def]
  note BC = tree_ext_trans [OF B(2) C(2)]
  have ids: "fst b = fst a + 1" "fst c = fst b + 1" using A B C by simp_all
  have par: "par (snd c) (fst a) = p" "par (snd c) (fst b) = p"
    using par_ext [OF BC is_dir_valid [OF A(3)]] par_ext [OF C(2) is_dir_valid [OF B(3)]] A(4) B(4)
    by simp_all
  show "views_ok p (fst a) (fst b) (fst c) (snd c)"
    using C(1,3,4,7) par tree_ext_is_dir [OF BC A(3)] tree_ext_is_dir [OF C(2) B(3)] A(7) B(7) ids
      C(11) [OF B(13)] C(13)
    by (simp add: views_ok_def)
  have "fst a \<noteq> p" using A(7) by simp
  then have "dir_kids (snd c) (fst a) = []"
    using A(6) by (simp add: c_def b_def add_directory_eq dir_kids_add_node
        pb [unfolded b_def add_directory_eq snd_conv] pa)
  then show "dir_shas (snd c) (fst a) = []" by (simp add: dir_shas_def)
  show "tree_ext t (snd c)" using tree_ext_trans [OF A(2) BC] .
  show "lookup (snd c) p ''by-sha256'' = Some (fst a)" using tree_ext_lookup [OF BC A(5)] .
  show "lookup (snd c) p ''by-type'' = Some (fst b)" using tree_ext_lookup [OF C(2) B(5)] .
  show "lookup (snd c) p ''by-date'' = Some (fst c)" by (rule C(5))
qed

text \<open>The finished views.\<close>

lemma build_views_ok:
  assumes "tree_wf t" and "is_dir t p"
    and "lookup t p ''by-sha256'' = None" "lookup t p ''by-type'' = None"
      "lookup t p ''by-date'' = None"
  shows "\<exists>S T D. views_ok p S T D (build_from_descriptors db u t p ds)
    \<and> tree_ext t (build_from_descriptors db u t p ds)
    \<and> lookup (build_from_descriptors db u t p ds) p ''by-sha256'' = Some S
    \<and> lookup (build_from_descriptors db u t p ds) p ''by-type'' = Some T
    \<and> lookup (build_from_descriptors db u t p ds) p ''by-date'' = Some D
    \<and> dir_shas (build_from_descriptors db u t p ds) S = keep_first (valid_shas ds)
    \<and> sha_files db u S ds (build_from_descriptors db u t p ds)
    \<and> (\<forall>d \<in> set ds. \<forall>sha. sanitize_sha256 (bd_sha256 d) = Inr sha \<longrightarrow>
         blob_views db u T D (build_from_descriptors db u t p ds) d sha)"
proof -
  define a where "a = add_directory t p ''by-sha256''"
  define b where "b = add_directory (snd a) p ''by-type''"
  define c where "c = add_directory (snd b) p ''by-date''"
  define r where "r = foldl (build_step db u (fst a) (fst b) (fst c)) ({}, snd c) ds"
  have b: "build_from_descriptors db u t p ds = snd r"
    by (simp add: build_from_descriptors_def r_def c_def b_def a_def case_prod_beta)
  note S = views_setup [OF assms, folded a_def, folded b_def, folded c_def]
  note L = build_loop [OF S(1,2), of db u ds, folded r_def]
  have e: "tree_ext (snd c) (snd r)" using L by blast
  show ?thesis
    unfolding b using L tree_ext_trans [OF S(3) e] tree_ext_lookup [OF e S(4)]
      tree_ext_lookup [OF e S(5)] tree_ext_lookup [OF e S(6)] by blast
qed

text \<open>C28. Building a server's views below an empty-named place keeps the tree well formed
  and everything that was in it; \<open>by-sha256\<close> then lists each valid hash exactly once, in the
  order the server first reported it, as a file that describes a blob reported with that hash;
  and every blob with a valid hash is found with its URL, size, type and times both below
  \<open>by-type\<close> in the directory of its MIME type and below \<open>by-date\<close> in the directory of the
  year, month and day it was uploaded.\<close>

theorem build_views:
  assumes "tree_wf t" and "is_dir t p"
    and "lookup t p ''by-sha256'' = None" "lookup t p ''by-type'' = None"
      "lookup t p ''by-date'' = None"
  shows "tree_wf (build_from_descriptors db u t p ds)
    \<and> tree_ext t (build_from_descriptors db u t p ds)
    \<and> (\<exists>S T D. lookup (build_from_descriptors db u t p ds) p ''by-sha256'' = Some S
        \<and> lookup (build_from_descriptors db u t p ds) p ''by-type'' = Some T
        \<and> lookup (build_from_descriptors db u t p ds) p ''by-date'' = Some D
        \<and> dir_shas (build_from_descriptors db u t p ds) S = keep_first (valid_shas ds)
        \<and> sha_files db u S ds (build_from_descriptors db u t p ds)
        \<and> (\<forall>d \<in> set ds. \<forall>sha. sanitize_sha256 (bd_sha256 d) = Inr sha \<longrightarrow>
             blob_views db u T D (build_from_descriptors db u t p ds) d sha))"
  using build_views_ok [OF assms, of db u ds] unfolding views_ok_def by blast

theorem build_views_witness:
  "let t' = build_from_descriptors \<lparr>mime_parse = (\<lambda>_. None), mime_exts = (\<lambda>_. None)\<rparr>
     \<lparr>uni_alnum = (\<lambda>_. False), uni_lower = (\<lambda>s. s)\<rparr> new_tree 1
     [\<lparr>bd_url = ''http://a/x.png'', bd_sha256 = replicate 64 (CHR ''A''), bd_size = 3,
       bd_mime = Some ''image/png'', bd_uploaded = 86400, bd_expiration = None\<rparr>]
   in tree_wf t' \<and> (\<exists>S. lookup t' 1 ''by-sha256'' = Some S
        \<and> dir_shas t' S = [replicate 64 (CHR ''a'')])"
proof -
  have "lookup new_tree 1 nm = None" for nm
    by (simp add: lookup_def new_tree_def get_def)
  moreover have "is_dir new_tree 1" by (simp add: is_dir_def new_tree_def get_def)
  moreover have "ascii_lower (CHR ''A'') = CHR ''a''"
    by (subst of_char_eq_iff [where 'a = nat, symmetric]) (simp add: of_char_ascii_lower)
  then have "sanitize_sha256 (replicate 64 (CHR ''A'')) = Inr (replicate 64 (CHR ''a''))"
    by (simp add: sanitize_sha256_def to_lowercase_def is_ascii_hexdigit_def is_ascii_digit_def
        list_all_iff map_replicate_const)
  ultimately show ?thesis
    using build_views [OF tree_wf_new, of 1 "\<lparr>mime_parse = (\<lambda>_. None), mime_exts = (\<lambda>_. None)\<rparr>"
      "\<lparr>uni_alnum = (\<lambda>_. False), uni_lower = (\<lambda>s. s)\<rparr>"
      "[\<lparr>bd_url = ''http://a/x.png'', bd_sha256 = replicate 64 (CHR ''A''), bd_size = 3,
       bd_mime = Some ''image/png'', bd_uploaded = 86400, bd_expiration = None\<rparr>]"]
    by (auto simp: valid_shas_def map_filter_def keep_first_def Let_def)
qed

section \<open>The aggregate view\<close>

lemma sha_only_loop:
  fixes db :: mime_db and u :: unicode_tables
  assumes wf: "tree_wf t" and S: "is_dir t S" and e: "dir_shas t S = []"
  defines "r \<equiv> \<lambda>ds. foldl (sha_only_step db u S) ({}, t) ds"
  shows "fst (r ds) = set (valid_shas ds) \<and> tree_wf (snd (r ds)) \<and> tree_ext t (snd (r ds))
    \<and> is_dir (snd (r ds)) S \<and> dir_shas (snd (r ds)) S = keep_first (valid_shas ds)
    \<and> node_count (snd (r ds)) = node_count t + card (set (valid_shas ds))"
proof (induction ds rule: rev_induct)
  case Nil
  then show ?case using assms by (simp add: r_def valid_shas_simps keep_first_def)
next
  case (snoc d ds)
  have r: "r (ds @ [d]) = sha_only_step db u S (r ds) d" by (simp add: r_def)
  note ih = snoc.IH
  have w: "tree_wf (snd (r ds))" "is_dir (snd (r ds)) S" using ih by simp_all
  show ?case
  proof (cases "sanitize_sha256 (bd_sha256 d)")
    case (Inl e)
    then have "r (ds @ [d]) = r ds" by (simp add: r sha_only_step_def case_prod_beta)
    with ih Inl show ?thesis by (simp add: valid_shas_simps)
  next
    case (Inr sha)
    show ?thesis
    proof (cases "sha \<in> fst (r ds)")
      case True
      then have "r (ds @ [d]) = r ds" by (simp add: r sha_only_step_def case_prod_beta Inr)
      with ih Inr True show ?thesis
        by (auto simp: valid_shas_simps keep_first_snoc insert_absorb)
    next
      case False
      then have "r (ds @ [d]) = (insert sha (fst (r ds)),
          add_blob (snd (r ds)) S (blob_file_name db u d sha) d sha)"
        by (simp add: r sha_only_step_def case_prod_beta Inr)
      moreover have "node_count (add_blob (snd (r ds)) S nm d sha) = node_count (snd (r ds)) + 1" for nm
        by (simp add: add_blob_eq)
      ultimately show ?thesis
        using ih Inr False tree_ext_trans [OF _ tree_ext_add_blob [OF w]]
          tree_wf_add_blob [OF w(1) is_dir_valid [OF w(2)]] tree_ext_is_dir [OF tree_ext_add_blob [OF w] w(2)]
          dir_shas_add_blob [OF w]
        by (simp add: valid_shas_simps keep_first_snoc)
    qed
  qed
qed



end
