(* ===== verification/Bfs_Persist.thy ===== *)
theory Bfs_Persist
  imports Bfs_Tree_Ext
begin

text \<open>
  Persistence of user-created directories and files: \<open>persist_tags\<close> and
  \<open>apply_persisted\<close> of \<open>src/fuse/tree.rs\<close>, and the kind-30078 event that carries the tags
  (\<open>src/nostr/persist.rs\<close>).  Relays and signing are outside; an event is its tag list, and
  the relays' answer is a list of events.

  The walk of \<open>collect_persist\<close> recurses into children; on an arbitrary arena that need not
  end, so the model takes fuel and answers \<open>None\<close> when it runs out.  \<open>persist_tags\<close> gives it
  one unit per node and one more, which is enough on every well-formed tree.
\<close>

type_synonym tag = "string list"

section \<open>Writing the tags\<close>

fun collect_persist :: "nat \<Rightarrow> tree \<Rightarrow> nat \<Rightarrow> string \<Rightarrow> tag list option" where
  "collect_persist 0 t ino path = None"
| "collect_persist (Suc fuel) t ino path =
     (case get t ino of
        None \<Rightarrow> Some []
      | Some (Directory _ _ children _ _) \<Rightarrow>
          (let own = (if ino \<noteq> root t \<and> \<not> starts_with path ''/public''
                      then [[''folder'', path]] else [])
           in map_option (\<lambda>below. own @ concat below)
                (those (map (\<lambda>c.
                   case get t c of
                     None \<Rightarrow> Some []
                   | Some child \<Rightarrow>
                       (let path' = path @ ''/'' @ n_name child
                        in if starts_with path' ''/public'' then Some []
                           else collect_persist fuel t c path')) children)))
      | Some (File _ _ _ sz (Remote _ sha mime _) _) \<Rightarrow>
          Some [[''x'', sha, path, nat_to_string sz, (case mime of None \<Rightarrow> [] | Some m \<Rightarrow> m)]]
      | Some (File _ _ _ _ _ _) \<Rightarrow> Some [])"

definition persist_tags :: "tree \<Rightarrow> tag list option" where
  "persist_tags t = collect_persist (node_count t + 1) t (root t) []"

section \<open>Reading the tags back\<close>

definition path_parts :: "string \<Rightarrow> string list" where
  "path_parts path = split_on (CHR ''/'') (trim_start_matches (CHR ''/'') path)"

definition ensure_parts :: "tree \<Rightarrow> string list \<Rightarrow> nat \<times> tree" where
  "ensure_parts t parts = dir_path t (root t) (filter (\<lambda>p. p \<noteq> []) parts)"

definition apply_folder :: "tree \<Rightarrow> tag \<Rightarrow> tree" where
  "apply_folder t tag =
     (if 2 \<le> length tag \<and> tag ! 0 = ''folder''
      then snd (ensure_parts t (path_parts (tag ! 1))) else t)"

definition apply_file :: "string \<Rightarrow> tree \<Rightarrow> tag \<Rightarrow> tree" where
  "apply_file server_url t tag =
     (if 4 \<le> length tag \<and> tag ! 0 = ''x'' then
        let sha256 = tag ! 1;
            path = tag ! 2;
            sz = (case parse_u64 (tag ! 3) of Some n \<Rightarrow> n | None \<Rightarrow> 0);
            mime = (if 5 \<le> length tag \<and> tag ! 4 \<noteq> [] then Some (tag ! 4) else None);
            parts = path_parts path
        in if hd parts = [] then t
           else
             let (parent, t1) = ensure_parts t (butlast parts);
                 file_name = last parts
             in if file_name = [] then t1
                else
                  let url = trim_end_matches (CHR ''/'') server_url @ ''/'' @ sha256
                  in (if lookup t1 parent file_name = None
                      then snd (add_remote_file t1 parent file_name url sha256 sz mime 0 None)
                      else t1)
      else t)"

definition apply_persisted :: "tree \<Rightarrow> tag list \<Rightarrow> string \<Rightarrow> tree" where
  "apply_persisted t tags server_url =
     foldl (apply_file server_url) (foldl apply_folder t tags) tags"

section \<open>The event\<close>

text \<open>The tags of the published event; \<open>None\<close> is the panic of \<open>tag[0]\<close> on an empty tag.\<close>

definition publish_tag :: "tag \<Rightarrow> tag list option" where
  "publish_tag tag =
     (if tag = [] then None
      else Some (if tag ! 0 = ''folder'' \<and> 2 \<le> length tag then [[''folder'', tag ! 1]]
                 else if tag ! 0 = ''x'' \<and> 5 \<le> length tag
                 then [[''x'', tag ! 1, tag ! 2, tag ! 3, tag ! 4]]
                 else []))"

definition publish_tags :: "string \<Rightarrow> tag list \<Rightarrow> tag list option" where
  "publish_tags drive_name tags =
     map_option (\<lambda>content. [''d'', drive_name] # [''l'', ''blossomfs''] # concat content)
       (those (map publish_tag tags))"

definition event_to_tags :: "tag list \<Rightarrow> tag list" where
  "event_to_tags ev =
     filter (\<lambda>v. case v of [] \<Rightarrow> False | k # _ \<Rightarrow> k = ''folder'' \<or> k = ''x'') ev"

definition persist_event_matches :: "string \<Rightarrow> tag list \<Rightarrow> bool" where
  "persist_event_matches drive_name ev \<longleftrightarrow>
     list_ex (\<lambda>t. 2 \<le> length t \<and> t ! 0 = ''d'' \<and> t ! 1 = drive_name) ev
     \<and> list_ex (\<lambda>t. 2 \<le> length t \<and> t ! 0 = ''l'' \<and> t ! 1 = ''blossomfs'') ev"

datatype persist_error = PersistNotFound string

definition fetch_persist_event :: "tag list list \<Rightarrow> string \<Rightarrow> persist_error + tag list" where
  "fetch_persist_event events drive_name =
     (case List.find (persist_event_matches drive_name) events of
        None \<Rightarrow> Inl (PersistNotFound drive_name)
      | Some ev \<Rightarrow> Inr (event_to_tags ev))"

section \<open>Restoring keeps the tree well formed\<close>

lemma get_or_create_dir_valid:
  assumes "tree_wf t" "valid_ino t p"
  shows "valid_ino (snd (get_or_create_dir t p nm)) (fst (get_or_create_dir t p nm))"
    and "node_count t \<le> node_count (snd (get_or_create_dir t p nm))"
    and "root (snd (get_or_create_dir t p nm)) = root t"
  using assms lookup_valid [of t p nm]
  by (cases "lookup t p nm";
      auto simp: get_or_create_dir_def add_directory_eq valid_ino_def next_inode_eq)+

lemma tree_wf_dir_path [inv_intros]:
  "tree_wf t \<Longrightarrow> valid_ino t p \<Longrightarrow>
     tree_wf (snd (dir_path t p ns)) \<and> valid_ino (snd (dir_path t p ns)) (fst (dir_path t p ns))
     \<and> root (snd (dir_path t p ns)) = root t"
proof (induction ns arbitrary: t p)
  case (Cons n ns)
  then show ?case
    using tree_wf_get_or_create_dir get_or_create_dir_valid by (simp add: case_prod_beta)
qed simp

lemma tree_wf_root_valid: "tree_wf t \<Longrightarrow> valid_ino t (root t)"
  using tree_wf_root is_dir_valid by metis

lemma tree_wf_apply_folder [inv_intros]: "tree_wf t \<Longrightarrow> tree_wf (apply_folder t tag)"
  by (simp add: apply_folder_def ensure_parts_def tree_wf_dir_path tree_wf_root_valid)

lemma tree_wf_apply_file [inv_intros]: "tree_wf t \<Longrightarrow> tree_wf (apply_file url t tag)"
  using tree_wf_dir_path [OF _ tree_wf_root_valid]
  by (auto simp: apply_file_def ensure_parts_def Let_def case_prod_beta
      intro!: tree_wf_add_remote_file)

lemma tree_wf_foldl: "(\<And>t x. tree_wf t \<Longrightarrow> tree_wf (f t x)) \<Longrightarrow> tree_wf t \<Longrightarrow> tree_wf (foldl f t xs)"
  by (induction xs arbitrary: t) simp_all

lemma tree_wf_apply_persisted [inv_intros]: "tree_wf t \<Longrightarrow> tree_wf (apply_persisted t tags url)"
  unfolding apply_persisted_def by (intro tree_wf_foldl tree_wf_apply_file tree_wf_apply_folder)

section \<open>The walk ends and finds every user node\<close>

text \<open>\<open>node_path t ino ns\<close>: the names \<open>ns\<close> lead from the root to the node.\<close>

inductive node_path :: "tree \<Rightarrow> nat \<Rightarrow> string list \<Rightarrow> bool" for t where
  np_root: "node_path t (root t) []"
| np_child: "node_path t p ns \<Longrightarrow> c \<in> set (dir_kids t p) \<Longrightarrow> node_path t c (ns @ [name_at t c])"

definition abs_path :: "string list \<Rightarrow> string" where
  "abs_path ns = concat (map (\<lambda>n. CHR ''/'' # n) ns)"

definition node_tag :: "tree \<Rightarrow> nat \<Rightarrow> string \<Rightarrow> tag option" where
  "node_tag t ino path =
     (case get t ino of
        Some (Directory _ _ _ _ _) \<Rightarrow> if ino = root t then None else Some [''folder'', path]
      | Some (File _ _ _ sz (Remote _ sha mime _) _) \<Rightarrow>
          Some [''x'', sha, path, nat_to_string sz, (case mime of None \<Rightarrow> [] | Some m \<Rightarrow> m)]
      | _ \<Rightarrow> None)"

text \<open>The nodes below \<open>ino\<close>, each with its path relative to \<open>ino\<close>.\<close>

inductive below :: "tree \<Rightarrow> nat \<Rightarrow> nat \<Rightarrow> string list \<Rightarrow> bool" for t where
  below_refl: "below t i i []"
| below_kid: "c \<in> set (dir_kids t i) \<Longrightarrow> below t c j ns \<Longrightarrow> below t i j (name_at t c # ns)"

lemma those_map_Some:
  "those (map f xs) = Some ys \<longleftrightarrow> list_all2 (\<lambda>x y. f x = Some y) xs ys"
proof (induction xs arbitrary: ys)
  case (Cons x xs)
  then show ?case
    by (cases ys) (auto split: option.splits simp: list_all2_Cons1)
qed auto

lemma those_map_ex: "(\<And>x. x \<in> set xs \<Longrightarrow> \<exists>y. f x = Some y) \<Longrightarrow> \<exists>ys. those (map f xs) = Some ys"
proof (induction xs)
  case (Cons x xs)
  from Cons.prems [of x] Cons.IH Cons.prems show ?case
    by (fastforce split: option.split)
qed simp

text \<open>The visit of one child.\<close>

definition persist_child :: "nat \<Rightarrow> tree \<Rightarrow> string \<Rightarrow> nat \<Rightarrow> tag list option" where
  "persist_child fuel t path c =
     (case get t c of
        None \<Rightarrow> Some []
      | Some child \<Rightarrow>
          (let path' = path @ ''/'' @ n_name child
           in if starts_with path' ''/public'' then Some []
              else collect_persist fuel t c path'))"

lemma collect_persist_dir:
  "get t ino = Some (Directory i nm cs p lz) \<Longrightarrow>
   collect_persist (Suc fuel) t ino path =
     map_option (\<lambda>below. (if ino \<noteq> root t \<and> \<not> starts_with path ''/public''
         then [[''folder'', path]] else []) @ concat below)
       (those (map (persist_child fuel t path) cs))"
  by (simp add: persist_child_def [abs_def] Let_def)

lemma collect_persist_file:
  "get t ino = Some (File i nm p sz ct up) \<Longrightarrow>
   collect_persist (Suc fuel) t ino path = Some (case node_tag t ino path of None \<Rightarrow> [] | Some x \<Rightarrow> [x])"
  by (cases ct) (simp_all add: node_tag_def)

lemma collect_persist_ends:
  "tree_wf t \<Longrightarrow> valid_ino t ino \<Longrightarrow> node_count t < fuel + ino \<Longrightarrow>
     \<exists>tags. collect_persist fuel t ino path = Some tags"
proof (induction fuel arbitrary: ino path)
  case (Suc fuel)
  obtain n where n: "get t ino = Some n" using Suc.prems(2) valid_ino_iff by blast
  show ?case
  proof (cases n)
    case (Directory i nm cs p lz)
    have "\<exists>y. persist_child fuel t path c = Some y" if "c \<in> set cs" for c
    proof -
      have "ino < c" using tree_wf_kid [OF Suc.prems(1) n] that Directory by simp
      moreover have "valid_ino t c"
        unfolding valid_ino_iff using tree_wf_kid [OF Suc.prems(1) n, of c] that Directory by auto
      ultimately have "\<And>q. \<exists>tags. collect_persist fuel t c q = Some tags"
        using Suc by simp
      then show ?thesis by (simp add: persist_child_def Let_def split: option.split)
    qed
    then show ?thesis
      using those_map_ex [of cs "persist_child fuel t path"] n Directory
      by (simp add: collect_persist_dir del: collect_persist.simps)
  next
    case (File i nm p sz ct up)
    with n show ?thesis by (simp add: collect_persist_file del: collect_persist.simps)
  qed
qed (simp add: valid_ino_def)

lemma persist_tags_ends: "tree_wf t \<Longrightarrow> \<exists>tags. persist_tags t = Some tags"
  unfolding persist_tags_def
  by (rule collect_persist_ends) (auto dest!: tree_wf_root intro: is_dir_valid)

definition user_tags :: "tree \<Rightarrow> nat \<Rightarrow> string \<Rightarrow> tag set" where
  "user_tags t ino path = {tag. \<exists>j ns. below t ino j ns
     \<and> \<not> starts_with (path @ abs_path ns) ''/public''
     \<and> node_tag t j (path @ abs_path ns) = Some tag}"

lemma abs_path_simps: "abs_path [] = []" "abs_path (n # ns) = ''/'' @ n @ abs_path ns"
  "abs_path (ms @ ns) = abs_path ms @ abs_path ns"
  by (simp_all add: abs_path_def)

lemma user_tags_unfold:
  assumes "\<not> starts_with path ''/public''"
  shows "user_tags t ino path = set_option (node_tag t ino path) \<union>
    (\<Union>c \<in> set (dir_kids t ino). user_tags t c (path @ ''/'' @ name_at t c))"
proof (intro set_eqI iffI)
  fix tag assume "tag \<in> user_tags t ino path"
  then obtain j ns where b: "below t ino j ns" and r: "\<not> starts_with (path @ abs_path ns) ''/public''"
      "node_tag t j (path @ abs_path ns) = Some tag"
    unfolding user_tags_def by blast
  from b show "tag \<in> set_option (node_tag t ino path) \<union>
      (\<Union>c \<in> set (dir_kids t ino). user_tags t c (path @ ''/'' @ name_at t c))"
  proof (cases rule: below.cases)
    case below_refl
    then show ?thesis using r by (simp add: abs_path_simps)
  next
    case (below_kid c ms)
    then have "tag \<in> user_tags t c (path @ ''/'' @ name_at t c)"
      using r unfolding user_tags_def by (auto simp: abs_path_simps)
    then show ?thesis using below_kid by blast
  qed
next
  fix tag assume "tag \<in> set_option (node_tag t ino path) \<union>
      (\<Union>c \<in> set (dir_kids t ino). user_tags t c (path @ ''/'' @ name_at t c))"
  then consider "node_tag t ino path = Some tag"
    | c where "c \<in> set (dir_kids t ino)" "tag \<in> user_tags t c (path @ ''/'' @ name_at t c)"
    by (auto simp: elem_set)
  then show "tag \<in> user_tags t ino path"
  proof cases
    case 1
    then show ?thesis
      using assms below_refl [of t ino] unfolding user_tags_def
      by (auto simp: abs_path_simps intro!: exI [of _ ino] exI [of _ "[]"])
  next
    case 2
    from 2(2) obtain j ns where "below t c j ns"
      "\<not> starts_with (path @ abs_path (name_at t c # ns)) ''/public''"
      "node_tag t j (path @ abs_path (name_at t c # ns)) = Some tag"
      unfolding user_tags_def by (auto simp: abs_path_simps)
    with below_kid [OF 2(1)] show ?thesis unfolding user_tags_def by blast
  qed
qed

text \<open>Nothing below a \<open>/public\<close> prefix is a user node.\<close>

lemma user_tags_public: "starts_with path ''/public'' \<Longrightarrow> user_tags t ino path = {}"
  by (auto simp: user_tags_def intro: prefix_order.trans)

lemma union_list_all2:
  "list_all2 P cs rs \<Longrightarrow> (\<And>c r. c \<in> set cs \<Longrightarrow> P c r \<Longrightarrow> set r = f c) \<Longrightarrow>
     (\<Union>r \<in> set rs. set r) = (\<Union>c \<in> set cs. f c)"
proof (induction rule: list_all2_induct)
  case (Cons x xs y ys)
  have "set y = f x" by (rule Cons.prems [of x y]) (use Cons.hyps in simp_all)
  moreover have "(\<Union>r \<in> set ys. set r) = (\<Union>c \<in> set xs. f c)"
    by (rule Cons.IH) (use Cons.prems in simp)
  ultimately show ?case by simp
qed simp

lemma collect_persist_set:
  "tree_wf t \<Longrightarrow> \<not> starts_with path ''/public'' \<Longrightarrow> valid_ino t ino \<Longrightarrow>
   collect_persist fuel t ino path = Some tags \<Longrightarrow> set tags = user_tags t ino path"
proof (induction fuel arbitrary: ino path tags)
  case (Suc fuel)
  obtain n where n: "get t ino = Some n" using Suc.prems(3) valid_ino_iff by blast
  show ?case
  proof (cases n)
    case (Directory i nm cs p lz)
    have k: "dir_kids t ino = cs" using n Directory by (simp add: dir_kids_def)
    obtain rs where rs: "list_all2 (\<lambda>c r. persist_child fuel t path c = Some r) cs rs"
        and tags: "tags = (if ino \<noteq> root t then [[''folder'', path]] else []) @ concat rs"
      using Suc.prems(2,4) n Directory
      by (auto simp: collect_persist_dir those_map_Some simp del: collect_persist.simps)
    have kid: "set r = user_tags t c (path @ ''/'' @ name_at t c)"
      if c: "c \<in> set cs" and r: "persist_child fuel t path c = Some r" for c r
    proof -
      obtain m where m: "get t c = Some m" using dir_kids_valid [OF Suc.prems(1)] c k by blast
      then have "name_at t c = n_name m" "valid_ino t c" by (auto simp: name_at_def valid_ino_iff)
      with Suc.IH [OF Suc.prems(1), of "path @ ''/'' @ n_name m" c r] r m show ?thesis
        by (auto simp: persist_child_def Let_def user_tags_public split: if_splits)
    qed
    have "(\<Union>r \<in> set rs. set r) = (\<Union>c \<in> set cs. user_tags t c (path @ ''/'' @ name_at t c))"
      using rs kid by (rule union_list_all2)
    moreover have "set_option (node_tag t ino path)
        = (if ino \<noteq> root t then {[''folder'', path]} else {})"
      using n Directory by (simp add: node_tag_def)
    ultimately show ?thesis
      unfolding user_tags_unfold [OF Suc.prems(2)] k tags by auto
  next
    case (File i nm p sz ct up)
    then have "dir_kids t ino = []" using n by (simp add: dir_kids_def)
    then show ?thesis
      using Suc.prems(4) n File unfolding user_tags_unfold [OF Suc.prems(2)]
      by (auto simp: collect_persist_file simp del: collect_persist.simps split: option.splits)
  qed
qed simp

lemma persist_tags_exact:
  assumes "tree_wf t"
  shows "\<exists>tags. persist_tags t = Some tags
    \<and> set tags = {tag. \<exists>j ns. below t (root t) j ns \<and> \<not> starts_with (abs_path ns) ''/public''
          \<and> node_tag t j (abs_path ns) = Some tag}"
proof -
  have v: "valid_ino t (root t)" using tree_wf_root [OF assms] is_dir_valid by simp
  obtain tags where t: "persist_tags t = Some tags"
    using persist_tags_ends [OF assms] by blast
  moreover have "set tags = user_tags t (root t) []"
    using collect_persist_set [OF assms _ v] t unfolding persist_tags_def
    by (simp del: collect_persist.simps)
  ultimately show ?thesis by (auto simp: user_tags_def)
qed



section \<open>The event round trip\<close>

definition user_tag :: "tag \<Rightarrow> bool" where
  "user_tag tag \<longleftrightarrow> (\<exists>p. tag = [''folder'', p]) \<or> (\<exists>a b c d. tag = [''x'', a, b, c, d])"

lemma publish_user_tag: "user_tag tag \<Longrightarrow> publish_tag tag = Some [tag]"
  by (auto simp: user_tag_def publish_tag_def)

lemma publish_user_tags:
  "list_all user_tag tags \<Longrightarrow>
     publish_tags d tags = Some ([''d'', d] # [''l'', ''blossomfs''] # tags)"
proof -
  assume "list_all user_tag tags"
  then have "those (map publish_tag tags) = Some (map (\<lambda>t. [t]) tags)"
    by (induction tags) (simp_all add: publish_user_tag)
  moreover have "concat (map (\<lambda>t. [t]) tags) = tags" by simp
  ultimately show ?thesis by (simp add: publish_tags_def)
qed

lemma persist_tags_user_tags:
  assumes "tree_wf t" "persist_tags t = Some tags"
  shows "list_all user_tag tags"
proof -
  have "node_tag t j p = Some tag \<Longrightarrow> user_tag tag" for j p tag
    by (simp add: node_tag_def user_tag_def
      split: option.splits tree_node.splits file_content.splits if_splits) auto
  then show ?thesis
    using persist_tags_exact [OF assms(1)] assms(2) unfolding list_all_iff by auto
qed

lemma persist_roundtrip:
  assumes "tree_wf t" and "persist_tags t = Some tags"
    and "\<forall>e \<in> set older. \<not> persist_event_matches drive e"
  shows "\<exists>ev. publish_tags drive tags = Some ev
    \<and> fetch_persist_event (older @ ev # rest) drive = Inr tags"
proof -
  have u: "list_all user_tag tags" by (rule persist_tags_user_tags [OF assms(1,2)])
  define ev where "ev = [''d'', drive] # [''l'', ''blossomfs''] # tags"
  have "persist_event_matches drive ev" by (simp add: persist_event_matches_def ev_def)
  moreover have "event_to_tags ev = tags"
    using u by (auto simp: ev_def event_to_tags_def list_all_iff user_tag_def intro!: filter_True)
  moreover have "List.find (persist_event_matches drive) (older @ ev # rest)
      = (if persist_event_matches drive ev then Some ev
         else List.find (persist_event_matches drive) rest)"
    using assms(3) by (induction older) auto
  ultimately show ?thesis
    using publish_user_tags [OF u, of drive] by (simp add: fetch_persist_event_def ev_def)
qed

text \<open>What is written on unmount is what the next mount reads: the persistence tags of a
  well-formed tree are published without a panic, the published event is the one the fetch
  selects among the relays' answers (when it comes before any other event of the drive), and
  the tags taken from it are the tags that were persisted, in order.\<close>

theorem persist_event_roundtrip:
  assumes "tree_wf t" and "persist_tags t = Some tags"
    and "\<forall>e \<in> set older. \<not> persist_event_matches drive e"
  shows "\<exists>ev. publish_tags drive tags = Some ev
    \<and> fetch_persist_event (older @ ev # rest) drive = Inr tags"
  by (rule persist_roundtrip [OF assms])

theorem persist_event_roundtrip_witness:
  "\<exists>tags ev. persist_tags (snd (add_directory new_tree 1 ''docs'')) = Some tags
    \<and> publish_tags ''home'' tags = Some ev
    \<and> fetch_persist_event ([[[''d'', ''other'']]] @ ev # []) ''home'' = Inr tags"
proof -
  have w: "tree_wf (snd (add_directory new_tree 1 ''docs''))"
    by (intro inv_intros) (simp add: valid_ino_def node_count_def new_tree_def)
  obtain tags where t: "persist_tags (snd (add_directory new_tree 1 ''docs'')) = Some tags"
    using persist_tags_ends [OF w] by blast
  have "\<forall>e \<in> set [[[''d'', ''other'']]]. \<not> persist_event_matches ''home'' e"
    by (simp add: persist_event_matches_def)
  from persist_event_roundtrip [OF w t this, of "[]"] t show ?thesis by blast
qed

end
