(* ===== verification/Bfs_Inode.thy ===== *)
theory Bfs_Inode
  imports Bfs_Prelude
begin

text \<open>
  The inode allocator of \<open>src/fuse/inode.rs\<close>: a vector of \<open>InodeInfo\<close> (inode \<open>n\<close> at index
  \<open>n - 1\<close>) and a hash map from parent and name to inode.  \<open>path\<close> loops up the parent chain;
  on an arbitrary vector the loop need not end, so it is a \<open>partial_function\<close> whose outer
  \<open>None\<close> is divergence and whose inner \<open>None\<close> is the code's \<open>None\<close>.
\<close>

section \<open>The allocator\<close>

definition FUSE_ROOT_ID :: nat where
  "FUSE_ROOT_ID = 1"

datatype inode_kind = InodeDirectory | InodeRegularFile

record inode_info =
  ii_ino :: nat
  ii_parent :: nat
  ii_name :: string
  ii_kind :: inode_kind

record inode_allocator =
  ia_nodes :: "inode_info list"
  ia_by_name :: "nat \<times> string \<Rightarrow> nat option"

definition ia_new :: inode_allocator where
  "ia_new = \<lparr>ia_nodes = [\<lparr>ii_ino = FUSE_ROOT_ID, ii_parent = FUSE_ROOT_ID, ii_name = ''/'',
                          ii_kind = InodeDirectory\<rparr>],
             ia_by_name = (\<lambda>_. None)\<rparr>"

definition ia_get :: "inode_allocator \<Rightarrow> nat \<Rightarrow> inode_info option" where
  "ia_get a ino =
     (if ino = 0 then None
      else if ino - 1 < length (ia_nodes a) then Some (ia_nodes a ! (ino - 1)) else None)"

text \<open>\<open>None\<close> is the panic for a missing parent.\<close>

definition ia_alloc ::
  "inode_allocator \<Rightarrow> nat \<Rightarrow> string \<Rightarrow> inode_kind \<Rightarrow> (nat \<times> inode_allocator) option" where
  "ia_alloc a parent name k =
     (if ia_get a parent = None then None
      else let new_ino = length (ia_nodes a) + 1
           in Some (new_ino,
                \<lparr>ia_nodes = ia_nodes a @ [\<lparr>ii_ino = new_ino, ii_parent = parent, ii_name = name,
                                           ii_kind = k\<rparr>],
                 ia_by_name = (ia_by_name a)((parent, name) \<mapsto> new_ino)\<rparr>))"

definition ia_lookup :: "inode_allocator \<Rightarrow> nat \<Rightarrow> string \<Rightarrow> nat option" where
  "ia_lookup a parent name = ia_by_name a (parent, name)"

definition ia_len :: "inode_allocator \<Rightarrow> nat" where
  "ia_len a = length (ia_nodes a)"

partial_function (option) path_loop ::
  "inode_allocator \<Rightarrow> nat \<Rightarrow> string list \<Rightarrow> string list option option" where
  "path_loop a current parts =
     (case ia_get a current of
        None \<Rightarrow> Some None
      | Some node \<Rightarrow>
          if current = FUSE_ROOT_ID then Some (Some parts)
          else path_loop a (ii_parent node) (ii_name node # parts))"

definition ia_path :: "inode_allocator \<Rightarrow> nat \<Rightarrow> string option option" where
  "ia_path a ino =
     (if ino = FUSE_ROOT_ID then Some (Some ''/'')
      else map_option (map_option (\<lambda>parts. ''/'' @ str_join ''/'' parts)) (path_loop a ino []))"

section \<open>The invariant\<close>

definition ia_wf :: "inode_allocator \<Rightarrow> bool" where
  "ia_wf a \<longleftrightarrow> ia_nodes a \<noteq> [] \<and> ii_ino (hd (ia_nodes a)) = FUSE_ROOT_ID
     \<and> (\<forall>i n. ia_get a i = Some n \<longrightarrow> ii_ino n = i \<and> 1 \<le> ii_parent n \<and> (i \<noteq> 1 \<longrightarrow> ii_parent n < i))
     \<and> (\<forall>p nm i. ia_by_name a (p, nm) = Some i \<longrightarrow>
          i \<noteq> FUSE_ROOT_ID \<and> (\<exists>n. ia_get a i = Some n \<and> ii_parent n = p \<and> ii_name n = nm))"

definition ia_op :: "nat \<times> string \<times> inode_kind \<Rightarrow> inode_allocator \<Rightarrow> inode_allocator" where
  "ia_op r a = (case r of (p, nm, k) \<Rightarrow> (case ia_alloc a p nm k of None \<Rightarrow> a | Some (_, a') \<Rightarrow> a'))"

lemma ia_get_Some: "ia_get a i = Some n \<Longrightarrow> 1 \<le> i \<and> i \<le> ia_len a"
  by (auto simp: ia_get_def ia_len_def split: if_splits)

lemma ia_get_ex: "(\<exists>n. ia_get a i = Some n) \<longleftrightarrow> 1 \<le> i \<and> i \<le> ia_len a"
  by (auto simp: ia_get_def ia_len_def)

lemma ia_alloc_Some:
  assumes "ia_alloc a p nm k = Some (i, a')"
  shows "i = ia_len a + 1" "1 \<le> p \<and> p \<le> ia_len a"
    "ia_get a' j = (if j = i then Some \<lparr>ii_ino = i, ii_parent = p, ii_name = nm, ii_kind = k\<rparr>
                    else ia_get a j)"
    "ia_by_name a' = (ia_by_name a)((p, nm) \<mapsto> i)"
    "ia_len a' = ia_len a + 1" "ia_nodes a' \<noteq> []" "ia_nodes a \<noteq> [] \<Longrightarrow> hd (ia_nodes a') = hd (ia_nodes a)"
proof -
  have "ia_get a p \<noteq> None" using assms by (auto simp: ia_alloc_def split: if_splits)
  then show "1 \<le> p \<and> p \<le> ia_len a" using ia_get_Some by auto
qed (use assms in \<open>auto simp: ia_alloc_def Let_def ia_len_def ia_get_def nth_append split: if_splits\<close>)

lemma ia_wf_new: "ia_wf ia_new"
  by (auto simp: ia_wf_def ia_new_def FUSE_ROOT_ID_def ia_get_def split: if_splits)

lemma ia_wf_alloc:
  assumes wf: "ia_wf a" and al: "ia_alloc a p nm k = Some (i, a')"
  shows "ia_wf a'"
  unfolding ia_wf_def
proof (intro conjI allI impI)
  note A = ia_alloc_Some [OF al]
  have old: "\<And>j n. ia_get a j = Some n \<Longrightarrow> j \<noteq> i" using A(1) ia_get_Some by fastforce
  show "ia_nodes a' \<noteq> []" by (rule A(6))
  show "ii_ino (hd (ia_nodes a')) = FUSE_ROOT_ID" using wf A(7) by (simp add: ia_wf_def)
  fix j n assume g: "ia_get a' j = Some n"
  show "ii_ino n = j" "1 \<le> ii_parent n"
    using g wf A(2) by (auto simp: A(3) ia_wf_def split: if_splits)
  show "j \<noteq> 1 \<Longrightarrow> ii_parent n < j"
    using g wf A(1,2) by (auto simp: A(3) ia_wf_def split: if_splits)
next
  note A = ia_alloc_Some [OF al]
  fix q m j assume b: "ia_by_name a' (q, m) = Some j"
  show "j \<noteq> FUSE_ROOT_ID"
    using b wf A(1,2) by (auto simp: A(4) ia_wf_def FUSE_ROOT_ID_def split: if_splits)
  show "\<exists>n. ia_get a' j = Some n \<and> ii_parent n = q \<and> ii_name n = m"
  proof (cases "(q, m) = (p, nm)")
    case True
    with b show ?thesis by (simp add: A(3,4))
  next
    case False
    with b have "ia_by_name a (q, m) = Some j" by (auto simp: A(4))
    with wf obtain n where n: "ia_get a j = Some n" "ii_parent n = q" "ii_name n = m"
      unfolding ia_wf_def by blast
    moreover have "j \<noteq> i" using n(1) A(1) ia_get_Some by fastforce
    ultimately show ?thesis by (simp add: A(3))
  qed
qed

interpretation inodes: monotone_machine ia_op ia_wf ia_len
proof unfold_locales
  fix s :: inode_allocator and op :: "nat \<times> string \<times> inode_kind" assume w: "ia_wf s"
  obtain p nm k where op: "op = (p, nm, k)" by (cases op)
  show "ia_wf (ia_op op s)"
    using w ia_wf_alloc by (auto simp: op ia_op_def split: option.split)
  show "ia_len s \<le> ia_len (ia_op op s)"
    by (auto simp: op ia_op_def ia_alloc_Some(5) split: option.split)
qed

section \<open>Paths\<close>

text \<open>The names from the root down to an inode.\<close>

inductive inode_names :: "inode_allocator \<Rightarrow> nat \<Rightarrow> string list \<Rightarrow> bool" for a where
  in_root: "inode_names a FUSE_ROOT_ID []"
| in_child: "ia_get a i = Some n \<Longrightarrow> i \<noteq> FUSE_ROOT_ID \<Longrightarrow> inode_names a (ii_parent n) ns \<Longrightarrow>
     inode_names a i (ns @ [ii_name n])"

lemma path_loop_names:
  assumes "ia_wf a" "inode_names a i ns"
  shows "path_loop a i parts = Some (Some (ns @ parts))"
  using assms(2)
proof (induction arbitrary: parts)
  case in_root
  have "ia_get a FUSE_ROOT_ID \<noteq> None"
    using assms(1) by (simp add: ia_wf_def ia_get_def FUSE_ROOT_ID_def)
  then show ?case by (subst path_loop.simps) auto
next
  case (in_child i n ns)
  then show ?case by (subst path_loop.simps) simp
qed

lemma inode_names_ex: "ia_wf a \<Longrightarrow> ia_get a i = Some n \<Longrightarrow> \<exists>ns. inode_names a i ns"
proof (induction i arbitrary: n rule: less_induct)
  case (less i)
  show ?case
  proof (cases "i = FUSE_ROOT_ID")
    case True
    then show ?thesis using in_root by blast
  next
    case False
    with less.prems have p: "1 \<le> ii_parent n" "ii_parent n < i"
      by (auto simp: ia_wf_def FUSE_ROOT_ID_def)
    moreover have "i \<le> ia_len a" using less.prems(2) ia_get_Some by blast
    ultimately have "\<exists>m. ia_get a (ii_parent n) = Some m"
      unfolding ia_get_ex by linarith
    with less.IH [OF p(2) less.prems(1)] in_child [OF less.prems(2) False] show ?thesis by blast
  qed
qed

lemma str_join_snoc:
  "ns \<noteq> [] \<Longrightarrow> str_join sep (ns @ [x]) = str_join sep ns @ sep @ x"
  by (induction sep ns rule: str_join.induct) auto

lemma inode_names_alloc:
  assumes "ia_alloc a p nm k = Some (i, a')" and "inode_names a j ns"
  shows "inode_names a' j ns"
  using assms(2)
proof (induction rule: inode_names.induct)
  case (in_child j n ns)
  then have "ia_get a' j = Some n"
    using ia_alloc_Some(1) [OF assms(1)] ia_get_Some [of a j n]
    by (auto simp: ia_alloc_Some(3) [OF assms(1)])
  with in_child show ?case by (auto intro: inode_names.in_child)
qed (rule inode_names.in_root)

text \<open>C31. However many allocations a mount makes, in whatever order and whether or not some
  panic for a missing parent: the numbers handed out are consecutive, an inode once allocated
  keeps its record, and resolving the path of any allocated inode ends with a path.\<close>

theorem inode_allocation_run:
  "let a = fold ia_op ops ia_new in
     (\<forall>i. (\<exists>n. ia_get a i = Some n) \<longleftrightarrow> 1 \<le> i \<and> i \<le> ia_len a)
     \<and> (\<forall>p nm k i a'. ia_alloc a p nm k = Some (i, a') \<longrightarrow>
          i = ia_len a + 1 \<and> ia_lookup a' p nm = Some i
          \<and> (\<forall>j. j \<le> ia_len a \<longrightarrow> ia_get a' j = ia_get a j))
     \<and> (\<forall>i. 1 \<le> i \<longrightarrow> i \<le> ia_len a \<longrightarrow> (\<exists>path. ia_path a i = Some (Some path)))"
proof -
  define a where "a = fold ia_op ops ia_new"
  have wf: "ia_wf a" unfolding a_def by (rule inodes.run_inv [OF ia_wf_new])
  have "\<exists>path. ia_path a i = Some (Some path)" if "1 \<le> i" "i \<le> ia_len a" for i
  proof -
    have "\<exists>n. ia_get a i = Some n" using that unfolding ia_get_ex by simp
    then obtain ns where "inode_names a i ns" using inode_names_ex [OF wf] by blast
    then show ?thesis using path_loop_names [OF wf] by (simp add: ia_path_def)
  qed
  moreover have "i = ia_len a + 1 \<and> ia_lookup a' p nm = Some i
      \<and> (\<forall>j. j \<le> ia_len a \<longrightarrow> ia_get a' j = ia_get a j)"
    if "ia_alloc a p nm k = Some (i, a')" for p nm k i a'
  proof (intro conjI allI impI)
    note A = ia_alloc_Some [OF that]
    show "i = ia_len a + 1" by (rule A(1))
    show "ia_lookup a' p nm = Some i" by (simp add: ia_lookup_def A(4))
    fix j assume "j \<le> ia_len a"
    then show "ia_get a' j = ia_get a j" using A(1) by (simp add: A(3))
  qed
  ultimately show ?thesis by (simp add: a_def [symmetric] Let_def ia_get_ex)
qed

theorem inode_allocation_run_witness:
  "\<exists>path. ia_path (fold ia_op [(1, ''a'', InodeDirectory), (9, ''x'', InodeRegularFile)] ia_new) 1
    = Some (Some path)"
proof -
  have "1 \<le> ia_len (fold ia_op [(1, ''a'', InodeDirectory), (9, ''x'', InodeRegularFile)] ia_new)"
    using inodes.run_mono [OF ia_wf_new, of "[(1, ''a'', InodeDirectory), (9, ''x'', InodeRegularFile)]"]
    by (simp add: ia_len_def ia_new_def del: fold_simps)
  with inode_allocation_run [of "[(1, ''a'', InodeDirectory), (9, ''x'', InodeRegularFile)]"]
  show ?thesis by (simp only: Let_def)
qed

text \<open>The path of a fresh inode is its parent's path and its name.\<close>

lemma ia_path_alloc:
  assumes wf: "ia_wf a" and al: "ia_alloc a p nm k = Some (i, a')"
  shows "ia_path a' i = (if p = FUSE_ROOT_ID then Some (Some (''/'' @ nm))
     else map_option (map_option (\<lambda>q. q @ ''/'' @ nm)) (ia_path a p))"
proof -
  note A = ia_alloc_Some [OF al]
  have "\<exists>n. ia_get a p = Some n" using A(2) unfolding ia_get_ex .
  then obtain ns where ns: "inode_names a p ns" using inode_names_ex [OF wf] by blast
  have i: "i \<noteq> FUSE_ROOT_ID" using A(1,2) by (simp add: FUSE_ROOT_ID_def)
  have "inode_names a' i (ns @ [nm])"
    using in_child [of a' i "\<lparr>ii_ino = i, ii_parent = p, ii_name = nm, ii_kind = k\<rparr>" ns]
      inode_names_alloc [OF al ns] i by (simp add: A(3))
  from path_loop_names [OF ia_wf_alloc [OF wf al] this, of "[]"]
  have pi: "ia_path a' i = Some (Some (''/'' @ str_join ''/'' (ns @ [nm])))"
    using i by (simp add: ia_path_def)
  have "ns = [] \<longleftrightarrow> p = FUSE_ROOT_ID"
    using ns path_loop_names [OF wf ns, of "[]"] path_loop_names [OF wf in_root, of "[]"]
    by (auto elim: inode_names.cases)
  then show ?thesis
    using pi path_loop_names [OF wf ns, of "[]"] str_join_snoc [of ns "''/''" nm]
    by (auto simp: ia_path_def)
qed

end
