(* ===== verification/Bfs_Net.thy ===== *)
theory Bfs_Net
  imports Bfs_Prelude
begin

text \<open>
  The network as the code sees it.  The HTTP client (\<open>reqwest\<close>) and the servers behind it are
  one function from a request and the state of the world to an outcome and the next state; the
  retry driver (\<open>backon\<close>) repeats an action while its error is declared transient, at most
  a given number of times.  The policies themselves are the program's and are modelled where
  the code states them.
\<close>

datatype http_error = HConnect | HTimeout | HStatus nat | HDecode | HBuild

record request =
  rq_method :: string
  rq_url :: string
  rq_headers :: "(string \<times> string) list"
  rq_body :: bytes

record response =
  rs_status :: nat
  rs_content_length :: "nat option"
  rs_headers :: "string \<Rightarrow> string option"
  rs_body :: "http_error + bytes"

type_synonym 'w http = "request \<Rightarrow> 'w \<Rightarrow> (http_error + response) \<times> 'w"

definition http_get :: "string \<Rightarrow> (string \<times> string) list \<Rightarrow> request" where
  "http_get url headers = \<lparr>rq_method = ''GET'', rq_url = url, rq_headers = headers, rq_body = []\<rparr>"

text \<open>\<open>Response::error_for_status\<close>.\<close>

definition error_for_status :: "http_error + response \<Rightarrow> http_error + response" where
  "error_for_status r =
     (case r of
        Inl e \<Rightarrow> Inl e
      | Inr resp \<Rightarrow> if 400 \<le> rs_status resp \<and> rs_status resp < 600
                    then Inl (HStatus (rs_status resp)) else Inr resp)"

definition is_success :: "nat \<Rightarrow> bool" where
  "is_success status \<longleftrightarrow> 200 \<le> status \<and> status < 300"

fun retry_when :: "nat \<Rightarrow> ('e \<Rightarrow> bool) \<Rightarrow> ('w \<Rightarrow> ('e + 'a) \<times> 'w) \<Rightarrow> 'w \<Rightarrow> ('e + 'a) \<times> 'w" where
  "retry_when 0 transient act w = act w"
| "retry_when (Suc n) transient act w =
     (case act w of
        (Inl e, w') \<Rightarrow> if transient e then retry_when n transient act w' else (Inl e, w')
      | (Inr a, w') \<Rightarrow> (Inr a, w'))"

lemma retry_when_Inr:
  "retry_when n transient act w = (Inr a, w') \<Longrightarrow> \<exists>v. act v = (Inr a, w')"
  by (induction n arbitrary: w) (auto split: prod.splits sum.splits if_splits)

lemma error_for_status_ok:
  "error_for_status r = Inr resp \<Longrightarrow> r = Inr resp \<and> \<not> (400 \<le> rs_status resp \<and> rs_status resp < 600)"
  by (auto simp: error_for_status_def split: sum.splits if_splits)

text \<open>How often the retry driver acts, counted in the world.\<close>

lemma retry_when_count:
  assumes "\<And>w. count (snd (act w)) = count w + (1 :: nat)"
  shows "count (snd (retry_when n transient act w)) \<le> count w + n + 1
    \<and> count w + 1 \<le> count (snd (retry_when n transient act w))"
proof (induction n arbitrary: w)
  case (Suc n)
  obtain r w' where a: "act w = (r, w')" by fastforce
  then have "count w' = count w + 1" using assms [of w] by simp
  with Suc [of w'] a show ?case by (auto split: sum.split)
qed (use assms in \<open>simp\<close>)

end
