(* ===== verification/Bfs_Metrics.thy ===== *)
theory Bfs_Metrics
  imports Bfs_Prelude
begin

text \<open>
  The counters and gauges of \<open>src/metrics.rs\<close>.  Counters only grow; the three gauges are
  signed.  The Prometheus registry, its text encoder and the HTTP endpoint are not modelled.
\<close>

record metrics =
  cache_hits :: nat
  cache_misses :: nat
  uploads_total :: nat
  uploads_bytes :: nat
  downloads_total :: nat
  downloads_bytes :: nat
  errors :: "string \<Rightarrow> nat"
  cache_size_bytes :: int
  cache_file_count :: int
  active_uploads :: int

definition metrics_init :: metrics where
  "metrics_init = \<lparr>cache_hits = 0, cache_misses = 0, uploads_total = 0, uploads_bytes = 0,
     downloads_total = 0, downloads_bytes = 0, errors = (\<lambda>_. 0), cache_size_bytes = 0,
     cache_file_count = 0, active_uploads = 0\<rparr>"

definition record_error :: "string \<Rightarrow> metrics \<Rightarrow> metrics" where
  "record_error cat m = m\<lparr>errors := (errors m)(cat := errors m cat + 1)\<rparr>"

definition inc_hits :: "metrics \<Rightarrow> metrics" where
  "inc_hits m = m\<lparr>cache_hits := cache_hits m + 1\<rparr>"

definition inc_misses :: "metrics \<Rightarrow> metrics" where
  "inc_misses m = m\<lparr>cache_misses := cache_misses m + 1\<rparr>"

definition count_download :: "nat \<Rightarrow> metrics \<Rightarrow> metrics" where
  "count_download n m = m\<lparr>downloads_total := downloads_total m + 1,
     downloads_bytes := downloads_bytes m + n\<rparr>"

definition count_upload :: "nat \<Rightarrow> metrics \<Rightarrow> metrics" where
  "count_upload n m = m\<lparr>uploads_total := uploads_total m + 1,
     uploads_bytes := uploads_bytes m + n\<rparr>"

definition cache_gauges :: "int \<Rightarrow> int \<Rightarrow> metrics \<Rightarrow> metrics" where
  "cache_gauges bytes files m = m\<lparr>cache_size_bytes := cache_size_bytes m + bytes,
     cache_file_count := cache_file_count m + files\<rparr>"

text \<open>\<open>ActiveUploadGuard\<close>: construction increments, dropping decrements.\<close>

definition guard_new :: "metrics \<Rightarrow> metrics" where
  "guard_new m = m\<lparr>active_uploads := active_uploads m + 1\<rparr>"

definition guard_drop :: "metrics \<Rightarrow> metrics" where
  "guard_drop m = m\<lparr>active_uploads := active_uploads m - 1\<rparr>"

text \<open>A guarded scope leaves the gauge where it was, whatever the body does to other metrics.\<close>

lemma guard_balanced:
  "active_uploads (f (guard_new m)) = active_uploads (guard_new m) \<Longrightarrow>
     active_uploads (guard_drop (f (guard_new m))) = active_uploads m"
  by (simp add: guard_new_def guard_drop_def)

lemmas metrics_defs = record_error_def inc_hits_def inc_misses_def count_download_def
  count_upload_def cache_gauges_def guard_new_def guard_drop_def

end
