(* ===== verification/Bfs_Client.thy ===== *)
theory Bfs_Client
  imports Bfs_Descriptor Bfs_Net Bfs_Metrics
begin

text \<open>
  The Blossom HTTP client (\<open>src/blossom/client.rs\<close>): listing with cursor pagination,
  retrieval, upload, deletion, mirroring, lifetime extension, existence checks and pre-flight,
  each with its error branches, and the pay-and-retry flow for status 402.  The HTTP client,
  SHA-256, the HTTP-date parser and the JSON reader and writer are parameters (\<open>cenv\<close>); a
  payment strategy is a function of the payment request and the world.
\<close>

section \<open>Errors and environment\<close>

datatype nwc_parse_error =
    InvalidScheme
  | MissingPubkey
  | MissingRelay
  | MissingSecret
  | InvalidPubkey
  | InvalidSecret

datatype payment_error =
    TokenFileRead
  | InvalidToken string
  | NwcParse nwc_parse_error
  | NwcSerialize
  | NwcEncrypt
  | NwcSign
  | NwcRelay string
  | NwcSend string
  | NwcTimeout string
  | NwcRuntime string
  | WalletRejected string
  | NoResponse
  | NotConfigured

datatype client_error =
    ClientHttp http_error
  | ClientJson
  | ServerError nat bytes
  | ClientHashMismatch string string
  | PaymentRequired string
  | ClientPayment payment_error
  | ClientIo

record multipart_init =
  mi_upload_id :: string
  mi_sha256 :: string
  mi_chunk_size :: nat
  mi_total_chunks :: nat
  mi_expires_in :: nat

record 'w cenv =
  ce_http :: "'w http"
  ce_hash :: "bytes \<Rightarrow> string"
  ce_http_date :: "string \<Rightarrow> int option"
  ce_json_list :: "bytes \<Rightarrow> blob_descriptor list option"
  ce_json_descriptor :: "bytes \<Rightarrow> blob_descriptor option"
  ce_json_init :: "bytes \<Rightarrow> multipart_init option"
  ce_json_part :: "bytes \<Rightarrow> (nat \<times> string) option"
  ce_json_mirror_body :: "string \<Rightarrow> bytes"
  ce_json_init_body :: "nat \<Rightarrow> string \<Rightarrow> bytes"

definition categorize_blossom_error :: "client_error \<Rightarrow> string" where
  "categorize_blossom_error e =
     (case e of
        ClientHashMismatch _ _ \<Rightarrow> ''hash_mismatch''
      | ServerError status _ \<Rightarrow>
          (if status = 401 \<or> status = 403 then ''auth''
           else if status = 404 then ''not_found''
           else if status = 413 then ''size_limit''
           else ''server_error'')
      | PaymentRequired _ \<Rightarrow> ''payment''
      | ClientPayment _ \<Rightarrow> ''payment''
      | ClientHttp _ \<Rightarrow> ''network''
      | ClientJson \<Rightarrow> ''parse''
      | ClientIo \<Rightarrow> ''io'')"

text \<open>\<open>BlossomClient::new\<close> and \<open>with_timeout\<close> keep the base URL without trailing slashes.\<close>

definition client_new :: "string \<Rightarrow> string" where
  "client_new base_url = trim_end_matches (CHR ''/'') base_url"

section \<open>Requests and answers\<close>

definition mk_request :: "string \<Rightarrow> string \<Rightarrow> (string \<times> string) list \<Rightarrow> bytes \<Rightarrow> request" where
  "mk_request meth url headers body =
     \<lparr>rq_method = meth, rq_url = url, rq_headers = headers, rq_body = body\<rparr>"

definition auth_line :: "string \<Rightarrow> string \<times> string" where
  "auth_line auth_header = (''Authorization'', ''Nostr '' @ auth_header)"

definition body_or_default :: "response \<Rightarrow> bytes" where
  "body_or_default resp = (case rs_body resp of Inl _ \<Rightarrow> [] | Inr b \<Rightarrow> b)"

definition server_error :: "response \<Rightarrow> client_error" where
  "server_error resp = ServerError (rs_status resp) (body_or_default resp)"

text \<open>Send, insist on a 2xx status, read the body and parse it.\<close>

definition call_json ::
  "'w cenv \<Rightarrow> request \<Rightarrow> (bytes \<Rightarrow> 'a option) \<Rightarrow> 'w \<Rightarrow> (client_error + 'a) \<times> 'w" where
  "call_json E rq parse w =
     (case ce_http E rq w of
        (Inl e, w') \<Rightarrow> (Inl (ClientHttp e), w')
      | (Inr resp, w') \<Rightarrow>
          (if \<not> is_success (rs_status resp) then Inl (server_error resp)
           else (case rs_body resp of
                   Inl e \<Rightarrow> Inl (ClientHttp e)
                 | Inr body \<Rightarrow> (case parse body of None \<Rightarrow> Inl ClientJson | Some a \<Rightarrow> Inr a)), w'))"

section \<open>Listing\<close>

definition list_url :: "string \<Rightarrow> string \<Rightarrow> string option \<Rightarrow> nat option \<Rightarrow> string" where
  "list_url base pubkey_hex cursor limit =
     (let b = base @ ''/list/'' @ pubkey_hex;
          query_parts = (case cursor of None \<Rightarrow> [] | Some c \<Rightarrow> [''cursor='' @ c])
                        @ (case limit of None \<Rightarrow> [] | Some l \<Rightarrow> [''limit='' @ nat_to_string l])
      in if query_parts = [] then b else b @ ''?'' @ str_join ''&'' query_parts)"

text \<open>The length is cast to \<open>u32\<close> before it is compared with the limit.\<close>

definition next_cursor :: "blob_descriptor list \<Rightarrow> nat option \<Rightarrow> string option" where
  "next_cursor ds limit =
     (case limit of
        None \<Rightarrow> None
      | Some l \<Rightarrow> if ds \<noteq> [] \<and> length ds mod 2 ^ 32 \<ge> l then Some (bd_sha256 (last ds)) else None)"

definition list_blobs ::
  "'w cenv \<Rightarrow> string \<Rightarrow> string \<Rightarrow> string option \<Rightarrow> nat option \<Rightarrow> 'w
     \<Rightarrow> (client_error + blob_descriptor list \<times> string option) \<times> 'w" where
  "list_blobs E base pubkey_hex cursor limit w =
     (case call_json E (http_get (list_url base pubkey_hex cursor limit) []) (ce_json_list E) w of
        (Inl e, w') \<Rightarrow> (Inl e, w')
      | (Inr ds, w') \<Rightarrow> (Inr (ds, next_cursor ds limit), w'))"

definition MAX_PAGES :: nat where "MAX_PAGES = 10000"

fun list_pages ::
  "'w cenv \<Rightarrow> string \<Rightarrow> string \<Rightarrow> nat \<Rightarrow> nat \<Rightarrow> nat \<Rightarrow> string option \<Rightarrow> blob_descriptor list \<Rightarrow> 'w
     \<Rightarrow> (client_error + blob_descriptor list) \<times> 'w" where
  "list_pages E base pk mx page_size 0 cursor acc w = (Inr acc, w)"
| "list_pages E base pk mx page_size (Suc n) cursor acc w =
     (case list_blobs E base pk cursor (Some page_size) w of
        (Inl e, w') \<Rightarrow> (Inl e, w')
      | (Inr (ds, nxt), w') \<Rightarrow>
          let acc' = acc @ ds in
          if mx > 0 \<and> length acc' \<ge> mx then (Inr (take mx acc'), w')
          else (case nxt of
                  None \<Rightarrow> (Inr acc', w')
                | Some c \<Rightarrow> list_pages E base pk mx page_size n (Some c) acc' w'))"

definition list_all_blobs ::
  "'w cenv \<Rightarrow> string \<Rightarrow> string \<Rightarrow> nat \<Rightarrow> nat \<Rightarrow> 'w \<Rightarrow> (client_error + blob_descriptor list) \<times> 'w" where
  "list_all_blobs E base pk mx page_size w = list_pages E base pk mx page_size MAX_PAGES None [] w"

section \<open>Pagination is complete\<close>

text \<open>A conforming BUD-12 server with the blobs \<open>L\<close>: a page starts after the cursor's blob.\<close>

definition server_page :: "blob_descriptor list \<Rightarrow> string option \<Rightarrow> nat \<Rightarrow> blob_descriptor list" where
  "server_page L cursor limit =
     take limit (case cursor of None \<Rightarrow> L | Some c \<Rightarrow> tl (dropWhile (\<lambda>d. bd_sha256 d \<noteq> c) L))"

definition serves :: "'w cenv \<Rightarrow> string \<Rightarrow> string \<Rightarrow> nat \<Rightarrow> blob_descriptor list \<Rightarrow> bool" where
  "serves E base pk page_size L \<longleftrightarrow> (\<forall>cursor w.
     \<exists>resp w' body. ce_http E (http_get (list_url base pk cursor (Some page_size)) []) w = (Inr resp, w')
       \<and> rs_status resp = 200 \<and> rs_body resp = Inr body
       \<and> ce_json_list E body = Some (server_page L cursor page_size))"

lemma serves_list_blobs:
  assumes "serves E base pk page_size L"
  shows "\<exists>w'. list_blobs E base pk cursor (Some page_size) w
    = (Inr (server_page L cursor page_size, next_cursor (server_page L cursor page_size) (Some page_size)), w')"
proof -
  from assms [unfolded serves_def, rule_format, of cursor w] obtain resp w' body where
    "ce_http E (http_get (list_url base pk cursor (Some page_size)) []) w = (Inr resp, w')"
    "rs_status resp = 200" "rs_body resp = Inr body"
    "ce_json_list E body = Some (server_page L cursor page_size)" by blast
  then show ?thesis by (simp add: list_blobs_def call_json_def is_success_def)
qed

lemma dropWhile_distinct:
  assumes "distinct (map f L)" "L = xs @ y # ys"
  shows "dropWhile (\<lambda>d. f d \<noteq> f y) L = y # ys"
proof -
  have "f y \<notin> f ` set xs" using assms by auto
  then have "\<forall>x \<in> set xs. f x \<noteq> f y" by (metis imageI)
  then show ?thesis using assms(2) by (simp add: dropWhile_append2)
qed

text \<open>The state of the loop: what is collected is a prefix of the server's list, and the cursor
  names its last element.\<close>

lemma list_pages_complete:
  assumes s: "serves E base pk page_size L" and d: "distinct (map bd_sha256 L)"
    and p: "0 < page_size" "page_size < 2 ^ 32"
  shows "n * page_size > length L - length acc \<Longrightarrow> acc = take (length acc) L \<Longrightarrow> length acc \<le> length L \<Longrightarrow>
    cursor = (if acc = [] then None else Some (bd_sha256 (last acc))) \<Longrightarrow>
    (mx = 0 \<or> length acc < mx) \<Longrightarrow>
    fst (list_pages E base pk mx page_size n cursor acc w) = Inr (if mx = 0 then L else take mx L)"
proof (induction n arbitrary: acc cursor w)
  case (Suc n)
  define page where "page = server_page L cursor page_size"
  have page: "page = take page_size (drop (length acc) L)"
  proof (cases "acc = []")
    case True
    then show ?thesis using Suc.prems(4) by (simp add: page_def server_page_def)
  next
    case False
    then have "L = butlast acc @ last acc # drop (length acc) L"
      using Suc.prems(2) by (metis append_Cons append_Nil append_assoc append_butlast_last_id append_take_drop_id)
    from dropWhile_distinct [OF d this] show ?thesis
      using Suc.prems(4) False by (simp add: page_def server_page_def)
  qed
  obtain w' where l: "list_blobs E base pk cursor (Some page_size) w
      = (Inr (page, next_cursor page (Some page_size)), w')"
    using serves_list_blobs [OF s] unfolding page_def by blast
  define acc' where "acc' = acc @ page"
  have acc': "acc' = take (length acc + page_size) L"
    using Suc.prems(2) unfolding acc'_def page by (metis take_add)
  have len: "length page = min page_size (length L - length acc)"
    by (simp add: page min.commute)
  show ?case
  proof (cases "mx > 0 \<and> length acc' \<ge> mx")
    case True
    then have "mx \<le> length acc + page_size" using acc' by simp
    then have "take mx acc' = take mx L" using acc' by (simp add: min_absorb1)
    with True l show ?thesis by (simp add: acc'_def Let_def)
  next
    case more: False
    show ?thesis
    proof (cases "page \<noteq> [] \<and> length page \<ge> page_size")
      case True
      then have lp: "length page = page_size" using len by simp
      then have nx: "next_cursor page (Some page_size) = Some (bd_sha256 (last page))"
        using True p(2) by (simp add: next_cursor_def)
      have "fst (list_pages E base pk mx page_size n (Some (bd_sha256 (last page))) acc' w')
          = Inr (if mx = 0 then L else take mx L)"
      proof (rule Suc.IH)
        have la: "length acc' = length acc + page_size" using lp by (simp add: acc'_def)
        have le: "length acc + page_size \<le> length L" using lp len p(1) by linarith
        show "length L - length acc' < n * page_size" using Suc.prems(1) la le by simp
        show "acc' = take (length acc') L" "length acc' \<le> length L" using acc' la le by simp_all
        show "Some (bd_sha256 (last page)) = (if acc' = [] then None else Some (bd_sha256 (last acc')))"
          using True by (simp add: acc'_def)
        show "mx = 0 \<or> length acc' < mx" using more by auto
      qed
      moreover have "\<not> (mx > 0 \<and> length (acc @ page) \<ge> mx)" using more by (simp add: acc'_def)
      ultimately show ?thesis using l nx
        by (simp only: list_pages.simps acc'_def Let_def prod.case sum.case option.case if_False)
    next
      case False
      then have "length page < page_size" using p(1) by (cases page) auto
      then have "length page mod 2 ^ 32 < page_size" and full: "length L \<le> length acc + page_size"
        using len p(2) by simp_all
      then have nx: "next_cursor page (Some page_size) = None" by (simp add: next_cursor_def)
      have "acc' = L" using acc' full by simp
      moreover from this more have "mx = 0 \<or> take mx L = L" by auto
      ultimately show ?thesis using l nx more by (auto simp: acc'_def Let_def)
    qed
  qed
qed simp

text \<open>C20. Against a server that pages as BUD-12 says, listing returns exactly the server's blobs
  in its order, cut to \<open>max\<close> when one is given: no blob is missed or repeated at a page border.
  (The server's list must fit in \<open>MAX_PAGES\<close> pages; the loop ends whatever the server does.)\<close>

theorem list_all_blobs_complete:
  assumes "serves E base pk page_size L" and "distinct (map bd_sha256 L)"
    and "0 < page_size" "page_size < 2 ^ 32" and "length L < MAX_PAGES * page_size"
  shows "fst (list_all_blobs E base pk mx page_size w) = Inr (if mx = 0 then L else take mx L)"
  unfolding list_all_blobs_def
  using list_pages_complete [OF assms(1-4), of "[]" MAX_PAGES] assms(5) by simp

text \<open>A server with one blob, asked for pages of one.\<close>

definition demo_blob :: blob_descriptor where
  "demo_blob = \<lparr>bd_url = ''http://s/a'', bd_sha256 = ''a'', bd_size = 2, bd_mime = None,
     bd_uploaded = 0, bd_expiration = None\<rparr>"

definition demo_cenv :: "request list cenv" where
  "demo_cenv = \<lparr>ce_http = (\<lambda>rq w. (Inr \<lparr>rs_status = 200, rs_content_length = None,
       rs_headers = (\<lambda>_. None),
       rs_body = Inr (if rq_url rq = ''http://s/list/pk?limit=1'' then ''1'' else ''0'')\<rparr>, w @ [rq])),
     ce_hash = (\<lambda>_. ''a''), ce_http_date = (\<lambda>_. None),
     ce_json_list = (\<lambda>b. Some (if b = ''1'' then [demo_blob] else [])),
     ce_json_descriptor = (\<lambda>_. Some demo_blob),
     ce_json_init = (\<lambda>_. Some \<lparr>mi_upload_id = ''u'', mi_sha256 = ''a'', mi_chunk_size = 2,
        mi_total_chunks = 2, mi_expires_in = 60\<rparr>),
     ce_json_part = (\<lambda>_. Some (1, ''e'')), ce_json_mirror_body = (\<lambda>u. u),
     ce_json_init_body = (\<lambda>n c. c)\<rparr>"

lemma demo_serves: "serves demo_cenv ''http://s'' ''pk'' 1 [demo_blob]"
  unfolding serves_def
proof (intro allI)
  fix cursor :: "string option" and w :: "request list"
  have "digit_char (Suc 0) = CHR ''1''"
    by (subst of_char_eq_iff [where 'a = nat, symmetric]) (simp add: digit_char_def of_char_of)
  then have one: "nat_to_string (Suc 0) = ''1''"
    by (subst nat_to_string.simps) simp
  show "\<exists>resp w' body. ce_http demo_cenv (http_get (list_url ''http://s'' ''pk'' cursor (Some 1)) []) w
        = (Inr resp, w') \<and> rs_status resp = 200 \<and> rs_body resp = Inr body
      \<and> ce_json_list demo_cenv body = Some (server_page [demo_blob] cursor 1)"
    by (cases cursor)
      (simp_all add: demo_cenv_def http_get_def list_url_def one server_page_def demo_blob_def)
qed

theorem list_all_blobs_complete_witness:
  "fst (list_all_blobs demo_cenv ''http://s'' ''pk'' 0 1 []) = Inr [demo_blob]"
  using list_all_blobs_complete [OF demo_serves, of 0 "[]"] by (simp add: MAX_PAGES_def)

section \<open>Single-blob operations\<close>

definition get_blob ::
  "'w cenv \<Rightarrow> string \<Rightarrow> string \<Rightarrow> 'w \<times> metrics \<Rightarrow> (client_error + bytes) \<times> 'w \<times> metrics" where
  "get_blob E base sha256 st =
     (case st of (w, m) \<Rightarrow>
        (case ce_http E (http_get (base @ ''/'' @ sha256) []) w of
           (Inl e, w') \<Rightarrow> (Inl (ClientHttp e), w', m)
         | (Inr resp, w') \<Rightarrow>
             if \<not> is_success (rs_status resp) then (Inl (server_error resp), w', m)
             else (case rs_body resp of
                     Inl e \<Rightarrow> (Inl (ClientHttp e), w', m)
                   | Inr b \<Rightarrow> (Inr b, w', count_download (length b) m))))"

definition upload_headers :: "'w cenv \<Rightarrow> bytes \<Rightarrow> string \<Rightarrow> string option \<Rightarrow> (string \<times> string) list" where
  "upload_headers E data auth_header payment_token =
     [auth_line auth_header, (''Content-Type'', ''application/octet-stream''),
      (''X-SHA-256'', ce_hash E data)]
     @ (case payment_token of None \<Rightarrow> [] | Some t \<Rightarrow> [(''X-Cashu'', t)])"

definition upload_blob ::
  "'w cenv \<Rightarrow> string \<Rightarrow> bytes \<Rightarrow> string \<Rightarrow> 'w \<times> metrics
     \<Rightarrow> (client_error + blob_descriptor) \<times> 'w \<times> metrics" where
  "upload_blob E base data auth_header st =
     (case st of (w, m) \<Rightarrow>
        (case call_json E (mk_request ''PUT'' (base @ ''/upload'')
                (upload_headers E data auth_header None) data) (ce_json_descriptor E) w of
           (Inl e, w') \<Rightarrow> (Inl e, w', m)
         | (Inr d, w') \<Rightarrow> (Inr d, w', count_upload (length data) m)))"

definition delete_blob ::
  "'w cenv \<Rightarrow> string \<Rightarrow> string \<Rightarrow> string \<Rightarrow> 'w \<Rightarrow> (client_error + unit) \<times> 'w" where
  "delete_blob E base sha256 auth_header w =
     (case ce_http E (mk_request ''DELETE'' (base @ ''/'' @ sha256) [auth_line auth_header] []) w of
        (Inl e, w') \<Rightarrow> (Inl (ClientHttp e), w')
      | (Inr resp, w') \<Rightarrow>
          (if is_success (rs_status resp) then Inr () else Inl (server_error resp), w'))"

definition mirror_blob ::
  "'w cenv \<Rightarrow> string \<Rightarrow> string \<Rightarrow> string \<Rightarrow> 'w \<Rightarrow> (client_error + blob_descriptor) \<times> 'w" where
  "mirror_blob E base source_url auth_header w =
     call_json E (mk_request ''PUT'' (base @ ''/mirror'')
        [auth_line auth_header, (''Content-Type'', ''application/json'')]
        (ce_json_mirror_body E source_url)) (ce_json_descriptor E) w"

text \<open>The answer to a request that may cost money: 2xx with a descriptor, 402 with the
  payment request of its \<open>x-cashu\<close> header, or another status.\<close>

definition x_cashu_of :: "response \<Rightarrow> string" where
  "x_cashu_of resp = (case rs_headers resp ''x-cashu'' of None \<Rightarrow> [] | Some v \<Rightarrow> v)"

definition refusal :: "response \<Rightarrow> client_error" where
  "refusal resp =
     (if rs_status resp = 402 then PaymentRequired (x_cashu_of resp) else server_error resp)"

definition upload_attempt ::
  "'w cenv \<Rightarrow> string \<Rightarrow> bytes \<Rightarrow> string \<Rightarrow> string option \<Rightarrow> 'w \<times> metrics
     \<Rightarrow> (client_error + blob_descriptor) \<times> 'w \<times> metrics" where
  "upload_attempt E base data auth_header payment_token st =
     (case st of (w, m) \<Rightarrow>
        (case ce_http E (mk_request ''PUT'' (base @ ''/upload'')
                (upload_headers E data auth_header payment_token) data) w of
           (Inl e, w') \<Rightarrow> (Inl (ClientHttp e), w', m)
         | (Inr resp, w') \<Rightarrow>
             if is_success (rs_status resp) then
               (case rs_body resp of
                  Inl e \<Rightarrow> (Inl (ClientHttp e), w', m)
                | Inr body \<Rightarrow>
                    (case ce_json_descriptor E body of None \<Rightarrow> Inl ClientJson | Some d \<Rightarrow> Inr d,
                     w', count_upload (length data) m))
             else (Inl (refusal resp), w', m)))"

type_synonym 'w pay = "string \<Rightarrow> 'w \<Rightarrow> (payment_error + string) \<times> 'w"

definition upload_blob_with_payment ::
  "'w cenv \<Rightarrow> string \<Rightarrow> bytes \<Rightarrow> string \<Rightarrow> 'w pay \<Rightarrow> 'w \<times> metrics
     \<Rightarrow> (client_error + blob_descriptor) \<times> 'w \<times> metrics" where
  "upload_blob_with_payment E base data auth_header pay st =
     (case upload_attempt E base data auth_header None st of
        (Inl (PaymentRequired x_cashu), w, m) \<Rightarrow>
          (case pay x_cashu w of
             (Inl e, w') \<Rightarrow> (Inl (ClientPayment e), w', m)
           | (Inr token, w') \<Rightarrow> upload_attempt E base data auth_header (Some token) (w', m))
      | r \<Rightarrow> r)"

definition extend_attempt ::
  "'w cenv \<Rightarrow> string \<Rightarrow> string \<Rightarrow> string \<Rightarrow> string option \<Rightarrow> nat option \<Rightarrow> 'w
     \<Rightarrow> (client_error + blob_descriptor) \<times> 'w" where
  "extend_attempt E base sha256 auth_header payment_token desired_expiry w =
     (case ce_http E (mk_request ''PATCH'' (base @ ''/'' @ sha256)
             ([auth_line auth_header]
              @ (case payment_token of None \<Rightarrow> [] | Some t \<Rightarrow> [(''X-Cashu'', t)])
              @ (case desired_expiry of None \<Rightarrow> []
                 | Some e \<Rightarrow> [(''X-Desired-Expiry'', nat_to_string e)])) []) w of
        (Inl e, w') \<Rightarrow> (Inl (ClientHttp e), w')
      | (Inr resp, w') \<Rightarrow>
          (if is_success (rs_status resp) then
             (case rs_body resp of
                Inl e \<Rightarrow> Inl (ClientHttp e)
              | Inr body \<Rightarrow> (case ce_json_descriptor E body of None \<Rightarrow> Inl ClientJson | Some d \<Rightarrow> Inr d))
           else Inl (refusal resp), w'))"

definition extend_blob_with_payment ::
  "'w cenv \<Rightarrow> string \<Rightarrow> string \<Rightarrow> string \<Rightarrow> 'w pay \<Rightarrow> nat option \<Rightarrow> 'w
     \<Rightarrow> (client_error + blob_descriptor) \<times> 'w" where
  "extend_blob_with_payment E base sha256 auth_header pay desired_expiry w =
     (case extend_attempt E base sha256 auth_header None desired_expiry w of
        (Inl (PaymentRequired x_cashu), w1) \<Rightarrow>
          (case pay x_cashu w1 of
             (Inl e, w2) \<Rightarrow> (Inl (ClientPayment e), w2)
           | (Inr token, w2) \<Rightarrow> extend_attempt E base sha256 auth_header (Some token) desired_expiry w2)
      | r \<Rightarrow> r)"

definition head_blob ::
  "'w cenv \<Rightarrow> string \<Rightarrow> string \<Rightarrow> 'w \<Rightarrow> (client_error + bool) \<times> 'w" where
  "head_blob E base sha256 w =
     (case ce_http E (mk_request ''HEAD'' (base @ ''/'' @ sha256) [] []) w of
        (Inl e, w') \<Rightarrow> (Inl (ClientHttp e), w')
      | (Inr resp, w') \<Rightarrow>
          (if is_success (rs_status resp) then Inr True
           else if rs_status resp = 404 then Inr False
           else Inl (server_error resp), w'))"

record blob_head_info =
  bh_exists :: bool
  bh_sunset :: "nat option"

definition head_blob_with_expiry ::
  "'w cenv \<Rightarrow> string \<Rightarrow> string \<Rightarrow> 'w \<Rightarrow> (client_error + blob_head_info) \<times> 'w" where
  "head_blob_with_expiry E base sha256 w =
     (case ce_http E (mk_request ''HEAD'' (base @ ''/'' @ sha256) [] []) w of
        (Inl e, w') \<Rightarrow> (Inl (ClientHttp e), w')
      | (Inr resp, w') \<Rightarrow>
          (if is_success (rs_status resp) then
             Inr \<lparr>bh_exists = True,
                  bh_sunset = Option.bind (rs_headers resp ''sunset'') (\<lambda>s.
                    Option.bind (ce_http_date E s) (\<lambda>t. if 0 \<le> t then Some (nat t) else None))\<rparr>
           else if rs_status resp = 404 then Inr \<lparr>bh_exists = False, bh_sunset = None\<rparr>
           else Inl (server_error resp), w'))"

definition preflight_upload ::
  "'w cenv \<Rightarrow> string \<Rightarrow> string \<Rightarrow> string \<Rightarrow> nat \<Rightarrow> string \<Rightarrow> 'w \<Rightarrow> (client_error + unit) \<times> 'w" where
  "preflight_upload E base auth_header sha256_hex content_length content_type w =
     (case ce_http E (mk_request ''HEAD'' (base @ ''/upload'')
             [auth_line auth_header, (''X-SHA-256'', sha256_hex),
              (''X-Content-Length'', nat_to_string content_length),
              (''X-Content-Type'', content_type)] []) w of
        (Inl e, w') \<Rightarrow> (Inl (ClientHttp e), w')
      | (Inr resp, w') \<Rightarrow>
          (if is_success (rs_status resp) then Inr () else Inl (refusal resp), w'))"

section \<open>Paying\<close>

text \<open>The first attempt never carries a token; a payment happens exactly when it is refused with
  402, once, and then exactly one more attempt is made, with the token the strategy returned.\<close>

lemma upload_with_payment_cases:
  assumes a: "upload_attempt E base data auth None (w, m) = (r1, w1, m1)"
  shows "upload_blob_with_payment E base data auth pay (w, m) =
    (case r1 of
       Inl (PaymentRequired x) \<Rightarrow>
         (case pay x w1 of
            (Inl e, w2) \<Rightarrow> (Inl (ClientPayment e), w2, m1)
          | (Inr token, w2) \<Rightarrow> upload_attempt E base data auth (Some token) (w2, m1))
     | _ \<Rightarrow> (r1, w1, m1))"
  using a by (simp add: upload_blob_with_payment_def split: sum.split client_error.split)

text \<open>Counting payments and requests in the world.\<close>

definition counts_calls :: "'w cenv \<Rightarrow> 'w pay \<Rightarrow> ('w \<Rightarrow> nat) \<Rightarrow> ('w \<Rightarrow> nat) \<Rightarrow> bool" where
  "counts_calls E pay sent paid \<longleftrightarrow>
     (\<forall>rq w. sent (snd (ce_http E rq w)) = sent w + 1 \<and> paid (snd (ce_http E rq w)) = paid w)
     \<and> (\<forall>x w. paid (snd (pay x w)) = paid w + 1 \<and> sent (snd (pay x w)) = sent w)"

lemma upload_attempt_counts:
  assumes "counts_calls E pay sent paid" "upload_attempt E base data auth tok (w, m) = (r, w', m')"
  shows "sent w' = sent w + 1" "paid w' = paid w"
proof -
  obtain q v where q: "ce_http E (mk_request ''PUT'' (base @ ''/upload'')
      (upload_headers E data auth tok) data) w = (q, v)" by fastforce
  have "sent v = sent w + 1" "paid v = paid w"
    using assms(1) q unfolding counts_calls_def by (metis snd_conv)+
  moreover have "w' = v"
    using assms(2) q by (auto simp: upload_attempt_def split: sum.splits if_splits)
  ultimately show "sent w' = sent w + 1" "paid w' = paid w" by simp_all
qed

lemma pay_counts:
  assumes "counts_calls E pay sent paid" "pay x w = (r, w')"
  shows "sent w' = sent w" "paid w' = paid w + 1"
  using assms unfolding counts_calls_def by (metis snd_conv)+

lemma pay_once:
  assumes c: "counts_calls E pay sent paid"
    and u: "upload_blob_with_payment E base data auth pay (w, m) = (r, w', m')"
  shows "paid w' = paid w + (case fst (upload_attempt E base data auth None (w, m)) of
            Inl (PaymentRequired _) \<Rightarrow> 1 | _ \<Rightarrow> 0)
    \<and> sent w' \<le> sent w + 2 \<and> sent w' \<le> sent w + 1 + (paid w' - paid w)
    \<and> (\<forall>e. r = Inl (ClientPayment e) \<longrightarrow> sent w' = sent w + 1)"
proof -
  obtain r1 w1 m1 where a: "upload_attempt E base data auth None (w, m) = (r1, w1, m1)"
    by (metis prod_cases3)
  note c1 = upload_attempt_counts [OF c a]
  have no_pay: "r \<noteq> Inl (ClientPayment e)"
    if "upload_attempt E base data auth tok st = (r, w'', m'')" for tok st r w'' m'' e
    using that by (cases st)
      (auto simp: upload_attempt_def refusal_def server_error_def split: sum.splits prod.splits
        if_splits option.splits)
  show ?thesis
  proof (cases "\<exists>x. r1 = Inl (PaymentRequired x)")
    case True
    then obtain x where x: "r1 = Inl (PaymentRequired x)" by blast
    obtain q w2 where q: "pay x w1 = (q, w2)" by fastforce
    note c2 = pay_counts [OF c q]
    show ?thesis
    proof (cases q)
      case (Inl e)
      then show ?thesis using u a x q c1 c2 by (auto simp: upload_with_payment_cases [OF a])
    next
      case (Inr token)
      then have b: "upload_attempt E base data auth (Some token) (w2, m1) = (r, w', m')"
        using u a x q by (simp add: upload_with_payment_cases [OF a])
      show ?thesis
        using upload_attempt_counts [OF c b] c1 c2 a x no_pay [OF b] by auto
    qed
  next
    case False
    then have r: "r = r1 \<and> w' = w1 \<and> m' = m1"
      using u by (auto simp: upload_with_payment_cases [OF a] split: sum.splits client_error.splits)
    have "(case fst (upload_attempt E base data auth None (w, m)) of
            Inl (PaymentRequired _) \<Rightarrow> 1 | _ \<Rightarrow> 0) = (0 :: nat)"
      using False a by (auto split: sum.split client_error.split)
    then show ?thesis using r c1 no_pay [OF a] by auto
  qed
qed


text \<open>A server that always asks for money, and a wallet that always pays.\<close>

definition greedy_cenv :: "(nat \<times> nat) cenv" where
  "greedy_cenv = \<lparr>ce_http = (\<lambda>rq (s, p). (Inr \<lparr>rs_status = 402, rs_content_length = None,
       rs_headers = (\<lambda>_. Some ''creqA''), rs_body = Inr []\<rparr>, s + 1, p)),
     ce_hash = (\<lambda>_. ''a''), ce_http_date = (\<lambda>_. None), ce_json_list = (\<lambda>b. None),
     ce_json_descriptor = (\<lambda>_. None), ce_json_init = (\<lambda>_. None), ce_json_part = (\<lambda>_. None),
     ce_json_mirror_body = (\<lambda>u. u), ce_json_init_body = (\<lambda>n c. c)\<rparr>"

lemma greedy_counts: "counts_calls greedy_cenv (\<lambda>x (s, p). (Inr ''cashuB'', s, p + 1)) fst snd"
  by (auto simp: counts_calls_def greedy_cenv_def)


end
