(* ===== verification/Bfs_Cache.thy ===== *)
theory Bfs_Cache
  imports Bfs_Path Bfs_Metrics
begin

text \<open>
  The content-addressed object cache (\<open>src/cache/object_cache.rs\<close>): paths, lookups and the
  first-in-first-out eviction.  The disk is a map from paths to content and modification
  time; an I/O call can fail, as the parameter \<open>io\<close> says.  The \<open>walkdir\<close> crate's listing is
  a parameter, with its documented behaviour (every file below the directory, once) as the
  hypothesis \<open>walk_ok\<close> on the directory that is listed.
\<close>

section \<open>The disk\<close>

type_synonym disk = "fs_path \<Rightarrow> (bytes \<times> nat) option"

datatype io_op =
    MkdirAll fs_path
  | ReadFile fs_path
  | Metadata fs_path
  | RemoveFile fs_path
  | CreateTemp fs_path
  | WriteTemp fs_path
  | Rename fs_path

datatype cache_error = InvalidSha256 sha_error | CacheIo

section \<open>Paths\<close>

definition cache_dir :: "fs_path \<Rightarrow> string \<Rightarrow> cache_error + fs_path" where
  "cache_dir base sha256 =
     (case sanitize_sha256 sha256 of
        Inl e \<Rightarrow> Inl (InvalidSha256 e)
      | Inr n \<Rightarrow> Inr (base @ [''objects'', take 2 n, take 2 (drop 2 n)]))"

definition cache_path :: "fs_path \<Rightarrow> string \<Rightarrow> cache_error + fs_path" where
  "cache_path base sha256 =
     (case sanitize_sha256 sha256 of
        Inl e \<Rightarrow> Inl (InvalidSha256 e)
      | Inr n \<Rightarrow> Inr (base @ [''objects'', take 2 n, take 2 (drop 2 n), n]))"

definition cache_exists :: "disk \<Rightarrow> fs_path \<Rightarrow> string \<Rightarrow> bool" where
  "cache_exists d base sha256 =
     (case cache_path base sha256 of Inl _ \<Rightarrow> False | Inr p \<Rightarrow> d p \<noteq> None)"

definition read_cached :: "(io_op \<Rightarrow> bool) \<Rightarrow> disk \<Rightarrow> fs_path \<Rightarrow> string \<Rightarrow> cache_error + bytes" where
  "read_cached io d base sha256 =
     (case cache_path base sha256 of
        Inl e \<Rightarrow> Inl e
      | Inr p \<Rightarrow> (case d p of
                    None \<Rightarrow> Inl CacheIo
                  | Some (content, _) \<Rightarrow> if io (ReadFile p) then Inr content else Inl CacheIo))"

definition ensure_cache_dir :: "(io_op \<Rightarrow> bool) \<Rightarrow> fs_path \<Rightarrow> string \<Rightarrow> cache_error + fs_path" where
  "ensure_cache_dir io base sha256 =
     (case cache_dir base sha256 of
        Inl e \<Rightarrow> Inl e
      | Inr dir \<Rightarrow> if io (MkdirAll dir) then Inr dir else Inl CacheIo)"

section \<open>Eviction\<close>

type_synonym cache_entry = "fs_path \<times> nat \<times> nat"  \<comment> \<open>path, size, modification time\<close>

record evict_state =
  ev_total :: nat
  ev_bytes :: int
  ev_count :: int
  ev_disk :: disk

fun evict_loop :: "(io_op \<Rightarrow> bool) \<Rightarrow> nat \<Rightarrow> string \<Rightarrow> cache_entry list \<Rightarrow> evict_state \<Rightarrow> evict_state" where
  "evict_loop io max_bytes keep [] s = s"
| "evict_loop io max_bytes keep ((path, sz, _) # es) s =
     (if ev_total s \<le> max_bytes then s
      else if path \<noteq> [] \<and> last path = keep then evict_loop io max_bytes keep es s
      else if io (RemoveFile path)
      then evict_loop io max_bytes keep es
             \<lparr>ev_total = ev_total s - sz, ev_bytes = ev_bytes s + int sz,
              ev_count = ev_count s + 1, ev_disk = (ev_disk s)(path := None)\<rparr>
      else evict_loop io max_bytes keep es s)"

definition scan_entries :: "(io_op \<Rightarrow> bool) \<Rightarrow> disk \<Rightarrow> fs_path list \<Rightarrow> cache_entry list" where
  "scan_entries io d files =
     List.map_filter (\<lambda>p. case d p of
        Some (c, mtime) \<Rightarrow> if io (Metadata p) then Some (p, length c, mtime) else None
      | None \<Rightarrow> None) files"

definition entries_total :: "cache_entry list \<Rightarrow> nat" where
  "entries_total es = sum_list (map (\<lambda>(_, sz, _). sz) es)"

definition evict_oldest ::
  "(io_op \<Rightarrow> bool) \<Rightarrow> (disk \<Rightarrow> fs_path \<Rightarrow> fs_path list) \<Rightarrow> fs_path \<Rightarrow> nat \<Rightarrow> string
     \<Rightarrow> disk \<times> metrics \<Rightarrow> disk \<times> metrics" where
  "evict_oldest io walk cache_base max_bytes keep st =
     (case st of (d, m) \<Rightarrow>
        if max_bytes = 0 then (d, m)
        else
          let entries = scan_entries io d (walk d (cache_base @ [''objects'']));
              total = entries_total entries
          in if total \<le> max_bytes then (d, m)
             else
               let s = evict_loop io max_bytes keep (sort_key (\<lambda>(_, _, mtime). mtime) entries)
                         \<lparr>ev_total = total, ev_bytes = 0, ev_count = 0, ev_disk = d\<rparr>
               in (ev_disk s,
                   if ev_bytes s > 0 \<or> ev_count s > 0
                   then cache_gauges (- ev_bytes s) (- ev_count s) m else m))"

definition walk_ok :: "(disk \<Rightarrow> fs_path \<Rightarrow> fs_path list) \<Rightarrow> disk \<Rightarrow> fs_path \<Rightarrow> bool" where
  "walk_ok walk d dir \<longleftrightarrow> distinct (walk d dir)
     \<and> set (walk d dir) = {p. strict_prefix dir p \<and> d p \<noteq> None}"

section \<open>The path is a faithful address\<close>

lemma sanitize_sha256_lower: "sanitize_sha256 s = Inr n \<Longrightarrow> n = to_lowercase s"
  by (simp add: sanitize_sha256_def split: if_splits)

text \<open>C34. A cache path exists exactly for a 64-digit hexadecimal hash; it lies below the
  cache's \<open>objects\<close> directory, in the directory \<open>ensure_cache_dir\<close> creates, and its last
  component is the lower-case hash. Two hashes share a path exactly when they are the same hash up
  to case: no two blobs can overwrite each other.\<close>

theorem cache_path_faithful:
  "((\<exists>p. cache_path base s = Inr p) = (length s = 64 \<and> list_all is_ascii_hexdigit s))
   \<and> (case cache_path base s of Inl _ \<Rightarrow> True | Inr p \<Rightarrow>
        prefix (base @ [''objects'']) p \<and> length p = length base + 4 \<and> last p = to_lowercase s
        \<and> cache_dir base s = Inr (butlast p)
        \<and> (\<forall>s'. (cache_path base s' = Inr p) =
             (to_lowercase s' = to_lowercase s \<and> is_ok (sanitize_sha256 s'))))"
proof (cases "sanitize_sha256 s")
  case (Inl e)
  then show ?thesis by (auto simp: cache_path_def sanitize_sha256_def split: if_splits)
next
  case (Inr n)
  note n = sanitize_sha256_lower [OF Inr]
  have "(cache_path base s' = cache_path base s) =
      (to_lowercase s' = to_lowercase s \<and> is_ok (sanitize_sha256 s'))" for s'
    using Inr n by (cases "sanitize_sha256 s'")
      (auto simp: cache_path_def dest: sanitize_sha256_lower)
  then show ?thesis
    using Inr n
    by (auto simp: cache_path_def cache_dir_def sanitize_sha256_def butlast_append split: if_splits)
qed

section \<open>What eviction removes\<close>

definition keeps :: "string \<Rightarrow> cache_entry \<Rightarrow> bool" where
  "keeps keep e \<longleftrightarrow> fst e \<noteq> [] \<and> last (fst e) = keep"

definition e_size :: "cache_entry \<Rightarrow> nat" where "e_size e = fst (snd e)"
definition e_mtime :: "cache_entry \<Rightarrow> nat" where "e_mtime e = snd (snd e)"

lemma e_simps [simp]: "e_size (p, sz, mt) = sz" "e_mtime (p, sz, mt) = mt"
  by (simp_all add: e_size_def e_mtime_def)

fun victims :: "(io_op \<Rightarrow> bool) \<Rightarrow> nat \<Rightarrow> string \<Rightarrow> cache_entry list \<Rightarrow> nat \<Rightarrow> cache_entry list" where
  "victims io mx keep [] tot = []"
| "victims io mx keep (e # es) tot =
     (if tot \<le> mx then []
      else if keeps keep e \<or> \<not> io (RemoveFile (fst e)) then victims io mx keep es tot
      else e # victims io mx keep es (tot - e_size e))"

definition drop_paths :: "fs_path set \<Rightarrow> disk \<Rightarrow> disk" where
  "drop_paths ps d = (\<lambda>p. if p \<in> ps then None else d p)"

lemma drop_paths_simps: "drop_paths {} d = d"
  "drop_paths ps (d(p := None)) = drop_paths (insert p ps) d"
  by (auto simp: drop_paths_def)

lemma evict_loop_victims:
  "evict_loop io mx keep es s =
     (let v = victims io mx keep es (ev_total s) in
      \<lparr>ev_total = ev_total s - sum_list (map e_size v),
       ev_bytes = ev_bytes s + int (sum_list (map e_size v)),
       ev_count = ev_count s + int (length v),
       ev_disk = drop_paths (fst ` set v) (ev_disk s)\<rparr>)"
proof (induction es arbitrary: s)
  case (Cons e es)
  obtain p sz mt where e: "e = (p, sz, mt)" by (cases e)
  show ?case
    unfolding e using Cons.IH
    by (auto simp: Let_def keeps_def drop_paths_simps)
qed (simp add: drop_paths_simps)

lemma victims_subset: "set (victims io mx keep es tot) \<subseteq>
    {e \<in> set es. \<not> keeps keep e \<and> io (RemoveFile (fst e))}"
  by (induction es arbitrary: tot) (auto split: if_splits)

lemma victims_distinct: "distinct (map fst es) \<Longrightarrow> distinct (map fst (victims io mx keep es tot))"
proof (induction es arbitrary: tot)
  case (Cons e es)
  then show ?case using victims_subset [of io mx keep es "tot - e_size e"] by auto
qed simp

text \<open>When every removal succeeds, the victims are the oldest entries not kept, and no more
  than needed.\<close>

lemma victims_take:
  assumes "\<forall>e \<in> set es. io (RemoveFile (fst e))"
  shows "\<exists>n. victims io mx keep es tot = take n (filter (\<lambda>e. \<not> keeps keep e) es)
    \<and> (tot - sum_list (map e_size (victims io mx keep es tot)) \<le> mx
       \<or> victims io mx keep es tot = filter (\<lambda>e. \<not> keeps keep e) es)"
  using assms
proof (induction es arbitrary: tot)
  case (Cons e es)
  consider "tot \<le> mx" | "mx < tot" "keeps keep e" | "mx < tot" "\<not> keeps keep e" by linarith
  then show ?case
  proof cases
    case 1
    then show ?thesis by (auto intro: exI [of _ 0])
  next
    case 2
    then show ?thesis using Cons by auto
  next
    case 3
    have "\<forall>e \<in> set es. io (RemoveFile (fst e))" using Cons.prems by simp
    from Cons.IH [OF this, of "tot - e_size e"] obtain n where
      "victims io mx keep es (tot - e_size e) = take n (filter (\<lambda>e. \<not> keeps keep e) es)"
      "tot - e_size e - sum_list (map e_size (victims io mx keep es (tot - e_size e))) \<le> mx
       \<or> victims io mx keep es (tot - e_size e) = filter (\<lambda>e. \<not> keeps keep e) es"
      by blast
    then show ?thesis using 3 Cons.prems by (intro exI [of _ "Suc n"]) auto
  qed
qed simp

lemma sorted_take_le:
  assumes "sorted (map f xs)" "x \<in> set (take n xs)" "y \<in> set xs" "y \<notin> set (take n xs)"
  shows "f x \<le> f y"
proof -
  have "y \<in> set (drop n xs)" using assms(3,4) by (metis Un_iff append_take_drop_id set_append)
  moreover have "sorted (map f (take n xs) @ map f (drop n xs))"
    using assms(1) by (metis append_take_drop_id map_append)
  ultimately show ?thesis using assms(2) by (auto simp: sorted_append)
qed

section \<open>Eviction is safe and effective\<close>

text \<open>The cached files and their tot size.\<close>

definition cached_files :: "fs_path \<Rightarrow> disk \<Rightarrow> fs_path set" where
  "cached_files base d = {p. strict_prefix (base @ [''objects'']) p \<and> d p \<noteq> None}"

definition file_size :: "disk \<Rightarrow> fs_path \<Rightarrow> nat" where
  "file_size d p = (case d p of None \<Rightarrow> 0 | Some (c, _) \<Rightarrow> length c)"

definition cached_bytes :: "fs_path \<Rightarrow> disk \<Rightarrow> nat" where
  "cached_bytes base d = (\<Sum>p \<in> cached_files base d. file_size d p)"

definition file_mtime :: "disk \<Rightarrow> fs_path \<Rightarrow> nat" where
  "file_mtime d p = (case d p of None \<Rightarrow> 0 | Some (_, t) \<Rightarrow> t)"

definition scan_one :: "(io_op \<Rightarrow> bool) \<Rightarrow> disk \<Rightarrow> fs_path \<Rightarrow> cache_entry option" where
  "scan_one io d p = (case d p of
        Some (c, mtime) \<Rightarrow> if io (Metadata p) then Some (p, length c, mtime) else None
      | None \<Rightarrow> None)"

lemma scan_entries_simps:
  "scan_entries io d [] = []"
  "scan_entries io d (p # ps) = (case scan_one io d p of None \<Rightarrow> scan_entries io d ps
     | Some e \<Rightarrow> e # scan_entries io d ps)"
  by (simp_all add: scan_entries_def map_filter_def scan_one_def [abs_def] split: option.split)

lemma scan_one_Some:
  "scan_one io d p = Some e \<Longrightarrow> fst e = p \<and> e_size e = file_size d p \<and> e_mtime e = file_mtime d p
     \<and> d p \<noteq> None"
  by (auto simp: scan_one_def file_size_def file_mtime_def split: option.splits if_splits)

lemma scan_one_ok: "io (Metadata p) \<Longrightarrow> d p \<noteq> None \<Longrightarrow>
    scan_one io d p = Some (p, file_size d p, file_mtime d p)"
  by (auto simp: scan_one_def file_size_def file_mtime_def)

lemma scan_entries_all:
  assumes "\<forall>p \<in> set ps. io (Metadata p) \<and> d p \<noteq> None"
  shows "scan_entries io d ps = map (\<lambda>p. (p, file_size d p, file_mtime d p)) ps"
  using assms by (induction ps) (simp_all add: scan_entries_simps scan_one_ok)

lemma scan_entries_sub:
  "e \<in> set (scan_entries io d ps) \<Longrightarrow> fst e \<in> set ps \<and> e_size e = file_size d (fst e)
     \<and> e_mtime e = file_mtime d (fst e) \<and> d (fst e) \<noteq> None"
proof (induction ps)
  case (Cons p ps)
  then show ?case
    using scan_one_Some [of io d p] by (cases "scan_one io d p") (auto simp: scan_entries_simps)
qed (simp add: scan_entries_simps)

lemma scan_entries_distinct: "distinct ps \<Longrightarrow> distinct (map fst (scan_entries io d ps))"
proof (induction ps)
  case (Cons p ps)
  have "p \<notin> fst ` set (scan_entries io d ps)"
    using scan_entries_sub [of _ io d ps] Cons.prems by auto
  then show ?case
    using Cons scan_one_Some [of io d p]
    by (cases "scan_one io d p") (auto simp: scan_entries_simps)
qed (simp add: scan_entries_simps)

text \<open>The sum the scan computes is the size of the files it saw.\<close>

lemma entries_total_sum:
  assumes "distinct (map fst es)" "\<And>e. e \<in> set es \<Longrightarrow> e_size e = file_size d (fst e)"
  shows "sum_list (map e_size es) = (\<Sum>p \<in> fst ` set es. file_size d p)"
proof -
  have "sum_list (map e_size es) = sum_list (map (file_size d) (map fst es))"
    using assms(2) by (induction es) auto
  also have "\<dots> = (\<Sum>p \<in> set (map fst es). file_size d p)"
    by (rule sum_list_distinct_conv_sum_set [OF assms(1)])
  finally show ?thesis by simp
qed

lemma entries_total_eq: "entries_total es = sum_list (map e_size es)"
  by (induction es) (auto simp: entries_total_def)

lemma cached_bytes_drop:
  assumes "finite (cached_files base d)" "ps \<subseteq> cached_files base d"
  shows "cached_files base (drop_paths ps d) = cached_files base d - ps"
    and "cached_bytes base d = cached_bytes base (drop_paths ps d) + (\<Sum>p \<in> ps. file_size d p)"
proof -
  show c: "cached_files base (drop_paths ps d) = cached_files base d - ps"
    by (auto simp: cached_files_def drop_paths_def)
  have "(\<Sum>p \<in> cached_files base d - ps. file_size (drop_paths ps d) p)
      = (\<Sum>p \<in> cached_files base d - ps. file_size d p)"
    by (rule sum.cong) (auto simp: file_size_def drop_paths_def)
  then show "cached_bytes base d = cached_bytes base (drop_paths ps d) + (\<Sum>p \<in> ps. file_size d p)"
    unfolding cached_bytes_def c using sum.subset_diff [OF assms(2,1), of "file_size d"] by simp
qed

text \<open>One description of a whole eviction: which set of paths goes.\<close>

lemma evict_oldest_victims:
  fixes io :: "io_op \<Rightarrow> bool" and d :: disk and base :: fs_path and mx :: nat and keep :: string
    and m :: metrics
  assumes w: "walk_ok walk d (base @ [''objects''])"
  defines "es \<equiv> scan_entries io d (walk d (base @ [''objects'']))"
  defines "v \<equiv> (if mx = 0 then [] else
    victims io mx keep (sort_key (\<lambda>(_, _, mtime). mtime) es) (entries_total es))"
  shows "evict_oldest io walk base mx keep (d, m)
      = (drop_paths (fst ` set v) d,
         cache_gauges (- int (sum_list (map e_size v))) (- int (length v)) m)"
    and "fst ` set v \<subseteq> {p \<in> cached_files base d. p \<noteq> [] \<and> last p \<noteq> keep}"
    and "sum_list (map e_size v) = (\<Sum>p \<in> fst ` set v. file_size d p)"
    and "length v = card (fst ` set v)"
proof -
  have walk: "distinct (walk d (base @ [''objects'']))"
      "set (walk d (base @ [''objects''])) = cached_files base d"
    using w by (auto simp: walk_ok_def cached_files_def)
  have vs: "set v \<subseteq> {e \<in> set es. \<not> keeps keep e}"
    using victims_subset [of io mx keep "sort_key (\<lambda>(_, _, mtime). mtime) es" "entries_total es"]
    unfolding v_def by auto
  have ds: "distinct (map fst (sort_key (\<lambda>(_, _, mtime). mtime) es))"
    using scan_entries_distinct [OF walk(1), of io d] unfolding es_def [symmetric]
    by (metis distinct_map distinct_sort set_sort)
  have dv: "distinct (map fst v)"
    unfolding v_def using victims_distinct [OF ds] by simp
  show len: "length v = card (fst ` set v)"
    using distinct_card [OF dv] by simp
  have sz: "e_size e = file_size d (fst e)" if "e \<in> set v" for e
    using vs that scan_entries_sub [of e io d] unfolding es_def by blast
  show sm: "sum_list (map e_size v) = (\<Sum>p \<in> fst ` set v. file_size d p)"
    by (rule entries_total_sum [OF dv sz])
  show "fst ` set v \<subseteq> {p \<in> cached_files base d. p \<noteq> [] \<and> last p \<noteq> keep}"
  proof
    fix p assume "p \<in> fst ` set v"
    then obtain e where e: "e \<in> set v" "p = fst e" by auto
    then have "p \<in> cached_files base d" "\<not> keeps keep e"
      using vs scan_entries_sub [of e io d] walk(2) unfolding es_def by auto
    moreover from this have "p \<noteq> []" by (auto simp: cached_files_def)
    ultimately show "p \<in> {p \<in> cached_files base d. p \<noteq> [] \<and> last p \<noteq> keep}"
      using e by (simp add: keeps_def)
  qed
  have small: "entries_total es \<le> mx \<Longrightarrow> v = []"
    unfolding v_def by (cases "sort_key (\<lambda>(_, _, mtime). mtime) es") auto
  have g0: "cache_gauges 0 0 m = m" by (simp add: cache_gauges_def)
  show "evict_oldest io walk base mx keep (d, m) = (drop_paths (fst ` set v) d,
         cache_gauges (- int (sum_list (map e_size v))) (- int (length v)) m)"
  proof (cases "mx = 0 \<or> entries_total es \<le> mx")
    case True
    then have "v = []" using small by (auto simp: v_def)
    then show ?thesis
      using True by (auto simp: evict_oldest_def es_def [symmetric] Let_def drop_paths_simps g0)
  next
    case False
    have v: "victims io mx keep (sort_key (\<lambda>(_, _, mtime). mtime) es) (entries_total es) = v"
      using False by (simp add: v_def)
    show ?thesis
    proof (cases "v = []")
      case True
      then show ?thesis
        using False v by (simp add: evict_oldest_def es_def [symmetric] Let_def evict_loop_victims g0)
    next
      case ne: False
      then show ?thesis
        using False v by (simp add: evict_oldest_def es_def [symmetric] Let_def evict_loop_victims)
    qed
  qed
qed

lemma finite_cached_files: "walk_ok walk d (base @ [''objects'']) \<Longrightarrow> finite (cached_files base d)"
  unfolding walk_ok_def cached_files_def by (metis List.finite_set)

text \<open>C32. Whatever I/O fails, eviction only ever removes cached objects, never the one named
  \<open>keep\<close>; it changes nothing when disabled or when the cache is within its limit; and the two
  cache gauges move by exactly the bytes and files that went.\<close>

theorem evict_safe:
  assumes "walk_ok walk d (base @ [''objects''])"
  shows "case evict_oldest io walk base mx keep (d, m) of (d', m') \<Rightarrow>
    (\<forall>p. d' p = d p \<or> (d' p = None \<and> p \<in> cached_files base d \<and> last p \<noteq> keep))
    \<and> (mx = 0 \<or> cached_bytes base d \<le> mx \<longrightarrow> d' = d)
    \<and> cache_size_bytes m' - cache_size_bytes m
        = int (cached_bytes base d') - int (cached_bytes base d)
    \<and> cache_file_count m' - cache_file_count m
        = int (card (cached_files base d')) - int (card (cached_files base d))"
proof -
  define es where "es = scan_entries io d (walk d (base @ [''objects'']))"
  define v where "v = (if mx = 0 then [] else
    victims io mx keep (sort_key (\<lambda>(_, _, mtime). mtime) es) (entries_total es))"
  note V = evict_oldest_victims [OF assms, where io = io and mx = mx and keep = keep, folded es_def, folded v_def]
  have fin: "finite (cached_files base d)" by (rule finite_cached_files [OF assms])
  have sub: "fst ` set v \<subseteq> cached_files base d" using V(2) by blast
  note D = cached_bytes_drop [OF fin sub]
  have "entries_total es \<le> cached_bytes base d"
  proof -
    have "set (walk d (base @ [''objects''])) = cached_files base d"
      "distinct (walk d (base @ [''objects'']))"
      using assms by (auto simp: walk_ok_def cached_files_def)
    moreover from this have "entries_total es = (\<Sum>p \<in> fst ` set es. file_size d p)"
      unfolding entries_total_eq es_def
      by (intro entries_total_sum scan_entries_distinct) (auto dest: scan_entries_sub)
    moreover have "fst ` set es \<subseteq> cached_files base d"
      using calculation(1) scan_entries_sub unfolding es_def by blast
    ultimately show ?thesis
      unfolding cached_bytes_def using sum_mono2 [OF fin, of "fst ` set es" "file_size d"] by simp
  qed
  then have "mx = 0 \<or> cached_bytes base d \<le> mx \<Longrightarrow> v = []"
    unfolding v_def by (cases "sort_key (\<lambda>(_, _, mtime). mtime) es") auto
  moreover have "card (cached_files base d - fst ` set v) = card (cached_files base d) - length v"
    using V(4) sub fin by (simp add: card_Diff_subset finite_subset)
  moreover have "length v \<le> card (cached_files base d)"
    unfolding V(4) by (rule card_mono [OF fin sub])
  ultimately show ?thesis
    using V D by (auto simp: cache_gauges_def drop_paths_simps drop_paths_def [of _ d])
qed

text \<open>When no operation fails, the evicted objects are a prefix of the cached ones in the order of
  their modification times, the kept one left out.\<close>

definition entry_of :: "disk \<Rightarrow> fs_path \<Rightarrow> cache_entry" where
  "entry_of d p = (p, file_size d p, file_mtime d p)"

lemma evict_takes_oldest:
  assumes "walk_ok walk d (base @ [''objects''])" and "\<forall>op. io op" and "0 < mx"
  obtains n so v where "set so = entry_of d ` cached_files base d" "sorted (map e_mtime so)"
    "v = take n (filter (\<lambda>e. \<not> keeps keep e) so)"
    "fst (evict_oldest io walk base mx keep (d, m)) = drop_paths (fst ` set v) d"
    "fst ` set v \<subseteq> cached_files base d"
    "cached_bytes base (drop_paths (fst ` set v) d) \<le> mx \<or> v = filter (\<lambda>e. \<not> keeps keep e) so"
proof -
  define es where "es = scan_entries io d (walk d (base @ [''objects'']))"
  define so where "so = sort_key (\<lambda>(_, _, mtime). mtime) es"
  define v where "v = (if mx = 0 then [] else victims io mx keep so (entries_total es))"
  note V = evict_oldest_victims [OF assms(1), where io = io and mx = mx and keep = keep, folded es_def, folded so_def,
      folded v_def]
  have sub: "fst ` set v \<subseteq> cached_files base d" using V(2) by blast
  note D = cached_bytes_drop [OF finite_cached_files [OF assms(1)] sub]
  have walk: "set (walk d (base @ [''objects''])) = cached_files base d"
      "distinct (walk d (base @ [''objects'']))"
    using assms(1) by (auto simp: walk_ok_def cached_files_def)
  have es: "es = map (\<lambda>p. (p, file_size d p, file_mtime d p)) (walk d (base @ [''objects'']))"
    unfolding es_def by (rule scan_entries_all) (use assms(2) walk(1) in \<open>auto simp: cached_files_def\<close>)
  have tot: "entries_total es = cached_bytes base d"
    unfolding entries_total_eq es cached_bytes_def walk(1) [symmetric]
    by (simp add: comp_def sum_list_distinct_conv_sum_set [OF walk(2)])
  have so: "set so = entry_of d ` cached_files base d"
    by (simp add: so_def es walk(1) entry_of_def)
  have "(\<lambda>(_, _, mtime). mtime) = e_mtime" by (rule ext) (auto simp: e_mtime_def)
  then have sorted: "sorted (map e_mtime so)"
    unfolding so_def by (simp only: sorted_sort_key)
  have "v = victims io mx keep so (entries_total es)" using assms(3) by (simp add: v_def)
  moreover have "\<forall>e \<in> set so. io (RemoveFile (fst e))" using assms(2) by simp
  ultimately obtain n where n: "v = take n (filter (\<lambda>e. \<not> keeps keep e) so)"
    and b: "entries_total es - sum_list (map e_size v) \<le> mx \<or> v = filter (\<lambda>e. \<not> keeps keep e) so"
    using victims_take [of so io mx keep "entries_total es"] by metis
  have "cached_bytes base (drop_paths (fst ` set v) d) \<le> mx \<or> v = filter (\<lambda>e. \<not> keeps keep e) so"
    using b D(2) V(3) tot by auto
  with that [OF so sorted n _ sub] V(1) show thesis by simp
qed

text \<open>A removed object is no younger than one that stays.\<close>

lemma taken_is_older:
  assumes "set so = entry_of d ` C" "sorted (map e_mtime so)" "v = take n (filter (\<lambda>e. \<not> keeps keep e) so)"
    and p: "p \<in> fst ` set v" and q: "q \<in> C - fst ` set v" "last q \<noteq> keep"
  shows "file_mtime d p \<le> file_mtime d q"
proof -
  have pv: "entry_of d p \<in> set v"
    using p assms(1,3) set_take_subset by (fastforce simp: entry_of_def)
  have "entry_of d q \<in> set (filter (\<lambda>e. \<not> keeps keep e) so)"
    using q assms(1) by (auto simp: keeps_def entry_of_def)
  moreover have "entry_of d q \<notin> set v" using q(1) by (force simp: entry_of_def)
  ultimately have "e_mtime (entry_of d p) \<le> e_mtime (entry_of d q)"
    using sorted_take_le [OF sorted_filter [OF assms(2), of "\<lambda>e. \<not> keeps keep e"]] pv assms(3) by blast
  then show ?thesis by (simp add: entry_of_def)
qed

text \<open>C7. When listing and removal succeed, an enabled eviction leaves at most \<open>max_bytes\<close> in
  the cache, or nothing but the kept object; and it is first in, first out: no removed object is
  younger than an object that stays (the kept one apart).\<close>

theorem evict_bound:
  assumes "walk_ok walk d (base @ [''objects''])" and "\<forall>op. io op" and "0 < mx"
  shows "let d' = fst (evict_oldest io walk base mx keep (d, m)) in
    (cached_bytes base d' \<le> mx \<or> (\<forall>p \<in> cached_files base d'. last p = keep))
    \<and> (\<forall>p \<in> cached_files base d - cached_files base d'. \<forall>q \<in> cached_files base d'.
         last q \<noteq> keep \<longrightarrow> file_mtime d p \<le> file_mtime d q)"
proof -
  obtain n so v where so: "set so = entry_of d ` cached_files base d" "sorted (map e_mtime so)"
      "v = take n (filter (\<lambda>e. \<not> keeps keep e) so)"
    and d': "fst (evict_oldest io walk base mx keep (d, m)) = drop_paths (fst ` set v) d"
    and sub: "fst ` set v \<subseteq> cached_files base d"
    and b: "cached_bytes base (drop_paths (fst ` set v) d) \<le> mx \<or> v = filter (\<lambda>e. \<not> keeps keep e) so"
    by (rule evict_takes_oldest [OF assms])
  have "last p = keep" if v: "v = filter (\<lambda>e. \<not> keeps keep e) so"
    and p: "p \<in> cached_files base d - fst ` set v" for p
  proof (rule ccontr)
    assume "last p \<noteq> keep"
    then have "entry_of d p \<in> set v" using v so(1) p by (auto simp: keeps_def entry_of_def)
    then show False using p by (force simp: entry_of_def)
  qed
  with b taken_is_older [OF so] show ?thesis
    unfolding d' Let_def cached_bytes_drop(1) [OF finite_cached_files [OF assms(1)] sub] by blast
qed

text \<open>A cache with two objects of two bytes each, one old and one new.\<close>

definition demo_disk :: disk where
  "demo_disk = [[''c'', ''objects'', ''x''] \<mapsto> (''ab'', 5), [''c'', ''objects'', ''y''] \<mapsto> (''cd'', 9)]"

lemma demo_walk: "walk_ok (\<lambda>_ _. [[''c'', ''objects'', ''x''], [''c'', ''objects'', ''y'']])
    demo_disk ([''c''] @ [''objects''])"
  by (auto simp: walk_ok_def demo_disk_def strict_prefix_def prefix_def)

theorem evict_safe_witness:
  "case evict_oldest (\<lambda>_. False) (\<lambda>_ _. [[''c'', ''objects'', ''x''], [''c'', ''objects'', ''y'']])
      [''c''] 3 ''y'' (demo_disk, metrics_init) of (d', m') \<Rightarrow>
     d' [''c'', ''objects'', ''y''] = Some (''cd'', 9)"
proof -
  obtain d' m' where e: "evict_oldest (\<lambda>_. False)
      (\<lambda>_ _. [[''c'', ''objects'', ''x''], [''c'', ''objects'', ''y'']])
      [''c''] 3 ''y'' (demo_disk, metrics_init) = (d', m')" by fastforce
  have "\<forall>p. d' p = demo_disk p \<or> (d' p = None \<and> p \<in> cached_files [''c''] demo_disk \<and> last p \<noteq> ''y'')"
    using evict_safe [OF demo_walk, where io = "\<lambda>_. False" and mx = 3 and keep = "''y''"
        and m = metrics_init] e by simp
  from this [rule_format, of "[''c'', ''objects'', ''y'']"] show ?thesis
    using e by (simp add: demo_disk_def)
qed

theorem evict_bound_witness:
  "let d' = fst (evict_oldest (\<lambda>_. True)
       (\<lambda>_ _. [[''c'', ''objects'', ''x''], [''c'', ''objects'', ''y'']])
       [''c''] 3 ''z'' (demo_disk, metrics_init))
   in cached_bytes [''c''] d' \<le> 3 \<or> (\<forall>p \<in> cached_files [''c''] d'. last p = ''z'')"
  using evict_bound [OF demo_walk, where io = "\<lambda>_. True" and mx = 3 and keep = "''z''" and m = metrics_init]
  by (auto simp: Let_def)

end
