(* ===== verification/Bfs_Multipart.thy ===== *)
theory Bfs_Multipart
  imports Bfs_Client Bfs_Cache
begin

text \<open>
  Resumable multipart uploads (\<open>MultipartSession\<close> and the multipart calls of
  \<open>src/blossom/client.rs\<close>).  A session is saved as a JSON file after every part; its reader
  and writer are parameters, related by the hypothesis \<open>codec_ok\<close> (what is written is what is
  read).  Slicing the data can panic when the server announces impossible chunks; a panic is
  the outer \<open>None\<close> of the upload.  Times are \<open>u64\<close>: the expiry sum wraps in a release build.
\<close>

section \<open>Sessions\<close>

record multipart_session =
  ms_upload_id :: string
  ms_sha256 :: string
  ms_chunk_size :: nat
  ms_total_chunks :: nat
  ms_uploaded_parts :: "nat set"
  ms_created_at :: nat
  ms_expires_at :: nat

definition from_init :: "nat \<Rightarrow> multipart_init \<Rightarrow> string \<Rightarrow> multipart_session" where
  "from_init now ini sha256 =
     \<lparr>ms_upload_id = mi_upload_id ini, ms_sha256 = sha256, ms_chunk_size = mi_chunk_size ini,
      ms_total_chunks = mi_total_chunks ini, ms_uploaded_parts = {}, ms_created_at = now,
      ms_expires_at = (now + mi_expires_in ini) mod u64_max\<rparr>"

definition is_expired :: "nat \<Rightarrow> multipart_session \<Rightarrow> bool" where
  "is_expired now s \<longleftrightarrow> now > ms_expires_at s"

text \<open>The set's size is cast to \<open>u32\<close>.\<close>

definition is_complete :: "multipart_session \<Rightarrow> bool" where
  "is_complete s \<longleftrightarrow> card (ms_uploaded_parts s) mod 2 ^ 32 = ms_total_chunks s"

type_synonym files = "fs_path \<Rightarrow> bytes option"

record session_io =
  si_now :: nat
  si_ok :: "io_op \<Rightarrow> bool"
  si_ser :: "multipart_session \<Rightarrow> bytes"
  si_de :: "bytes \<Rightarrow> multipart_session option"

definition session_file :: "fs_path \<Rightarrow> string \<Rightarrow> fs_path" where
  "session_file dir sha256 = dir @ [sha256 @ ''.json'']"

definition session_save ::
  "session_io \<Rightarrow> fs_path \<Rightarrow> multipart_session \<Rightarrow> files \<Rightarrow> (client_error + unit) \<times> files" where
  "session_save io dir s fs =
     (let path = session_file dir (ms_sha256 s) in
      if \<not> si_ok io (MkdirAll dir) then (Inl ClientIo, fs)
      else if \<not> si_ok io (WriteTemp path) then (Inl ClientIo, fs)
      else (Inr (), fs(path \<mapsto> si_ser io s)))"

definition session_load ::
  "session_io \<Rightarrow> fs_path \<Rightarrow> string \<Rightarrow> files \<Rightarrow> (client_error + multipart_session option) \<times> files" where
  "session_load io dir sha256 fs =
     (let path = session_file dir sha256 in
      case fs path of
        None \<Rightarrow> (Inr None, fs)
      | Some json \<Rightarrow>
          if \<not> si_ok io (ReadFile path) then (Inl ClientIo, fs)
          else (case si_de io json of
                  None \<Rightarrow> (Inl ClientJson, fs)
                | Some s \<Rightarrow>
                    if is_expired (si_now io) s
                    then (Inr None, if si_ok io (RemoveFile path) then fs(path := None) else fs)
                    else (Inr (Some s), fs)))"

definition session_delete :: "session_io \<Rightarrow> fs_path \<Rightarrow> string \<Rightarrow> files \<Rightarrow> files" where
  "session_delete io dir sha256 fs =
     (let path = session_file dir sha256
      in if si_ok io (RemoveFile path) then fs(path := None) else fs)"

section \<open>The three calls\<close>

definition init_multipart_upload ::
  "'w cenv \<Rightarrow> string \<Rightarrow> nat \<Rightarrow> string \<Rightarrow> string \<Rightarrow> 'w \<Rightarrow> (client_error + multipart_init) \<times> 'w" where
  "init_multipart_upload E base content_length content_type auth_header w =
     call_json E (mk_request ''POST'' (base @ ''/upload/multipart'')
        [auth_line auth_header, (''Content-Type'', ''application/json'')]
        (ce_json_init_body E content_length content_type)) (ce_json_init E) w"

definition part_request :: "string \<Rightarrow> string \<Rightarrow> nat \<Rightarrow> bytes \<Rightarrow> string \<Rightarrow> request" where
  "part_request base upload_id part_number data auth_header =
     mk_request ''PUT'' (base @ ''/upload/multipart/'' @ upload_id)
       [auth_line auth_header, (''X-Part-Number'', nat_to_string part_number),
        (''Content-Type'', ''application/octet-stream'')] data"

definition upload_multipart_part ::
  "'w cenv \<Rightarrow> string \<Rightarrow> string \<Rightarrow> nat \<Rightarrow> bytes \<Rightarrow> string \<Rightarrow> 'w \<Rightarrow> (client_error + nat \<times> string) \<times> 'w" where
  "upload_multipart_part E base upload_id part_number data auth_header w =
     call_json E (part_request base upload_id part_number data auth_header) (ce_json_part E) w"

definition complete_request :: "string \<Rightarrow> string \<Rightarrow> string \<Rightarrow> request" where
  "complete_request base upload_id auth_header =
     mk_request ''POST'' (base @ ''/upload/multipart/'' @ upload_id @ ''/complete'')
       [auth_line auth_header, (''Content-Type'', ''application/json'')] ''{}''"

definition complete_multipart_upload ::
  "'w cenv \<Rightarrow> string \<Rightarrow> string \<Rightarrow> string \<Rightarrow> 'w \<Rightarrow> (client_error + blob_descriptor) \<times> 'w" where
  "complete_multipart_upload E base upload_id auth_header w =
     call_json E (complete_request base upload_id auth_header) (ce_json_descriptor E) w"

section \<open>The upload\<close>

text \<open>\<open>data[offset..end]\<close> for one part; \<open>None\<close> is the panic for an offset past the end.\<close>

definition part_chunk :: "bytes \<Rightarrow> nat \<Rightarrow> nat \<Rightarrow> bytes option" where
  "part_chunk data chunk_size part_num =
     (let offset = (part_num - 1) * chunk_size;
          end' = min (offset + chunk_size) (length data)
      in if offset \<le> end' then Some (take (end' - offset) (drop offset data)) else None)"

fun upload_parts ::
  "'w cenv \<Rightarrow> session_io \<Rightarrow> string \<Rightarrow> bytes \<Rightarrow> string \<Rightarrow> fs_path option \<Rightarrow> nat list
     \<Rightarrow> multipart_session \<Rightarrow> 'w \<times> files
     \<Rightarrow> ((client_error + multipart_session) \<times> 'w \<times> files) option" where
  "upload_parts E io base data auth dir [] s st = Some (Inr s, st)"
| "upload_parts E io base data auth dir (part_num # ps) s st =
     (if part_num \<in> ms_uploaded_parts s then upload_parts E io base data auth dir ps s st
      else
        (case part_chunk data (ms_chunk_size s) part_num of
           None \<Rightarrow> None
         | Some chunk \<Rightarrow>
             (case st of (w, fs) \<Rightarrow>
               (case upload_multipart_part E base (ms_upload_id s) part_num chunk auth w of
                  (Inl e, w') \<Rightarrow> Some (Inl e, w', fs)
                | (Inr _, w') \<Rightarrow>
                    let s' = s\<lparr>ms_uploaded_parts := insert part_num (ms_uploaded_parts s)\<rparr>;
                        fs' = (case dir of None \<Rightarrow> fs | Some d \<Rightarrow> snd (session_save io d s' fs))
                    in upload_parts E io base data auth dir ps s' (w', fs')))))"

definition open_session ::
  "'w cenv \<Rightarrow> session_io \<Rightarrow> string \<Rightarrow> bytes \<Rightarrow> string \<Rightarrow> string \<Rightarrow> fs_path option \<Rightarrow> string
     \<Rightarrow> 'w \<times> files \<Rightarrow> (client_error + multipart_session) \<times> 'w \<times> files" where
  "open_session E io base data content_type auth dir sha256_hex st =
     (case st of (w, fs) \<Rightarrow>
        (case dir of
           Some d \<Rightarrow>
             (case session_load io d sha256_hex fs of
                (Inl e, fs1) \<Rightarrow> (Inl e, w, fs1)
              | (Inr (Some existing), fs1) \<Rightarrow> (Inr existing, w, fs1)
              | (Inr None, fs1) \<Rightarrow>
                  (case init_multipart_upload E base (length data) content_type auth w of
                     (Inl e, w') \<Rightarrow> (Inl e, w', fs1)
                   | (Inr ini, w') \<Rightarrow>
                       let s = from_init (si_now io) ini sha256_hex in
                       (case session_save io d s fs1 of
                          (Inl e, fs2) \<Rightarrow> (Inl e, w', fs2)
                        | (Inr _, fs2) \<Rightarrow> (Inr s, w', fs2))))
         | None \<Rightarrow>
             (case init_multipart_upload E base (length data) content_type auth w of
                (Inl e, w') \<Rightarrow> (Inl e, w', fs)
              | (Inr ini, w') \<Rightarrow> (Inr (from_init (si_now io) ini sha256_hex), w', fs))))"

definition upload_blob_multipart_resumable ::
  "'w cenv \<Rightarrow> session_io \<Rightarrow> string \<Rightarrow> bytes \<Rightarrow> string \<Rightarrow> string \<Rightarrow> fs_path option \<Rightarrow> string option
     \<Rightarrow> 'w \<times> files \<Rightarrow> ((client_error + blob_descriptor) \<times> 'w \<times> files) option" where
  "upload_blob_multipart_resumable E io base data content_type auth session_dir sha256 st =
     (let sha256_hex = (case sha256 of None \<Rightarrow> [] | Some s \<Rightarrow> s);
          dir = map_option (\<lambda>p. p @ [''multipart_sessions'']) session_dir
      in case open_session E io base data content_type auth dir sha256_hex st of
           (Inl e, st1) \<Rightarrow> Some (Inl e, st1)
         | (Inr s, st1) \<Rightarrow>
             (case upload_parts E io base data auth dir [1..<ms_total_chunks s + 1] s st1 of
                None \<Rightarrow> None
              | Some (Inl e, st2) \<Rightarrow> Some (Inl e, st2)
              | Some (Inr s', (w, fs)) \<Rightarrow>
                  (case complete_multipart_upload E base (ms_upload_id s') auth w of
                     (Inl e, w') \<Rightarrow> Some (Inl e, w', fs)
                   | (Inr d, w') \<Rightarrow>
                       Some (Inr d, w',
                         (case dir of None \<Rightarrow> fs
                          | Some dd \<Rightarrow> session_delete io dd sha256_hex fs)))))"

definition upload_blob_multipart ::
  "'w cenv \<Rightarrow> session_io \<Rightarrow> string \<Rightarrow> bytes \<Rightarrow> string \<Rightarrow> string \<Rightarrow> 'w \<times> files
     \<Rightarrow> ((client_error + blob_descriptor) \<times> 'w \<times> files) option" where
  "upload_blob_multipart E io base data content_type auth st =
     upload_blob_multipart_resumable E io base data content_type auth None None st"

section \<open>The parts cover the data\<close>

definition chunks_fit :: "bytes \<Rightarrow> nat \<Rightarrow> nat \<Rightarrow> bool" where
  "chunks_fit data cs n \<longleftrightarrow> (n = 0 \<or> (n - 1) * cs \<le> length data) \<and> length data \<le> n * cs"

lemma part_chunk_Some:
  assumes "(p - 1) * cs \<le> length data"
  shows "part_chunk data cs p = Some (take cs (drop ((p - 1) * cs) data))"
  using assms by (auto simp: part_chunk_def Let_def min_def)

lemma concat_chunks:
  "concat (map (\<lambda>p. take cs (drop ((p - 1) * cs) data)) [1..<n + 1]) = take (n * cs) data"
proof (induction n)
  case (Suc n)
  have "take (Suc n * cs) data = take (n * cs) data @ take cs (drop (n * cs) data)"
    by (metis add.commute mult_Suc take_add)
  with Suc show ?case by simp
qed simp

text \<open>A world that logs every request; the server accepts every part.\<close>

definition logs :: "request list cenv \<Rightarrow> bool" where
  "logs E \<longleftrightarrow> (\<forall>rq w. snd (ce_http E rq w) = w @ [rq])"

definition accepts :: "request list cenv \<Rightarrow> request \<Rightarrow> (bytes \<Rightarrow> 'a option) \<Rightarrow> bool" where
  "accepts E rq parse \<longleftrightarrow> (\<forall>w. \<exists>resp body. fst (ce_http E rq w) = Inr resp
     \<and> is_success (rs_status resp) \<and> rs_body resp = Inr body \<and> parse body \<noteq> None)"

lemma call_json_accepted:
  assumes "logs E" "accepts E rq parse"
  shows "\<exists>a. call_json E rq parse w = (Inr a, w @ [rq])"
proof -
  from assms(2) obtain resp body a where "fst (ce_http E rq w) = Inr resp"
    "is_success (rs_status resp)" "rs_body resp = Inr body" "parse body = Some a"
    unfolding accepts_def by blast
  moreover have "snd (ce_http E rq w) = w @ [rq]" using assms(1) by (simp add: logs_def)
  ultimately show ?thesis by (cases "ce_http E rq w") (simp add: call_json_def)
qed

definition part_requests :: "string \<Rightarrow> bytes \<Rightarrow> string \<Rightarrow> multipart_session \<Rightarrow> nat list \<Rightarrow> request list" where
  "part_requests base data auth s ps =
     map (\<lambda>p. part_request base (ms_upload_id s) p
                (take (ms_chunk_size s) (drop ((p - 1) * ms_chunk_size s) data)) auth)
       (filter (\<lambda>p. p \<notin> ms_uploaded_parts s) ps)"

lemma upload_parts_log:
  assumes l: "logs E"
    and acc: "\<And>p c. accepts E (part_request base (ms_upload_id s) p c auth) (ce_json_part E)"
  shows "distinct ps \<Longrightarrow> (\<forall>p \<in> set ps. (p - 1) * ms_chunk_size s \<le> length data) \<Longrightarrow>
    \<exists>fs'. upload_parts E io base data auth dir ps s (w, fs)
      = Some (Inr (s\<lparr>ms_uploaded_parts := ms_uploaded_parts s \<union> set ps\<rparr>),
              w @ part_requests base data auth s ps, fs')"
  using acc
proof (induction ps arbitrary: s w fs)
  case Nil
  then show ?case by (simp add: part_requests_def)
next
  case (Cons p ps)
  show ?case
  proof (cases "p \<in> ms_uploaded_parts s")
    case True
    with Cons.IH [of s w fs] Cons.prems show ?thesis
      by (simp add: part_requests_def insert_absorb)
  next
    case False
    define c where "c = take (ms_chunk_size s) (drop ((p - 1) * ms_chunk_size s) data)"
    have c: "part_chunk data (ms_chunk_size s) p = Some c"
      using Cons.prems(2) by (simp add: part_chunk_Some c_def)
    obtain a where a: "upload_multipart_part E base (ms_upload_id s) p c auth w
        = (Inr a, w @ [part_request base (ms_upload_id s) p c auth])"
      using call_json_accepted [OF l Cons.prems(3)] unfolding upload_multipart_part_def by blast
    define s' where "s' = s\<lparr>ms_uploaded_parts := insert p (ms_uploaded_parts s)\<rparr>"
    define fs1 where "fs1 = (case dir of None \<Rightarrow> fs | Some d \<Rightarrow> snd (session_save io d s' fs))"
    have step: "upload_parts E io base data auth dir (p # ps) s (w, fs)
        = upload_parts E io base data auth dir ps s'
            (w @ [part_request base (ms_upload_id s) p c auth], fs1)"
      using False a c by (cases dir) (simp_all add: s'_def fs1_def Let_def)
    have "\<exists>fs'. upload_parts E io base data auth dir ps s'
          (w @ [part_request base (ms_upload_id s) p c auth], fs1)
        = Some (Inr (s'\<lparr>ms_uploaded_parts := ms_uploaded_parts s' \<union> set ps\<rparr>),
           (w @ [part_request base (ms_upload_id s) p c auth]) @ part_requests base data auth s' ps, fs')"
      by (rule Cons.IH) (use Cons.prems in \<open>auto simp: s'_def\<close>)
    then obtain fs' where r: "upload_parts E io base data auth dir ps s'
          (w @ [part_request base (ms_upload_id s) p c auth], fs1)
        = Some (Inr (s'\<lparr>ms_uploaded_parts := ms_uploaded_parts s' \<union> set ps\<rparr>),
           (w @ [part_request base (ms_upload_id s) p c auth]) @ part_requests base data auth s' ps, fs')"
      by blast
    have "part_requests base data auth s' ps = part_requests base data auth s ps"
      using Cons.prems(1) unfolding part_requests_def s'_def
      by (auto intro!: arg_cong [where f = "map _"] filter_cong)
    then show ?thesis
      unfolding step r using False
      by (intro exI [of _ fs']) (simp add: s'_def part_requests_def c_def)
  qed
qed

text \<open>The parts a session still has to send are the data's missing chunks.\<close>

lemma parts_missing_cover:
  assumes "chunks_fit data cs n"
  shows "concat (map (\<lambda>p. take cs (drop ((p - 1) * cs) data)) [1..<n + 1]) = data"
  using assms unfolding concat_chunks by (simp add: chunks_fit_def)

lemma session_save_load:
  assumes "si_de io (si_ser io s) = Some s" "\<not> is_expired (si_now io) s"
    and "si_ok io (ReadFile (session_file dir (ms_sha256 s)))"
    and "session_save io dir s fs = (Inr (), fs')"
  shows "session_load io dir (ms_sha256 s) fs' = (Inr (Some s), fs')"
  using assms by (auto simp: session_save_def session_load_def Let_def split: if_splits)

lemma finish_upload:
  assumes l: "logs E"
    and acc: "\<And>p c. accepts E (part_request base (ms_upload_id s) p c auth) (ce_json_part E)"
      "accepts E (complete_request base (ms_upload_id s) auth) (ce_json_descriptor E)"
    and o: "open_session E io base data ct auth (map_option (\<lambda>p. p @ [''multipart_sessions'']) dir)
              (case sha of None \<Rightarrow> [] | Some h \<Rightarrow> h) (w, fs) = (Inr s, w1, fs1)"
    and fit: "chunks_fit data (ms_chunk_size s) (ms_total_chunks s)"
  shows "\<exists>d fs'. upload_blob_multipart_resumable E io base data ct auth dir sha (w, fs)
    = Some (Inr d, w1 @ part_requests base data auth s [1..<ms_total_chunks s + 1]
              @ [complete_request base (ms_upload_id s) auth], fs')"
proof -
  have "\<forall>p \<in> set [1..<ms_total_chunks s + 1]. (p - 1) * ms_chunk_size s \<le> length data"
  proof
    fix p assume "p \<in> set [1..<ms_total_chunks s + 1]"
    then have "p - 1 \<le> ms_total_chunks s - 1" "ms_total_chunks s \<noteq> 0" by auto
    then have "(p - 1) * ms_chunk_size s \<le> (ms_total_chunks s - 1) * ms_chunk_size s"
      by (simp add: mult_le_mono1)
    also have "\<dots> \<le> length data" using fit \<open>ms_total_chunks s \<noteq> 0\<close> by (simp add: chunks_fit_def)
    finally show "(p - 1) * ms_chunk_size s \<le> length data" .
  qed
  from upload_parts_log [OF l acc(1) distinct_upt this, of io
      "map_option (\<lambda>p. p @ [''multipart_sessions'']) dir" w1 fs1] obtain fs2 where
    u: "upload_parts E io base data auth (map_option (\<lambda>p. p @ [''multipart_sessions'']) dir)
          [1..<ms_total_chunks s + 1] s (w1, fs1)
        = Some (Inr (s\<lparr>ms_uploaded_parts := ms_uploaded_parts s \<union> set [1..<ms_total_chunks s + 1]\<rparr>),
                w1 @ part_requests base data auth s [1..<ms_total_chunks s + 1], fs2)" by blast
  obtain d where d: "complete_multipart_upload E base (ms_upload_id s) auth
      (w1 @ part_requests base data auth s [1..<ms_total_chunks s + 1])
    = (Inr d, (w1 @ part_requests base data auth s [1..<ms_total_chunks s + 1])
        @ [complete_request base (ms_upload_id s) auth])"
    using call_json_accepted [OF l acc(2)] unfolding complete_multipart_upload_def by blast
  show ?thesis
    using o u d
    by (auto simp: upload_blob_multipart_resumable_def Let_def simp del: upt_Suc)
qed

text \<open>C19. Resuming an interrupted multipart upload: when a session that was saved after some
  of its parts is found again, no new session is opened; each part not yet uploaded is sent once,
  in order, with exactly its chunk of the data, and none of the others; then the upload is
  completed. The chunks of all parts concatenated are the data.\<close>

theorem multipart_resume:
  assumes saved: "session_save io (dir @ [''multipart_sessions'']) s fs0 = (Inr (), fs)"
    and codec: "si_de io (si_ser io s) = Some s" and live: "\<not> is_expired (si_now io) s"
    and readable: "si_ok io (ReadFile (session_file (dir @ [''multipart_sessions'']) (ms_sha256 s)))"
    and server: "logs E"
      "\<And>p c. accepts E (part_request base (ms_upload_id s) p c auth) (ce_json_part E)"
      "accepts E (complete_request base (ms_upload_id s) auth) (ce_json_descriptor E)"
    and fit: "chunks_fit data (ms_chunk_size s) (ms_total_chunks s)"
  shows "(\<exists>d fs'. upload_blob_multipart_resumable E io base data ct auth (Some dir)
            (Some (ms_sha256 s)) (w, fs)
          = Some (Inr d, w @ part_requests base data auth s [1..<ms_total_chunks s + 1]
                    @ [complete_request base (ms_upload_id s) auth], fs'))
    \<and> concat (map (\<lambda>p. take (ms_chunk_size s) (drop ((p - 1) * ms_chunk_size s) data))
         [1..<ms_total_chunks s + 1]) = data"
proof -
  have "open_session E io base data ct auth (map_option (\<lambda>p. p @ [''multipart_sessions'']) (Some dir))
      (case Some (ms_sha256 s) of None \<Rightarrow> [] | Some h \<Rightarrow> h) (w, fs) = (Inr s, w, fs)"
    using session_save_load [OF codec live readable saved] by (simp add: open_session_def)
  from finish_upload [OF server this fit] parts_missing_cover [OF fit] show ?thesis by blast
qed

definition demo_session :: multipart_session where
  "demo_session = \<lparr>ms_upload_id = ''u'', ms_sha256 = ''h'', ms_chunk_size = 2, ms_total_chunks = 2,
     ms_uploaded_parts = {1}, ms_created_at = 0, ms_expires_at = 60\<rparr>"

definition demo_sio :: session_io where
  "demo_sio = \<lparr>si_now = 1, si_ok = (\<lambda>_. True), si_ser = (\<lambda>_. ''s''), si_de = (\<lambda>_. Some demo_session)\<rparr>"

theorem multipart_resume_witness:
  "\<exists>d fs'. upload_blob_multipart_resumable demo_cenv demo_sio ''http://s'' ''abc'' ''t'' ''a''
      (Some [''c'']) (Some ''h'') ([], [[''c'', ''multipart_sessions'', ''h.json''] \<mapsto> ''s''])
    = Some (Inr d, [part_request ''http://s'' ''u'' 2 ''c'' ''a'',
                    complete_request ''http://s'' ''u'' ''a''], fs')"
proof -
  have 1: "session_save demo_sio ([''c''] @ [''multipart_sessions'']) demo_session Map.empty
      = (Inr (), [[''c'', ''multipart_sessions'', ''h.json''] \<mapsto> ''s''])"
    by (simp add: session_save_def demo_sio_def demo_session_def session_file_def)
  have 2: "si_de demo_sio (si_ser demo_sio demo_session) = Some demo_session"
    "\<not> is_expired (si_now demo_sio) demo_session"
    "si_ok demo_sio (ReadFile (session_file ([''c''] @ [''multipart_sessions'']) (ms_sha256 demo_session)))"
    by (simp_all add: demo_sio_def is_expired_def demo_session_def)
  have 3: "logs demo_cenv" by (simp add: logs_def demo_cenv_def)
  have 4: "accepts demo_cenv rq (ce_json_part demo_cenv)"
    "accepts demo_cenv rq (ce_json_descriptor demo_cenv)" for rq
    by (simp_all add: accepts_def demo_cenv_def is_success_def)
  have 5: "chunks_fit ''abc'' (ms_chunk_size demo_session) (ms_total_chunks demo_session)"
    by (simp add: chunks_fit_def demo_session_def)
  have "part_requests ''http://s'' ''abc'' ''a'' demo_session [1..<3]
      = [part_request ''http://s'' ''u'' 2 ''c'' ''a'']"
    by (simp add: part_requests_def demo_session_def upt_rec numeral_2_eq_2)
  with multipart_resume [OF 1 2 3 4 5, of "''http://s''" "''t''" "''a''" "[]"] show ?thesis
    by (simp add: demo_session_def)
qed

text \<open>A server that announces more chunks than the data has makes the slice panic.\<close>

lemma multipart_panics: "part_chunk ''abc'' 2 4 = None"
  by (simp add: part_chunk_def)

end
