(* ===== verification/Bfs_WriteBuffer.thy ===== *)
theory Bfs_WriteBuffer
  imports Bfs_Prelude
begin

text \<open>
  Write buffers of \<open>src/fuse/fs.rs\<close>: where written bytes are kept (memory, or a temporary
  file once a threshold is passed), and the body of the \<open>write\<close> callback.  The SHA-256 state
  is the sequence of bytes fed to it.  Offsets and lengths are natural numbers: the kernel
  passes a \<open>loff_t\<close> and a 32-bit length, so their sum does not overflow \<open>usize\<close>.
  Creating the temporary file may fail (the code panics); seeking and writing in it are taken
  to succeed.
\<close>

datatype errno =
    ENOENT | EISDIR | EIO | EROFS | ENOTDIR | EEXIST | EACCES | EBADF | EFBIG | EINVAL
  | ENOTEMPTY | ENOSYS | ENODATA | ERANGE

datatype write_storage =
    Memory bytes
  | Disk (disk_file: bytes) (disk_written: nat)

definition storage_len :: "write_storage \<Rightarrow> nat" where
  "storage_len s = (case s of Memory v \<Rightarrow> length v | Disk _ n \<Rightarrow> n)"

text \<open>\<open>read_all\<close>: the temporary file is read to its end; \<open>ok\<close> says whether the I/O succeeds.\<close>

definition read_all :: "bool \<Rightarrow> write_storage \<Rightarrow> bytes option" where
  "read_all ok s = (case s of Memory v \<Rightarrow> Some v | Disk f _ \<Rightarrow> if ok then Some f else None)"

record write_buffer =
  wb_ino :: nat
  wb_parent :: nat
  wb_name :: string
  wb_storage :: write_storage
  wb_hashed :: bytes
  wb_flushed :: bool
  wb_append :: bool

definition zeros :: "nat \<Rightarrow> bytes" where
  "zeros n = replicate n (CHR 0x00)"

text \<open>\<open>Vec::resize\<close> followed by \<open>copy_from_slice\<close>.\<close>

definition vec_write :: "bytes \<Rightarrow> nat \<Rightarrow> bytes \<Rightarrow> bytes" where
  "vec_write v off data =
     (let end' = off + length data;
          v' = (if length v < end' then v @ zeros (end' - length v) else v)
      in take off v' @ data @ drop end' v')"

text \<open>Seeking in a file and writing: nothing is written for no data, a gap reads as zeros.\<close>

definition file_write :: "bytes \<Rightarrow> nat \<Rightarrow> bytes \<Rightarrow> bytes" where
  "file_write f off data = (if data = [] then f else vec_write f off data)"

text \<open>The outer \<open>None\<close> is the panic when the spill file cannot be created.\<close>

definition buf_write ::
  "nat \<Rightarrow> nat \<Rightarrow> bool \<Rightarrow> nat \<Rightarrow> bytes \<Rightarrow> write_buffer \<Rightarrow> (errno + write_buffer) option" where
  "buf_write max_write_bytes spill_threshold temp_ok offset data buf =
     (let effective_offset = (if wb_append buf then storage_len (wb_storage buf) else offset);
          end' = effective_offset + length data
      in if end' > max_write_bytes then Some (Inl EFBIG)
         else
           let buf1 = buf\<lparr>wb_hashed := wb_hashed buf @ data\<rparr> in
           (case wb_storage buf of
              Memory v \<Rightarrow>
                if end' > spill_threshold then
                  (if \<not> temp_ok then None
                   else
                     let temp = (if length v < effective_offset
                                 then v @ zeros (effective_offset - length v) else v) @ data
                     in Some (Inr (buf1\<lparr>wb_storage := Disk temp end'\<rparr>)))
                else Some (Inr (buf1\<lparr>wb_storage := Memory (vec_write v effective_offset data)\<rparr>))
            | Disk f _ \<Rightarrow>
                Some (Inr (buf1\<lparr>wb_storage := Disk (file_write f effective_offset data) end'\<rparr>))))"

section \<open>Content\<close>

definition content_of :: "write_storage \<Rightarrow> bytes" where
  "content_of s = (case s of Memory v \<Rightarrow> v | Disk f _ \<Rightarrow> f)"

text \<open>The contract: POSIX \<open>pwrite\<close> on a byte sequence.\<close>

definition pwrite :: "bytes \<Rightarrow> nat \<Rightarrow> bytes \<Rightarrow> bytes" where
  "pwrite c off data =
     map (\<lambda>i. if off \<le> i \<and> i < off + length data then data ! (i - off)
              else if i < length c then c ! i else CHR 0x00)
       [0..<max (length c) (off + length data)]"

lemma length_zeros [simp]: "length (zeros n) = n"
  by (simp add: zeros_def)

lemma zeros_0 [simp]: "zeros 0 = []"
  by (simp add: zeros_def)

lemma take_zeros [simp]: "take m (zeros n) = zeros (min m n)"
  by (simp add: zeros_def)

lemma zeros_nth [simp]: "i < n \<Longrightarrow> zeros n ! i = CHR 0x00"
  by (simp add: zeros_def)

lemma length_vec_write [simp]: "length (vec_write v off data) = max (length v) (off + length data)"
  by (auto simp: vec_write_def Let_def)

lemma vec_write_pwrite: "vec_write v off data = pwrite v off data"
proof (rule nth_equalityI)
  show "length (vec_write v off data) = length (pwrite v off data)"
    by (simp add: pwrite_def)
  fix i assume "i < length (vec_write v off data)"
  then show "vec_write v off data ! i = pwrite v off data ! i"
    by (auto simp: vec_write_def pwrite_def Let_def nth_append)
qed

lemma vec_write_end: "vec_write v (length v) data = v @ data"
  by (simp add: vec_write_def Let_def)

lemma pwrite_past_end: "length v \<le> off \<Longrightarrow> pwrite v off data = v @ zeros (off - length v) @ data"
  unfolding vec_write_pwrite [symmetric] by (simp add: vec_write_def Let_def)

lemma pwrite_empty_inside: "off \<le> length v \<Longrightarrow> pwrite v off [] = v"
  unfolding vec_write_pwrite [symmetric] by (simp add: vec_write_def Let_def)

definition write_at :: "write_buffer \<Rightarrow> nat \<Rightarrow> nat" where
  "write_at buf offset = (if wb_append buf then storage_len (wb_storage buf) else offset)"

definition spills :: "nat \<Rightarrow> nat \<Rightarrow> bytes \<Rightarrow> write_buffer \<Rightarrow> bool" where
  "spills spill offset data buf \<longleftrightarrow>
     (case wb_storage buf of Memory _ \<Rightarrow> spill < write_at buf offset + length data | Disk _ _ \<Rightarrow> False)"

lemma buf_write_Inr:
  assumes "buf_write mx spill ok offset data buf = Some (Inr buf')"
  shows "write_at buf offset + length data \<le> mx"
    "wb_hashed buf' = wb_hashed buf @ data"
    "wb_ino buf' = wb_ino buf" "wb_parent buf' = wb_parent buf" "wb_name buf' = wb_name buf"
    "wb_flushed buf' = wb_flushed buf" "wb_append buf' = wb_append buf"
  using assms
  by (auto simp: buf_write_def write_at_def Let_def split: if_splits write_storage.splits)

lemma buf_write_content:
  assumes w: "buf_write mx spill ok offset data buf = Some (Inr buf')"
    and off: "spills spill offset data buf \<Longrightarrow> length (content_of (wb_storage buf)) \<le> write_at buf offset"
    and ne: "data \<noteq> [] \<or> write_at buf offset \<le> length (content_of (wb_storage buf))"
  shows "content_of (wb_storage buf') = pwrite (content_of (wb_storage buf)) (write_at buf offset) data"
proof (cases "wb_storage buf")
  case (Memory v)
  show ?thesis
  proof (cases "spill < write_at buf offset + length data")
    case True
    then have "length v \<le> write_at buf offset"
      using off Memory by (simp add: spills_def content_of_def)
    then show ?thesis
      using w Memory True
      by (auto simp: buf_write_def Let_def write_at_def [symmetric] content_of_def pwrite_past_end
          split: if_splits)
  next
    case False
    then show ?thesis
      using w Memory
      by (auto simp: buf_write_def Let_def write_at_def [symmetric] content_of_def
          vec_write_pwrite split: if_splits)
  qed
next
  case (Disk f n)
  then show ?thesis
    using w ne
    by (auto simp: buf_write_def Let_def write_at_def [symmetric] content_of_def file_write_def
        vec_write_pwrite pwrite_empty_inside split: if_splits)
qed


definition new_buffer :: "nat \<Rightarrow> nat \<Rightarrow> string \<Rightarrow> bytes \<Rightarrow> bool \<Rightarrow> write_buffer" where
  "new_buffer ino parent name initial append' =
     \<lparr>wb_ino = ino, wb_parent = parent, wb_name = name, wb_storage = Memory initial,
      wb_hashed = initial, wb_flushed = False, wb_append = append'\<rparr>"


section \<open>Sequential writing\<close>

text \<open>Hash state, content and announced length agree.\<close>

definition in_step :: "write_buffer \<Rightarrow> bool" where
  "in_step b \<longleftrightarrow> wb_hashed b = content_of (wb_storage b)
     \<and> storage_len (wb_storage b) = length (content_of (wb_storage b))"

lemma in_step_new: "in_step (new_buffer ino p nm initial ap)"
  by (simp add: in_step_def new_buffer_def content_of_def storage_len_def)

lemma buf_write_sequential:
  assumes s: "in_step buf" and w: "buf_write mx spill ok offset data buf = Some (Inr buf')"
    and at: "write_at buf offset = storage_len (wb_storage buf)"
  shows "in_step buf' \<and> content_of (wb_storage buf') = content_of (wb_storage buf) @ data"
proof -
  have len: "write_at buf offset = length (content_of (wb_storage buf))"
    using s at by (simp add: in_step_def)
  have c: "content_of (wb_storage buf') = content_of (wb_storage buf) @ data"
    using buf_write_content [OF w] len
    by (simp add: pwrite_past_end zeros_def)
  moreover have "storage_len (wb_storage buf') = length (content_of (wb_storage buf)) + length data"
    using w len
    by (auto simp: buf_write_def Let_def write_at_def [symmetric] storage_len_def content_of_def
        split: if_splits write_storage.splits)
  ultimately show ?thesis
    using s buf_write_Inr(2) [OF w] by (simp add: in_step_def)
qed

text \<open>A run of writes, each at its offset; it stops at the first error.\<close>

fun write_run ::
  "nat \<Rightarrow> nat \<Rightarrow> bool \<Rightarrow> (nat \<times> bytes) list \<Rightarrow> write_buffer \<Rightarrow> (errno + write_buffer) option" where
  "write_run mx spill ok [] buf = Some (Inr buf)"
| "write_run mx spill ok ((off, data) # ws) buf =
     (case buf_write mx spill ok off data buf of
        None \<Rightarrow> None
      | Some (Inl e) \<Rightarrow> Some (Inl e)
      | Some (Inr buf') \<Rightarrow> write_run mx spill ok ws buf')"

fun sequential :: "nat \<Rightarrow> (nat \<times> bytes) list \<Rightarrow> bool" where
  "sequential n [] = True"
| "sequential n ((off, data) # ws) = (off = n \<and> sequential (n + length data) ws)"

lemma write_run_sequential:
  "in_step buf \<Longrightarrow> wb_append buf \<or> sequential (storage_len (wb_storage buf)) ws \<Longrightarrow>
   write_run mx spill ok ws buf = Some (Inr buf') \<Longrightarrow>
     in_step buf' \<and> content_of (wb_storage buf') = content_of (wb_storage buf) @ concat (map snd ws)"
proof (induction ws arbitrary: buf)
  case (Cons w ws)
  obtain off data where w: "w = (off, data)" by fastforce
  from Cons.prems(3) w obtain b where b: "buf_write mx spill ok off data buf = Some (Inr b)"
      and r: "write_run mx spill ok ws b = Some (Inr buf')"
    by (auto split: option.splits sum.splits)
  have "write_at buf off = storage_len (wb_storage buf)"
    using Cons.prems(2) w by (auto simp: write_at_def)
  note st = buf_write_sequential [OF Cons.prems(1) b this]
  have "storage_len (wb_storage b) = storage_len (wb_storage buf) + length data"
    using st Cons.prems(1) by (simp add: in_step_def)
  then have "wb_append b \<or> sequential (storage_len (wb_storage b)) ws"
    using Cons.prems(2) w buf_write_Inr(7) [OF b] by auto
  from Cons.IH [OF conjunct1 [OF st] this r] st w show ?case by simp
qed simp

text \<open>C25. Writing a file front to back, or through an append handle at whatever offsets, keeps
  the buffered bytes equal to everything written, in order, and the running hash equal to the
  hash of exactly those bytes - wherever the buffer spills to disk.\<close>

theorem sequential_writes_hash_content:
  assumes "ap \<or> sequential (length initial) ws"
    and "write_run mx spill ok ws (new_buffer ino p nm initial ap) = Some (Inr buf')"
  shows "content_of (wb_storage buf') = initial @ concat (map snd ws)
    \<and> wb_hashed buf' = initial @ concat (map snd ws)
    \<and> storage_len (wb_storage buf') = length (initial @ concat (map snd ws))"
  using write_run_sequential [OF in_step_new, of ino p nm initial ap ws mx spill ok buf'] assms
  by (auto simp: new_buffer_def storage_len_def content_of_def in_step_def)

theorem sequential_writes_hash_content_witness:
  "write_run 100 3 True [(0, ''ab''), (2, ''cd''), (4, ''e'')] (new_buffer 5 1 ''f'' [] False)
     = Some (Inr ((new_buffer 5 1 ''f'' [] False)\<lparr>wb_hashed := ''abcde'',
         wb_storage := Disk ''abcde'' 5\<rparr>))
   \<and> ''abcde'' = [] @ concat (map snd [(0 :: nat, ''ab''), (2, ''cd''), (4, ''e'')])"
proof -
  have r: "write_run 100 3 True [(0, ''ab''), (2, ''cd''), (4, ''e'')] (new_buffer 5 1 ''f'' [] False)
     = Some (Inr ((new_buffer 5 1 ''f'' [] False)\<lparr>wb_hashed := ''abcde'',
         wb_storage := Disk ''abcde'' 5\<rparr>))"
    by (simp add: buf_write_def new_buffer_def Let_def zeros_def vec_write_def file_write_def)
  from sequential_writes_hash_content [OF _ r] r show ?thesis by simp
qed

section \<open>Where the contract ends\<close>

text \<open>The write that spills and starts inside the buffer appends instead of overwriting.\<close>

lemma spill_overwrite_appends:
  "buf_write 100 3 True 1 ''xyz'' (new_buffer 5 1 ''f'' ''abc'' False)
     = Some (Inr ((new_buffer 5 1 ''f'' ''abc'' False)\<lparr>wb_hashed := ''abcxyz'',
         wb_storage := Disk ''abcxyz'' 4\<rparr>))
   \<and> pwrite ''abc'' 1 ''xyz'' = ''axyz''"
  by (simp add: buf_write_def new_buffer_def Let_def pwrite_def numeral_eq_Suc upt_rec)

text \<open>After an overwrite in place the running hash is not the hash of the content.\<close>

lemma overwrite_hash_differs:
  "buf_write 100 50 True 0 ''x'' (new_buffer 5 1 ''f'' ''abc'' False)
     = Some (Inr ((new_buffer 5 1 ''f'' ''abc'' False)\<lparr>wb_hashed := ''abcx'',
         wb_storage := Memory ''xbc''\<rparr>))"
  by (simp add: buf_write_def new_buffer_def Let_def vec_write_def)

text \<open>A write inside a spilled file lowers the announced length below the file's.\<close>

lemma spilled_length_shrinks:
  "buf_write 100 3 True 0 ''x'' ((new_buffer 5 1 ''f'' [] False)\<lparr>wb_storage := Disk ''abcdef'' 6\<rparr>)
     = Some (Inr ((new_buffer 5 1 ''f'' [] False)\<lparr>wb_hashed := ''x'',
         wb_storage := Disk ''xbcdef'' 1\<rparr>))"
  by (simp add: buf_write_def new_buffer_def Let_def file_write_def vec_write_def)

end
