(* ===== verification/Bfs_Upload.thy ===== *)
theory Bfs_Upload
  imports Bfs_Multipart Bfs_Tree_Inv Bfs_WriteBuffer
begin

text \<open>
  Uploading (\<open>do_upload\<close> and \<open>upload_with_retry\<close> of \<open>src/fuse/fs.rs\<close>) with the authorization
  events of \<open>src/nostr/auth.rs\<close>.  Signing, event JSON and base64 are parameters; sleeping
  between attempts and waiting for the upload permit change no state and are left out.  A
  panic (a slice of a hash that is too short, a multipart slice out of range) is \<open>None\<close>.
\<close>

section \<open>Authorization events\<close>

record auth_env =
  ae_now :: nat
  ae_sign :: "nat \<Rightarrow> string list list \<Rightarrow> string \<Rightarrow> bytes option"
  ae_b64 :: "bytes \<Rightarrow> string"

definition BLOSSOM_AUTH_KIND :: nat where "BLOSSOM_AUTH_KIND = 24242"

definition AUTH_EXPIRY_SECONDS :: nat where "AUTH_EXPIRY_SECONDS = 3600"

definition upload_auth_tags :: "nat \<Rightarrow> string \<Rightarrow> nat \<Rightarrow> string list list" where
  "upload_auth_tags now sha256_hex fsize =
     [[''t'', ''upload''], [''expiration'', nat_to_string (now + AUTH_EXPIRY_SECONDS)],
      [''x'', sha256_hex], [''size'', nat_to_string fsize]]"

definition delete_auth_tags :: "nat \<Rightarrow> string \<Rightarrow> string list list" where
  "delete_auth_tags now sha256_hex =
     [[''t'', ''delete''], [''expiration'', nat_to_string (now + AUTH_EXPIRY_SECONDS)],
      [''x'', sha256_hex]]"

definition create_upload_auth_header :: "auth_env \<Rightarrow> string \<Rightarrow> nat \<Rightarrow> string option" where
  "create_upload_auth_header A sha256_hex fsize =
     map_option (ae_b64 A) (ae_sign A BLOSSOM_AUTH_KIND (upload_auth_tags (ae_now A) sha256_hex fsize) [])"

definition create_delete_auth_header :: "auth_env \<Rightarrow> string \<Rightarrow> string option" where
  "create_delete_auth_header A sha256_hex =
     map_option (ae_b64 A) (ae_sign A BLOSSOM_AUTH_KIND (delete_auth_tags (ae_now A) sha256_hex) [])"

section \<open>Retrying\<close>

definition is_retryable_status :: "nat \<Rightarrow> bool" where
  "is_retryable_status status \<longleftrightarrow> status \<in> set [429, 500, 502, 503, 504]"

text \<open>Whether an error is tried again while attempts are left.\<close>

definition retryable :: "client_error \<Rightarrow> bool" where
  "retryable e =
     (case e of
        ServerError status _ \<Rightarrow> is_retryable_status status
      | PaymentRequired _ \<Rightarrow> False
      | ClientPayment _ \<Rightarrow> False
      | _ \<Rightarrow> True)"

text \<open>The argument counts the attempts left; \<open>None\<close> is the \<open>unreachable!\<close> after the loop.\<close>

fun upload_with_retry ::
  "'w cenv \<Rightarrow> string \<Rightarrow> bytes \<Rightarrow> string \<Rightarrow> 'w pay \<Rightarrow> nat \<Rightarrow> 'w \<times> metrics
     \<Rightarrow> ((client_error + blob_descriptor) \<times> 'w \<times> metrics) option" where
  "upload_with_retry E base data auth pay 0 st = None"
| "upload_with_retry E base data auth pay (Suc left) st =
     (case upload_blob_with_payment E base data auth pay st of
        (Inr d, st') \<Rightarrow> Some (Inr d, st')
      | (Inl e, st') \<Rightarrow>
          if retryable e \<and> left > 0 then upload_with_retry E base data auth pay left st'
          else Some (Inl e, st'))"

definition MAX_ATTEMPTS :: nat where "MAX_ATTEMPTS = 3"

section \<open>The upload\<close>

record 'w upload_env =
  ue_client :: "'w cenv"
  ue_io :: session_io
  ue_auth :: auth_env
  ue_pay :: "'w pay"
  ue_now :: nat

record upload_config =
  uc_server :: string
  uc_cache_base :: "fs_path option"
  uc_free_period :: nat
  uc_multipart_threshold :: nat

record 'w upload_state =
  us_world :: 'w
  us_files :: files
  us_metrics :: metrics
  us_tree :: tree

text \<open>The dedup branch: the blob is on the server already; its lease is extended when it would
  end before the free period.\<close>

definition dedup_extend ::
  "'w upload_env \<Rightarrow> upload_config \<Rightarrow> string \<Rightarrow> string \<Rightarrow> blob_head_info \<Rightarrow> 'w \<Rightarrow> 'w" where
  "dedup_extend U C auth sha256_hex info w =
     (let desired_expiry = (ue_now U + uc_free_period C) mod u64_max
      in if (case bh_sunset info of None \<Rightarrow> True | Some s \<Rightarrow> s < desired_expiry)
         then snd (extend_blob_with_payment (ue_client U) (client_new (uc_server C)) sha256_hex auth
                     (ue_pay U) (Some desired_expiry) w)
         else w)"

definition preflight_rejects :: "client_error + unit \<Rightarrow> bool" where
  "preflight_rejects r =
     (case r of Inl (ServerError status _) \<Rightarrow> status \<in> set [413, 415, 429] | _ \<Rightarrow> False)"

definition transfer ::
  "'w upload_env \<Rightarrow> upload_config \<Rightarrow> bytes \<Rightarrow> string \<Rightarrow> string \<Rightarrow> 'w upload_state
     \<Rightarrow> ((client_error + blob_descriptor) \<times> 'w upload_state) option" where
  "transfer U C data auth sha256_hex s =
     (let base = client_new (uc_server C);
          single = (\<lambda>s. case upload_with_retry (ue_client U) base data auth (ue_pay U) MAX_ATTEMPTS
                               (us_world s, us_metrics s) of
                          None \<Rightarrow> None
                        | Some (r, w, m) \<Rightarrow> Some (r, s\<lparr>us_world := w, us_metrics := m\<rparr>))
      in if length data > uc_multipart_threshold C then
           (case upload_blob_multipart_resumable (ue_client U) (ue_io U) base data
                   ''application/octet-stream'' auth (uc_cache_base C) (Some sha256_hex)
                   (us_world s, us_files s) of
              None \<Rightarrow> None
            | Some (Inr d, w, fs) \<Rightarrow> Some (Inr d, s\<lparr>us_world := w, us_files := fs\<rparr>)
            | Some (Inl e, w, fs) \<Rightarrow> single (s\<lparr>us_world := w, us_files := fs\<rparr>))
         else single s)"

definition set_remote ::
  "nat \<Rightarrow> string \<Rightarrow> string \<Rightarrow> string option \<Rightarrow> nat option \<Rightarrow> nat \<Rightarrow> nat \<Rightarrow> 'w upload_state \<Rightarrow> 'w upload_state"
where
  "set_remote ino url sha256 mime e sz up s =
     s\<lparr>us_tree := snd (update_file_node (us_tree s) ino (Remote url sha256 mime e) sz up)\<rparr>"

text \<open>Everything between acquiring the permit and writing the tree: the result is none on failure,
  else what the node is to hold (location, hash, type, expiry, size, upload time).\<close>

type_synonym stored_blob = "string \<times> string \<times> string option \<times> nat option \<times> nat \<times> nat"

definition upload_client ::
  "'w upload_env \<Rightarrow> upload_config \<Rightarrow> bytes \<Rightarrow> string \<Rightarrow> 'w upload_state
     \<Rightarrow> (stored_blob option \<times> 'w upload_state) option" where
  "upload_client U C data sha256_hex s =
     (case create_upload_auth_header (ue_auth U) sha256_hex (length data) of
        None \<Rightarrow> Some (None, s)
      | Some auth \<Rightarrow>
          (case head_blob_with_expiry (ue_client U) (client_new (uc_server C)) sha256_hex (us_world s) of
             (head, w) \<Rightarrow>
               let s1 = s\<lparr>us_world := w\<rparr> in
               if (case head of Inr info \<Rightarrow> bh_exists info | Inl _ \<Rightarrow> False)
               then
                 let info = projr head;
                     s2 = s1\<lparr>us_world := dedup_extend U C auth sha256_hex info (us_world s1)\<rparr>
                 in Some (Some (uc_server C @ ''/'' @ sha256_hex, sha256_hex, None,
                                bh_sunset info, length data, 0), s2)
               else
                 (case preflight_upload (ue_client U) (client_new (uc_server C)) auth sha256_hex
                         (length data) ''application/octet-stream'' (us_world s1) of
                    (pre, w') \<Rightarrow>
                      let s2 = s1\<lparr>us_world := w'\<rparr> in
                      if preflight_rejects pre then Some (None, s2)
                      else if slice_to 16 sha256_hex = None then None
                      else
                        (case transfer U C data auth sha256_hex s2 of
                           None \<Rightarrow> None
                         | Some (Inl _, s3) \<Rightarrow> Some (None, s3)
                         | Some (Inr d, s3) \<Rightarrow>
                             if slice_to 16 (bd_sha256 d) = None then None
                             else Some (Some (bd_url d, bd_sha256 d, bd_mime d, None,
                                              bd_size d, bd_uploaded d), s3)))))"

definition do_upload_inner ::
  "'w upload_env \<Rightarrow> upload_config option \<Rightarrow> nat \<Rightarrow> bytes \<Rightarrow> string \<Rightarrow> 'w upload_state
     \<Rightarrow> (bool \<times> 'w upload_state) option" where
  "do_upload_inner U cfg ino data sha256_hex s =
     (case cfg of
        None \<Rightarrow> Some (False, s)
      | Some C \<Rightarrow>
          (case upload_client U C data sha256_hex s of
             None \<Rightarrow> None
           | Some (None, s') \<Rightarrow> Some (False, s')
           | Some (Some (url, sha256, mime, e, sz, up), s') \<Rightarrow>
               Some (True, set_remote ino url sha256 mime e sz up s')))"

text \<open>The guard around the whole upload; its drop runs on every return.\<close>

definition do_upload ::
  "'w upload_env \<Rightarrow> upload_config option \<Rightarrow> nat \<Rightarrow> bytes \<Rightarrow> string \<Rightarrow> 'w upload_state
     \<Rightarrow> (bool \<times> 'w upload_state) option" where
  "do_upload U cfg ino data sha256_hex s =
     (case do_upload_inner U cfg ino data sha256_hex (s\<lparr>us_metrics := guard_new (us_metrics s)\<rparr>) of
        None \<Rightarrow> None
      | Some (ok, s') \<Rightarrow> Some (ok, s'\<lparr>us_metrics := guard_drop (us_metrics s')\<rparr>))"

section \<open>Retry laws\<close>

lemma retry_total: "0 < n \<Longrightarrow> \<exists>r. upload_with_retry E base data auth pay n st = Some r"
proof (induction n arbitrary: st)
  case (Suc n)
  then show ?case by (cases n) (auto split: prod.split sum.split)
qed simp

text \<open>Requests and payments of one paid upload, as bounds.\<close>

lemma paid_upload_counts:
  assumes "counts_calls E pay sent paid"
    and "upload_blob_with_payment E base data auth pay (w, m) = (r, w', m')"
  shows "sent w + 1 \<le> sent w'" "sent w' \<le> sent w + 2" "paid w' \<le> paid w + 1"
    "sent w' \<le> sent w + 1 + (paid w' - paid w)"
proof -
  note P = pay_once [OF assms]
  obtain r1 w1 m1 where a: "upload_attempt E base data auth None (w, m) = (r1, w1, m1)"
    by (metis prod_cases3)
  note c1 = upload_attempt_counts [OF assms(1) a]
  show "sent w' \<le> sent w + 2" "sent w' \<le> sent w + 1 + (paid w' - paid w)" using P by blast+
  show "paid w' \<le> paid w + 1" using P by (auto split: sum.splits client_error.splits)
  have "sent w1 \<le> sent w'"
  proof (cases "\<exists>x. r1 = Inl (PaymentRequired x)")
    case True
    then obtain x where x: "r1 = Inl (PaymentRequired x)" by blast
    obtain q w2 where q: "pay x w1 = (q, w2)" by fastforce
    note c2 = pay_counts [OF assms(1) q]
    show ?thesis
    proof (cases q)
      case (Inl e)
      then show ?thesis using assms(2) a x q c2 by (auto simp: upload_with_payment_cases [OF a])
    next
      case (Inr token)
      then have b: "upload_attempt E base data auth (Some token) (w2, m1) = (r, w', m')"
        using assms(2) a x q by (simp add: upload_with_payment_cases [OF a])
      show ?thesis using upload_attempt_counts [OF assms(1) b] c2 by simp
    qed
  next
    case False
    then show ?thesis using assms(2)
      by (auto simp: upload_with_payment_cases [OF a] split: sum.splits client_error.splits)
  qed
  then show "sent w + 1 \<le> sent w'" using c1 by simp
qed

lemma retry_bounds:
  assumes c: "counts_calls E pay sent paid"
  shows "upload_with_retry E base data auth pay n (w, m) = Some (r, w', m') \<Longrightarrow>
    sent w' \<le> sent w + 2 * n \<and> paid w' \<le> paid w + n
    \<and> ((\<exists>e. r = Inl e \<and> retryable e) \<longrightarrow> sent w + n \<le> sent w')"
proof (induction n arbitrary: w m)
  case (Suc n)
  obtain r1 w1 m1 where u: "upload_blob_with_payment E base data auth pay (w, m) = (r1, w1, m1)"
    by (metis prod_cases3)
  note P = paid_upload_counts [OF c u]
  show ?case
  proof (cases "\<exists>e. r1 = Inl e \<and> retryable e \<and> n > 0")
    case True
    then have "upload_with_retry E base data auth pay n (w1, m1) = Some (r, w', m')"
      using Suc.prems u by auto
    from Suc.IH [OF this] P show ?thesis by auto
  next
    case False
    then have "r = r1 \<and> w' = w1 \<and> (\<forall>e. r1 = Inl e \<and> retryable e \<longrightarrow> n = 0)"
      using Suc.prems u by (auto split: sum.splits if_splits)
    then show ?thesis using P by auto
  qed
qed simp

text \<open>C22. The retried upload always returns, after at most \<open>max_attempts\<close> rounds of at most two
  uploads and one payment each; it gives up on a retryable error only when every round has
  been used, and an error that is not retryable (a payment problem, or any 4xx but 429) ends it
  at once.\<close>

theorem upload_with_retry_bounded:
  assumes "counts_calls E pay sent paid" and "0 < n"
  shows "\<exists>r w' m'. upload_with_retry E base data auth pay n (w, m) = Some (r, w', m')
    \<and> sent w' \<le> sent w + 2 * n \<and> paid w' \<le> paid w + n
    \<and> ((\<exists>e. r = Inl e \<and> retryable e) \<longrightarrow> sent w + n \<le> sent w')
    \<and> (\<forall>e st. upload_blob_with_payment E base data auth pay (w, m) = (Inl e, st) \<longrightarrow>
          \<not> retryable e \<longrightarrow> (r, w', m') = (Inl e, st))"
proof -
  obtain r w' m' where u: "upload_with_retry E base data auth pay n (w, m) = Some (r, w', m')"
    using retry_total [OF assms(2)] by (metis prod_cases3)
  have "(r, w', m') = (Inl e, st)"
    if "upload_blob_with_payment E base data auth pay (w, m) = (Inl e, st)" "\<not> retryable e" for e st
    using u that assms(2) by (cases n) auto
  with u retry_bounds [OF assms(1) u] show ?thesis by blast
qed

theorem upload_with_retry_bounded_witness:
  "\<exists>r w' m'. upload_with_retry greedy_cenv ''http://s'' ''data'' ''auth'' (\<lambda>x (s, p). (Inr ''cashuB'', s, p + 1))
      MAX_ATTEMPTS ((0, 0), metrics_init) = Some (r, w', m') \<and> fst w' \<le> 6 \<and> snd w' \<le> 3"
  using upload_with_retry_bounded [OF greedy_counts, of MAX_ATTEMPTS "''http://s''" "''data''"
      "''auth''" "(0, 0)" metrics_init]
  by (auto simp: MAX_ATTEMPTS_def)

text \<open>A server that takes the payment and then answers 503 is paid on every attempt.\<close>

definition taking_cenv :: "(nat \<times> nat) cenv" where
  "taking_cenv = greedy_cenv\<lparr>ce_http := (\<lambda>rq (s, p). (Inr \<lparr>
       rs_status = (if map_of (rq_headers rq) ''X-Cashu'' = None then 402 else 503),
       rs_content_length = None, rs_headers = (\<lambda>_. Some ''creqA''), rs_body = Inr []\<rparr>, s + 1, p))\<rparr>"

lemma retry_pays_again:
  "\<exists>r w' m'. upload_with_retry taking_cenv ''http://s'' ''data'' ''auth''
      (\<lambda>x (s, p). (Inr ''cashuB'', s, p + 1)) MAX_ATTEMPTS ((0, 0), metrics_init)
    = Some (r, w', m') \<and> snd w' = 3"
  by (simp add: MAX_ATTEMPTS_def numeral_3_eq_3 taking_cenv_def greedy_cenv_def upload_blob_with_payment_def
      upload_attempt_def mk_request_def upload_headers_def auth_line_def is_success_def refusal_def
      x_cashu_of_def server_error_def retryable_def is_retryable_status_def)

section \<open>Upload laws\<close>

lemma upload_attempt_gauge:
  "upload_attempt E base data auth tok st = (r, w', m') \<Longrightarrow> active_uploads m' = active_uploads (snd st)"
  by (cases st) (auto simp: upload_attempt_def count_upload_def split: prod.splits sum.splits if_splits)

lemma paid_upload_gauge:
  assumes "upload_blob_with_payment E base data auth pay (w, m) = (r, w', m')"
  shows "active_uploads m' = active_uploads m"
proof -
  obtain r1 w1 m1 where a: "upload_attempt E base data auth None (w, m) = (r1, w1, m1)"
    by (metis prod_cases3)
  show ?thesis
    using assms upload_attempt_gauge [OF a] upload_attempt_gauge [of E base data auth _ "(_, m1)"]
    by (fastforce simp: upload_with_payment_cases [OF a]
        split: sum.splits client_error.splits prod.splits)
qed

lemma retry_gauge:
  "upload_with_retry E base data auth pay n (w, m) = Some (r, w', m') \<Longrightarrow>
     active_uploads m' = active_uploads m"
proof (induction n arbitrary: w m)
  case (Suc n)
  obtain r1 w1 m1 where u: "upload_blob_with_payment E base data auth pay (w, m) = (r1, w1, m1)"
    by (metis prod_cases3)
  from paid_upload_gauge [OF u] Suc u show ?case by (auto split: sum.splits if_splits)
qed simp

lemma transfer_frame:
  assumes "transfer U C data auth sha s = Some (r, s')"
  shows "us_tree s' = us_tree s" "active_uploads (us_metrics s') = active_uploads (us_metrics s)"
proof -
  have "us_tree s' = us_tree s \<and> active_uploads (us_metrics s') = active_uploads (us_metrics s)"
    using assms retry_gauge
    by (fastforce simp: transfer_def Let_def split: if_splits option.splits sum.splits prod.splits)
  then show "us_tree s' = us_tree s" "active_uploads (us_metrics s') = active_uploads (us_metrics s)"
    by simp_all
qed

lemma do_upload_inner_eq:
  "do_upload_inner U cfg ino data sha256_hex s =
     (case cfg of
        None \<Rightarrow> Some (False, s)
      | Some C \<Rightarrow>
          (case create_upload_auth_header (ue_auth U) sha256_hex (length data) of
             None \<Rightarrow> Some (False, s)
           | Some auth \<Rightarrow>
               (case head_blob_with_expiry (ue_client U) (client_new (uc_server C)) sha256_hex (us_world s) of
                  (head, w) \<Rightarrow>
                    let s1 = s\<lparr>us_world := w\<rparr> in
                    if (case head of Inr info \<Rightarrow> bh_exists info | Inl _ \<Rightarrow> False)
                    then
                      let info = projr head;
                          s2 = s1\<lparr>us_world := dedup_extend U C auth sha256_hex info (us_world s1)\<rparr>
                      in Some (True, set_remote ino (uc_server C @ ''/'' @ sha256_hex) sha256_hex None
                                       (bh_sunset info) (length data) 0 s2)
                    else
                      (case preflight_upload (ue_client U) (client_new (uc_server C)) auth sha256_hex
                              (length data) ''application/octet-stream'' (us_world s1) of
                         (pre, w') \<Rightarrow>
                           let s2 = s1\<lparr>us_world := w'\<rparr> in
                           if preflight_rejects pre then Some (False, s2)
                           else if slice_to 16 sha256_hex = None then None
                           else
                             (case transfer U C data auth sha256_hex s2 of
                                None \<Rightarrow> None
                              | Some (Inl _, s3) \<Rightarrow> Some (False, s3)
                              | Some (Inr d, s3) \<Rightarrow>
                                  if slice_to 16 (bd_sha256 d) = None then None
                                  else Some (True, set_remote ino (bd_url d) (bd_sha256 d) (bd_mime d)
                                                     None (bd_size d) (bd_uploaded d) s3))))))"
proof (cases cfg)
  case (Some C)
  note defs = do_upload_inner_def upload_client_def Some
  obtain head w where h: "head_blob_with_expiry (ue_client U) (client_new (uc_server C)) sha256_hex (us_world s)
      = (head, w)" by (rule prod.exhaust)
  show ?thesis
  proof (cases "create_upload_auth_header (ue_auth U) sha256_hex (length data)")
    case auth: (Some auth)
    obtain pre w' where p: "preflight_upload (ue_client U) (client_new (uc_server C)) auth sha256_hex
        (length data) ''application/octet-stream'' w = (pre, w')" by (rule prod.exhaust)
    show ?thesis
      by (cases "transfer U C data auth sha256_hex (s\<lparr>us_world := w'\<rparr>)")
        (simp_all add: defs auth h p Let_def split: prod.split sum.split)
  qed (simp add: defs)
qed (simp add: do_upload_inner_def)

lemma upload_client_frame:
  assumes "upload_client U C data sha s = Some (r, s')"
  shows "us_tree s' = us_tree s \<and> active_uploads (us_metrics s') = active_uploads (us_metrics s)"
proof (cases "create_upload_auth_header (ue_auth U) sha (length data)")
  case None
  then show ?thesis using assms by (simp add: upload_client_def)
next
  case auth: (Some auth)
  obtain head w where h: "head_blob_with_expiry (ue_client U) (client_new (uc_server C)) sha (us_world s)
      = (head, w)" by (rule prod.exhaust)
  obtain pre w' where p: "preflight_upload (ue_client U) (client_new (uc_server C)) auth sha
      (length data) ''application/octet-stream'' w = (pre, w')" by (rule prod.exhaust)
  show ?thesis
    using assms auth h p transfer_frame [of U C data auth sha "s\<lparr>us_world := w'\<rparr>"]
    by (fastforce simp: upload_client_def Let_def split: if_splits option.splits sum.splits prod.splits)
qed

lemma do_upload_inner_frame:
  assumes "do_upload_inner U cfg ino data sha s = Some (ok, s')"
  shows "active_uploads (us_metrics s') = active_uploads (us_metrics s)
    \<and> (if ok then \<exists>url h mime e sz up.
          us_tree s' = snd (update_file_node (us_tree s) ino (Remote url h mime e) sz up)
       else us_tree s' = us_tree s)"
  using assms
  by (auto simp: do_upload_inner_def set_remote_def split: option.splits prod.splits dest!: upload_client_frame) blast

text \<open>C23. Every upload that returns leaves the in-flight gauge where it was. When it reports
  failure the tree is untouched; when it reports success exactly one thing happened to the tree:
  the file's node, if there is one, now holds a remote blob. Either way the tree stays well
  formed.\<close>

theorem do_upload_effect:
  assumes "do_upload U cfg ino data sha s = Some (ok, s')"
  shows "active_uploads (us_metrics s') = active_uploads (us_metrics s)
    \<and> (\<not> ok \<longrightarrow> us_tree s' = us_tree s)
    \<and> (ok \<longrightarrow> (\<exists>url h mime e sz up.
          us_tree s' = snd (update_file_node (us_tree s) ino (Remote url h mime e) sz up)))
    \<and> (tree_wf (us_tree s) \<longrightarrow> tree_wf (us_tree s'))"
proof -
  obtain s1 where i: "do_upload_inner U cfg ino data sha (s\<lparr>us_metrics := guard_new (us_metrics s)\<rparr>)
      = Some (ok, s1)" and s': "s' = s1\<lparr>us_metrics := guard_drop (us_metrics s1)\<rparr>"
    using assms by (auto simp: do_upload_def split: option.splits)
  from do_upload_inner_frame [OF i] s' show ?thesis
    by (auto simp: guard_new_def guard_drop_def intro: tree_wf_update_file_node split: if_splits)
qed

definition demo_upload_env :: "request list upload_env" where
  "demo_upload_env = \<lparr>ue_client = demo_cenv, ue_io = demo_sio,
     ue_auth = \<lparr>ae_now = 0, ae_sign = (\<lambda>_ _ _. Some ''e''), ae_b64 = (\<lambda>b. b)\<rparr>,
     ue_pay = (\<lambda>x w. (Inl NotConfigured, w)), ue_now = 0\<rparr>"

theorem do_upload_effect_witness:
  "\<exists>s'. do_upload demo_upload_env (Some \<lparr>uc_server = ''http://s/'', uc_cache_base = None,
        uc_free_period = 0, uc_multipart_threshold = 100\<rparr>) 2 ''ok'' (replicate 64 (CHR ''a''))
      \<lparr>us_world = [], us_files = Map.empty, us_metrics = metrics_init,
       us_tree = snd (add_file_to_dir new_tree 1 ''f'' (Static []) 0 0)\<rparr> = Some (True, s')
    \<and> active_uploads (us_metrics s') = 0 \<and> tree_wf (us_tree s')"
proof -
  let ?s = "\<lparr>us_world = [] :: request list, us_files = Map.empty, us_metrics = metrics_init,
       us_tree = snd (add_file_to_dir new_tree 1 ''f'' (Static []) 0 0)\<rparr>"
  obtain s' where u: "do_upload demo_upload_env (Some \<lparr>uc_server = ''http://s/'', uc_cache_base = None,
        uc_free_period = 0, uc_multipart_threshold = 100\<rparr>) 2 ''ok'' (replicate 64 (CHR ''a'')) ?s
      = Some (True, s')"
    by (simp add: do_upload_def do_upload_inner_eq demo_upload_env_def create_upload_auth_header_def
        head_blob_with_expiry_def demo_cenv_def is_success_def Let_def)
  have "tree_wf (us_tree ?s)"
    by simp (intro inv_intros, simp add: valid_ino_def node_count_def new_tree_def)
  with do_upload_effect [OF u] u show ?thesis by (simp add: metrics_init_def)
qed

end
