(* ===== verification/Bfs_Fetch.thy ===== *)
theory Bfs_Fetch
  imports Bfs_Cache Bfs_Descriptor Bfs_Net
begin

text \<open>
  Downloading, verifying and caching blobs (\<open>src/cache/fetch.rs\<close>).  The environment record
  holds what is outside the program: the HTTP client, SHA-256 (as lower-case hexadecimal),
  the HTTP-date parser, the Unicode tables, the failing I/O calls, the clock that stamps a
  new cache file, and how often the retry driver retries.
\<close>

section \<open>Environment and state\<close>

record 'w env =
  env_http :: "'w http"
  env_client_ok :: bool
  env_hash :: "bytes \<Rightarrow> string"
  env_http_date :: "string \<Rightarrow> int option"
  env_uni :: unicode_tables
  env_io :: "io_op \<Rightarrow> bool"
  env_mtime :: nat
  env_retries :: nat

record 'w host =
  hs_world :: 'w
  hs_disk :: disk
  hs_metrics :: metrics

datatype fetch_error =
    FetchHttp http_error
  | FetchIo
  | FetchCache cache_error
  | FetchHashMismatch string string
  | FetchTooLarge nat

definition categorize_fetch_error :: "fetch_error \<Rightarrow> string" where
  "categorize_fetch_error e =
     (case e of
        FetchHashMismatch _ _ \<Rightarrow> ''hash_mismatch''
      | FetchTooLarge _ \<Rightarrow> ''size_limit''
      | FetchHttp _ \<Rightarrow> ''network''
      | FetchIo \<Rightarrow> ''io''
      | FetchCache _ \<Rightarrow> ''cache'')"

definition count_error :: "fetch_error + 'a \<Rightarrow> metrics \<Rightarrow> metrics" where
  "count_error r m = (case r of Inl e \<Rightarrow> record_error (categorize_fetch_error e) m | Inr _ \<Rightarrow> m)"

section \<open>Verify and cache\<close>

definition verify_and_cache ::
  "'w env \<Rightarrow> bytes \<Rightarrow> string \<Rightarrow> fs_path \<Rightarrow> disk \<times> metrics \<Rightarrow> (fetch_error + unit) \<times> disk \<times> metrics" where
  "verify_and_cache E bytes expected base st =
     (case st of (d, m) \<Rightarrow>
        let computed = env_hash E bytes in
        if computed \<noteq> str_to_lowercase (env_uni E) expected
        then (Inl (FetchHashMismatch expected computed), d, m)
        else
          (case ensure_cache_dir (env_io E) base expected of
             Inl e \<Rightarrow> (Inl (FetchCache e), d, m)
           | Inr _ \<Rightarrow>
               (case cache_path base expected of
                  Inl e \<Rightarrow> (Inl (FetchCache e), d, m)
                | Inr cache_file \<Rightarrow>
                    let tmp_dir = base @ [''.tmp''] in
                    if \<not> env_io E (MkdirAll tmp_dir) then (Inl FetchIo, d, m)
                    else if \<not> env_io E (CreateTemp tmp_dir) then (Inl FetchIo, d, m)
                    else if \<not> env_io E (WriteTemp tmp_dir) then (Inl FetchIo, d, m)
                    else if \<not> env_io E (Rename cache_file) then (Inl FetchIo, d, m)
                    else (Inr (), d(cache_file \<mapsto> (bytes, env_mtime E)),
                          cache_gauges (int (length bytes)) 1 m))))"

section \<open>Fetching\<close>

definition fetch_transient :: "http_error \<Rightarrow> bool" where
  "fetch_transient e =
     (case e of
        HConnect \<Rightarrow> True
      | HTimeout \<Rightarrow> True
      | HStatus s \<Rightarrow> (500 \<le> s \<and> s < 600) \<or> s = 429
      | _ \<Rightarrow> False)"

definition send_checked :: "'w env \<Rightarrow> request \<Rightarrow> 'w \<Rightarrow> (http_error + response) \<times> 'w" where
  "send_checked E rq w =
     retry_when (env_retries E) fetch_transient
       (\<lambda>w. case env_http E rq w of (r, w') \<Rightarrow> (error_for_status r, w')) w"

definition sunset_of :: "'w env \<Rightarrow> response \<Rightarrow> nat option" where
  "sunset_of E resp =
     Option.bind (rs_headers resp ''sunset'') (\<lambda>s. Option.bind (env_http_date E s)
       (\<lambda>t. if 0 \<le> t then Some (nat t) else None))"

text \<open>The size guard on the announced length.\<close>

definition announced_too_large :: "response \<Rightarrow> nat option" where
  "announced_too_large resp =
     (case rs_content_length resp of
        None \<Rightarrow> None
      | Some len \<Rightarrow> if len > MAX_BLOB_SIZE then Some len else None)"

definition finish_fetch ::
  "'w env \<Rightarrow> response \<Rightarrow> string \<Rightarrow> fs_path \<Rightarrow> 'w host \<Rightarrow> (fetch_error + bytes \<times> nat option) \<times> 'w host" where
  "finish_fetch E resp expected base s =
     (case announced_too_large resp of
        Some len \<Rightarrow> (Inl (FetchTooLarge len), s)
      | None \<Rightarrow>
          let sunset_ts = sunset_of E resp in
          (case rs_body resp of
             Inl e \<Rightarrow> (Inl (FetchHttp e), s)
           | Inr bytes \<Rightarrow>
               let s1 = s\<lparr>hs_metrics := count_download (length bytes) (hs_metrics s)\<rparr> in
               if length bytes > MAX_BLOB_SIZE
               then (Inl (FetchTooLarge (length bytes)), s1)
               else
                 (case verify_and_cache E bytes expected base (hs_disk s1, hs_metrics s1) of
                    (r, d, m) \<Rightarrow>
                      (case r of Inl e \<Rightarrow> Inl e | Inr _ \<Rightarrow> Inr (bytes, sunset_ts),
                       s1\<lparr>hs_disk := d, hs_metrics := m\<rparr>))))"

definition fetch_and_cache_inner ::
  "'w env \<Rightarrow> string \<Rightarrow> string \<Rightarrow> fs_path \<Rightarrow> 'w host \<Rightarrow> (fetch_error + bytes \<times> nat option) \<times> 'w host" where
  "fetch_and_cache_inner E url expected base s =
     (if cache_exists (hs_disk s) base expected then
        (case read_cached (env_io E) (hs_disk s) base expected of
           Inl e \<Rightarrow> Inl (FetchCache e)
         | Inr bytes \<Rightarrow> Inr (bytes, None),
         s\<lparr>hs_metrics := inc_hits (hs_metrics s)\<rparr>)
      else
        let s1 = s\<lparr>hs_metrics := inc_misses (hs_metrics s)\<rparr> in
        if \<not> env_client_ok E then (Inl (FetchHttp HBuild), s1)
        else
          (case send_checked E (http_get url []) (hs_world s1) of
             (Inl e, w) \<Rightarrow> (Inl (FetchHttp e), s1\<lparr>hs_world := w\<rparr>)
           | (Inr resp, w) \<Rightarrow> finish_fetch E resp expected base (s1\<lparr>hs_world := w\<rparr>)))"

definition fetch_and_cache ::
  "'w env \<Rightarrow> string \<Rightarrow> string \<Rightarrow> fs_path \<Rightarrow> 'w host \<Rightarrow> (fetch_error + bytes \<times> nat option) \<times> 'w host" where
  "fetch_and_cache E url expected base s =
     (case fetch_and_cache_inner E url expected base s of
        (r, s') \<Rightarrow> (r, s'\<lparr>hs_metrics := count_error r (hs_metrics s')\<rparr>))"

section \<open>Range requests\<close>

definition range_header :: "nat \<Rightarrow> nat \<Rightarrow> string \<times> string" where
  "range_header start end' =
     (''Range'', ''bytes='' @ nat_to_string start @ ''-'' @ nat_to_string end')"

definition fetch_range_inner ::
  "'w env \<Rightarrow> string \<Rightarrow> nat \<Rightarrow> nat \<Rightarrow> 'w host \<Rightarrow> (fetch_error + bytes \<times> bytes option) \<times> 'w host" where
  "fetch_range_inner E url start end' s =
     (if \<not> env_client_ok E then (Inl (FetchHttp HBuild), s)
      else
        (case send_checked E (http_get url [range_header start end']) (hs_world s) of
           (Inl e, w) \<Rightarrow> (Inl (FetchHttp e), s\<lparr>hs_world := w\<rparr>)
         | (Inr resp, w) \<Rightarrow>
             let s1 = s\<lparr>hs_world := w\<rparr> in
             (case announced_too_large resp of
                Some len \<Rightarrow> (Inl (FetchTooLarge len), s1)
              | None \<Rightarrow>
                  (case rs_body resp of
                     Inl e \<Rightarrow> (Inl (FetchHttp e), s1)
                   | Inr bytes \<Rightarrow>
                       if length bytes > MAX_BLOB_SIZE
                       then (Inl (FetchTooLarge (length bytes)), s1)
                       else
                         let s2 = s1\<lparr>hs_metrics := count_download (length bytes) (hs_metrics s1)\<rparr>
                         in if rs_status resp = 206 then (Inr (bytes, None), s2)
                            else (Inr (bytes, Some bytes), s2)))))"

definition fetch_range ::
  "'w env \<Rightarrow> string \<Rightarrow> nat \<Rightarrow> nat \<Rightarrow> 'w host \<Rightarrow> (fetch_error + bytes \<times> bytes option) \<times> 'w host" where
  "fetch_range E url start end' s =
     (case fetch_range_inner E url start end' s of
        (r, s') \<Rightarrow> (r, s'\<lparr>hs_metrics := count_error r (hs_metrics s')\<rparr>))"

section \<open>Integrity\<close>

text \<open>Every cached object hashes to its name.\<close>

definition cache_sound :: "'w env \<Rightarrow> fs_path \<Rightarrow> disk \<Rightarrow> bool" where
  "cache_sound E base d \<longleftrightarrow>
     (\<forall>sha p c t. cache_path base sha = Inr p \<longrightarrow> d p = Some (c, t) \<longrightarrow>
        env_hash E c = to_lowercase sha)"

lemma valid_hash_ascii: "sanitize_sha256 s = Inr n \<Longrightarrow> str_to_lowercase u s = n"
proof -
  assume s: "sanitize_sha256 s = Inr n"
  then have "is_ascii s"
    by (auto simp: sanitize_sha256_def is_ascii_def list_all_iff is_ascii_hexdigit_def
        is_ascii_digit_def split: if_splits)
  then show ?thesis using sanitize_sha256_lower [OF s] by (simp add: str_to_lowercase_def)
qed

lemma cache_path_sanitized: "cache_path base s = Inr p \<Longrightarrow> sanitize_sha256 s = Inr (to_lowercase s)"
  by (cases "sanitize_sha256 s") (auto simp: cache_path_def dest: sanitize_sha256_lower)

lemma cache_path_inj:
  "cache_path base s = Inr p \<Longrightarrow> cache_path base s' = Inr p \<Longrightarrow> to_lowercase s = to_lowercase s'"
  by (cases "sanitize_sha256 s"; cases "sanitize_sha256 s'")
    (auto simp: cache_path_def dest: sanitize_sha256_lower)

text \<open>What \<open>verify_and_cache\<close> does to the disk: nothing on any error, one verified object
  otherwise.\<close>

lemma verify_and_cache_cases:
  assumes "verify_and_cache E bytes expected base (d, m) = (r, d', m')"
  shows "(\<exists>e. r = Inl e) \<and> d' = d \<and> m' = m \<or>
    (r = Inr () \<and> env_hash E bytes = to_lowercase expected
      \<and> (\<exists>p. cache_path base expected = Inr p \<and> d' = d(p \<mapsto> (bytes, env_mtime E)))
      \<and> m' = cache_gauges (int (length bytes)) 1 m)"
proof (cases "cache_path base expected")
  case (Inl e)
  then show ?thesis
    using assms by (auto simp: verify_and_cache_def Let_def split: sum.splits if_splits)
next
  case (Inr p)
  then have "str_to_lowercase (env_uni E) expected = to_lowercase expected"
    using valid_hash_ascii cache_path_sanitized by blast
  with Inr assms show ?thesis
    by (auto simp: verify_and_cache_def Let_def split: sum.splits if_splits)
qed

lemma cache_sound_verify:
  assumes "cache_sound E base d" "verify_and_cache E bytes expected base (d, m) = (r, d', m')"
  shows "cache_sound E base d'"
  using verify_and_cache_cases [OF assms(2)] assms(1)
  by (auto simp: cache_sound_def dest: cache_path_inj split: if_splits)

lemma cache_sound_sub:
  "cache_sound E base d \<Longrightarrow> (\<And>p. d' p = d p \<or> d' p = None) \<Longrightarrow> cache_sound E base d'"
  unfolding cache_sound_def by (metis option.distinct(1))

lemma read_cached_sound:
  assumes "cache_sound E base d" "read_cached io d base sha = Inr bytes"
  shows "env_hash E bytes = to_lowercase sha"
  using assms by (auto simp: read_cached_def cache_sound_def split: sum.splits option.splits if_splits)

text \<open>Bytes enter the cache only after their SHA-256 has been compared with the expected
  hash: on success they hash to it, and are stored at its path; on every error - mismatch, bad
  hash, failed directory, temporary file or rename - disk and metrics are exactly as before.\<close>

theorem verify_and_cache_atomic:
  "case verify_and_cache E bytes expected base (d, m) of (r, d', m') \<Rightarrow>
     (case r of
        Inl _ \<Rightarrow> d' = d \<and> m' = m
      | Inr _ \<Rightarrow> env_hash E bytes = to_lowercase expected
          \<and> (case cache_path base expected of Inl _ \<Rightarrow> False
             | Inr p \<Rightarrow> d' = d(p \<mapsto> (bytes, env_mtime E)))
          \<and> m' = cache_gauges (int (length bytes)) 1 m)"
proof -
  obtain r d' m' where v: "verify_and_cache E bytes expected base (d, m) = (r, d', m')"
    by (metis prod_cases3)
  from verify_and_cache_cases [OF v] v show ?thesis by auto
qed

lemma finish_fetch_cases:
  assumes "finish_fetch E resp expected base s = (r, s')"
  shows "hs_world s' = hs_world s"
    and "(\<exists>e. r = Inl e) \<and> hs_disk s' = hs_disk s \<or>
      (\<exists>bytes p. r = Inr (bytes, sunset_of E resp) \<and> env_hash E bytes = to_lowercase expected
        \<and> cache_path base expected = Inr p
        \<and> hs_disk s' = (hs_disk s)(p \<mapsto> (bytes, env_mtime E)))"
proof -
  have "hs_world s' = hs_world s \<and> ((\<exists>e. r = Inl e) \<and> hs_disk s' = hs_disk s \<or>
      (\<exists>bytes p. r = Inr (bytes, sunset_of E resp) \<and> env_hash E bytes = to_lowercase expected
        \<and> cache_path base expected = Inr p
        \<and> hs_disk s' = (hs_disk s)(p \<mapsto> (bytes, env_mtime E))))"
  proof (cases "announced_too_large resp")
    case None
    show ?thesis
    proof (cases "rs_body resp")
      case (Inr bytes)
      obtain r0 d m where v: "verify_and_cache E bytes expected base
          (hs_disk s, count_download (length bytes) (hs_metrics s)) = (r0, d, m)"
        by (metis prod_cases3)
      from verify_and_cache_cases [OF v] show ?thesis
        using assms None Inr v by (auto simp: finish_fetch_def Let_def split: if_splits)
    qed (use assms None in \<open>auto simp: finish_fetch_def Let_def\<close>)
  qed (use assms in \<open>auto simp: finish_fetch_def\<close>)
  then show "hs_world s' = hs_world s"
    and "(\<exists>e. r = Inl e) \<and> hs_disk s' = hs_disk s \<or>
      (\<exists>bytes p. r = Inr (bytes, sunset_of E resp) \<and> env_hash E bytes = to_lowercase expected
        \<and> cache_path base expected = Inr p
        \<and> hs_disk s' = (hs_disk s)(p \<mapsto> (bytes, env_mtime E)))"
    by blast+
qed

lemma fetch_and_cache_cases:
  assumes "fetch_and_cache E url expected base s = (r, s')"
  shows "(\<exists>e. r = Inl e) \<and> hs_disk s' = hs_disk s \<or>
    (\<exists>bytes. r = Inr (bytes, None) \<and> cache_exists (hs_disk s) base expected
       \<and> read_cached (env_io E) (hs_disk s) base expected = Inr bytes \<and> hs_disk s' = hs_disk s) \<or>
    (\<exists>bytes ts p. r = Inr (bytes, ts) \<and> env_hash E bytes = to_lowercase expected
        \<and> cache_path base expected = Inr p
        \<and> hs_disk s' = (hs_disk s)(p \<mapsto> (bytes, env_mtime E)))"
proof -
  obtain s1 where i: "fetch_and_cache_inner E url expected base s = (r, s1)"
      and s': "hs_disk s' = hs_disk s1"
    using assms by (auto simp: fetch_and_cache_def split: prod.splits)
  show ?thesis
  proof (cases "cache_exists (hs_disk s) base expected")
    case True
    then show ?thesis
      using i s' by (auto simp: fetch_and_cache_inner_def split: sum.splits)
  next
    case miss: False
    show ?thesis
    proof (cases "env_client_ok E")
      case False
      then show ?thesis using miss i s' by (auto simp: fetch_and_cache_inner_def Let_def)
    next
      case True
      obtain q w where q: "send_checked E (http_get url []) (hs_world s) = (q, w)" by fastforce
      show ?thesis
      proof (cases q)
        case (Inl e)
        then show ?thesis using miss True q i s' by (auto simp: fetch_and_cache_inner_def Let_def)
      next
        case (Inr resp)
        then have "finish_fetch E resp expected base
            (s\<lparr>hs_metrics := inc_misses (hs_metrics s), hs_world := w\<rparr>) = (r, s1)"
          using miss True q i by (simp add: fetch_and_cache_inner_def Let_def)
        from finish_fetch_cases(2) [OF this] show ?thesis using s' by auto
      qed
    qed
  qed
qed

lemma fetch_and_cache_sound:
  assumes "cache_sound E base (hs_disk s)" and "fetch_and_cache E url expected base s = (r, s')"
  shows "cache_sound E base (hs_disk s')
    \<and> (case r of
         Inl _ \<Rightarrow> hs_disk s' = hs_disk s
       | Inr (bytes, _) \<Rightarrow> env_hash E bytes = to_lowercase expected
           \<and> (\<exists>p t. cache_path base expected = Inr p \<and> hs_disk s' p = Some (bytes, t)))"
proof -
  consider (err) "\<exists>e. r = Inl e" "hs_disk s' = hs_disk s"
    | (hit) bytes where "r = Inr (bytes, None)"
        "read_cached (env_io E) (hs_disk s) base expected = Inr bytes" "hs_disk s' = hs_disk s"
    | (miss) bytes ts p where "r = Inr (bytes, ts)" "env_hash E bytes = to_lowercase expected"
        "cache_path base expected = Inr p"
        "hs_disk s' = (hs_disk s)(p \<mapsto> (bytes, env_mtime E))"
    using fetch_and_cache_cases [OF assms(2)] by blast
  then show ?thesis
  proof cases
    case err
    then show ?thesis using assms(1) by auto
  next
    case hit
    then show ?thesis
      using assms(1) read_cached_sound [OF assms(1) hit(2)]
      by (auto simp: read_cached_def split: sum.splits option.splits if_splits)
  next
    case miss
    then show ?thesis
      using assms(1) by (auto simp: cache_sound_def dest: cache_path_inj split: if_splits)
  qed
qed

text \<open>C8. What \<open>fetch_and_cache\<close> hands out is verified whether it came from the disk or from
  the network: in a sound cache its bytes hash to the expected hash. Afterwards the cache is
  still sound, a successful fetch has the blob cached at its path, and a failed one has left the
  disk alone.\<close>

theorem fetch_and_cache_verified:
  assumes "cache_sound E base (hs_disk s)" and "fetch_and_cache E url expected base s = (r, s')"
  shows "cache_sound E base (hs_disk s')
    \<and> (case r of
         Inl _ \<Rightarrow> hs_disk s' = hs_disk s
       | Inr (bytes, _) \<Rightarrow> env_hash E bytes = to_lowercase expected
           \<and> (\<exists>p t. cache_path base expected = Inr p \<and> hs_disk s' p = Some (bytes, t)))"
  by (rule fetch_and_cache_sound [OF assms])

section \<open>Runs\<close>

text \<open>A store whose every lookup is verified, over any sequence of operations.\<close>

locale verified_store = invariant_machine exec inv
  for exec :: "'op \<Rightarrow> 's \<Rightarrow> 's" and inv :: "'s \<Rightarrow> bool" +
  fixes look :: "'s \<Rightarrow> string \<Rightarrow> bytes option"
    and hash :: "bytes \<Rightarrow> string"
    and norm :: "string \<Rightarrow> string"
  assumes look_ok: "inv s \<Longrightarrow> look s k = Some b \<Longrightarrow> hash b = norm k"
begin

lemma run_look: "inv s \<Longrightarrow> look (fold exec ops s) k = Some b \<Longrightarrow> hash b = norm k"
  using run_inv look_ok by blast

text \<open>With an injective hash a key determines its bytes: reading twice, whatever happened in
  between, gives the same content.\<close>

lemma run_stable:
  assumes "inv s" "inj hash" "look s k = Some b" "look (fold exec ops s) k' = Some b'"
    "norm k = norm k'"
  shows "b = b'"
  using assms run_look [OF assms(1,4)] look_ok [OF assms(1,3)] by (metis injD)

end

datatype cache_op =
    OpFetch string string
  | OpStore bytes string
  | OpEvict nat string

definition cache_exec ::
  "'w env \<Rightarrow> (disk \<Rightarrow> fs_path \<Rightarrow> fs_path list) \<Rightarrow> fs_path \<Rightarrow> cache_op \<Rightarrow> 'w host \<Rightarrow> 'w host" where
  "cache_exec E walk base op s =
     (case op of
        OpFetch url sha \<Rightarrow> snd (fetch_and_cache E url sha base s)
      | OpStore bytes sha \<Rightarrow>
          (case verify_and_cache E bytes sha base (hs_disk s, hs_metrics s) of
             (_, d, m) \<Rightarrow> s\<lparr>hs_disk := d, hs_metrics := m\<rparr>)
      | OpEvict mx keep \<Rightarrow>
          (case evict_oldest (env_io E) walk base mx keep (hs_disk s, hs_metrics s) of
             (d, m) \<Rightarrow> s\<lparr>hs_disk := d, hs_metrics := m\<rparr>))"

definition cached_blob :: "'w env \<Rightarrow> fs_path \<Rightarrow> 'w host \<Rightarrow> string \<Rightarrow> bytes option" where
  "cached_blob E base s sha =
     (case read_cached (env_io E) (hs_disk s) base sha of Inl _ \<Rightarrow> None | Inr b \<Rightarrow> Some b)"

text \<open>Eviction removes paths only, so it keeps soundness even if the listing is wrong.\<close>

lemma evict_loop_sub: "ev_disk (evict_loop io mx keep es s) p = ev_disk s p
    \<or> ev_disk (evict_loop io mx keep es s) p = None"
  by (simp add: evict_loop_victims Let_def drop_paths_def)

lemma evict_oldest_sub: "fst (evict_oldest io walk base mx keep (d, m)) p = d p
    \<or> fst (evict_oldest io walk base mx keep (d, m)) p = None"
  using evict_loop_sub [of io mx keep _ "\<lparr>ev_total = _, ev_bytes = 0, ev_count = 0, ev_disk = d\<rparr>"]
  by (simp add: evict_oldest_def Let_def)

interpretation blobs: verified_store "cache_exec E walk base"
    "\<lambda>s. cache_sound E base (hs_disk s)" "cached_blob E base" "env_hash E" to_lowercase
  for E :: "'w env" and walk base
proof unfold_locales
  fix s :: "'w host" and op :: cache_op
  assume s: "cache_sound E base (hs_disk s)"
  show "cache_sound E base (hs_disk (cache_exec E walk base op s))"
  proof (cases op)
    case (OpFetch url sha)
    then show ?thesis
      using fetch_and_cache_sound [OF s, of url sha] by (cases "fetch_and_cache E url sha base s")
        (simp add: cache_exec_def)
  next
    case (OpStore bytes sha)
    then show ?thesis
      using cache_sound_verify [OF s, of bytes sha]
      by (auto simp: cache_exec_def split: prod.split)
  next
    case (OpEvict mx keep)
    then show ?thesis
      using cache_sound_sub [OF s] evict_oldest_sub [of "env_io E" walk base mx keep "hs_disk s" "hs_metrics s"]
      by (auto simp: cache_exec_def split: prod.split)
  qed
next
  fix s :: "'w host" and k b
  assume "cache_sound E base (hs_disk s)" "cached_blob E base s k = Some b"
  then show "env_hash E b = to_lowercase k"
    using read_cached_sound by (auto simp: cached_blob_def split: sum.splits)
qed

text \<open>Over any sequence of fetches, direct stores and evictions, with any servers, I/O
  failures and directory listings, starting from an empty cache: whatever a later cache read
  returns hashes to the name it was read under.\<close>

theorem cache_run_verified:
  assumes "cached_blob E base (fold (cache_exec E walk base) ops (s\<lparr>hs_disk := Map.empty\<rparr>)) sha
    = Some b"
  shows "env_hash E b = to_lowercase sha"
  using assms by (intro blobs.run_look [where s = "s\<lparr>hs_disk := Map.empty\<rparr>"])
    (auto simp: cache_sound_def)

text \<open>A one-blob world: the server answers every request with the same two bytes, and the
  "hash" is a fixed valid name.\<close>

definition demo_sha :: string where
  "demo_sha = replicate 64 (CHR ''a'')"

definition demo_env :: "nat env" where
  "demo_env = \<lparr>env_http = (\<lambda>rq n. (Inr \<lparr>rs_status = 200, rs_content_length = Some 2,
       rs_headers = (\<lambda>_. None), rs_body = Inr ''ok''\<rparr>, n + 1)),
     env_client_ok = True, env_hash = (\<lambda>_. demo_sha), env_http_date = (\<lambda>_. None),
     env_uni = \<lparr>uni_alnum = (\<lambda>_. False), uni_lower = (\<lambda>s. s)\<rparr>,
     env_io = (\<lambda>_. True), env_mtime = 7, env_retries = 3\<rparr>"

definition demo_host :: "nat host" where
  "demo_host = \<lparr>hs_world = 0, hs_disk = Map.empty, hs_metrics = metrics_init\<rparr>"

lemma demo_sha_ok: "sanitize_sha256 demo_sha = Inr demo_sha"
  by (rule sanitize_sha256_id)
    (simp add: sha_normal_def demo_sha_def is_lower_hexdigit_def is_ascii_digit_def list_all_iff)

lemma demo_sha_lower: "to_lowercase demo_sha = demo_sha"
  using sanitize_sha256_lower [OF demo_sha_ok] by simp

lemma demo_path: "cache_path [''c''] demo_sha = Inr [''c'', ''objects'', ''aa'', ''aa'', demo_sha]"
  by (simp add: cache_path_def demo_sha_ok) (simp add: demo_sha_def numeral_eq_Suc)

lemma demo_fetch: "fst (fetch_and_cache demo_env ''http://s/x'' demo_sha [''c''] demo_host)
    = Inr (''ok'', None)"
proof -
  have "str_to_lowercase u demo_sha = demo_sha" for u
    using valid_hash_ascii demo_sha_ok by blast
  moreover have "is_ok (ensure_cache_dir (\<lambda>_. True) [''c''] demo_sha)"
    by (simp add: ensure_cache_dir_def cache_dir_def demo_sha_ok)
  moreover have "send_checked demo_env rq w = (Inr \<lparr>rs_status = 200, rs_content_length = Some 2,
       rs_headers = (\<lambda>_. None), rs_body = Inr ''ok''\<rparr>, w + 1)" for rq w
    by (simp add: send_checked_def demo_env_def numeral_3_eq_3 error_for_status_def)
  ultimately show ?thesis
    by (simp add: fetch_and_cache_def fetch_and_cache_inner_def cache_exists_def demo_path
        demo_host_def finish_fetch_def announced_too_large_def MAX_BLOB_SIZE_def sunset_of_def
        verify_and_cache_def Let_def is_ok_def split: sum.splits)
      (simp add: demo_env_def)
qed

text \<open>The cached state after that fetch.\<close>

lemma demo_cached: "\<exists>b. cached_blob demo_env [''c''] (fold (cache_exec demo_env (\<lambda>_ _. []) [''c''])
    [OpFetch ''http://s/x'' demo_sha] (demo_host\<lparr>hs_disk := Map.empty\<rparr>)) demo_sha = Some b"
proof -
  have h: "demo_host\<lparr>hs_disk := Map.empty\<rparr> = demo_host" by (simp add: demo_host_def)
  obtain r s' where f: "fetch_and_cache demo_env ''http://s/x'' demo_sha [''c''] demo_host = (r, s')"
    by fastforce
  then have "r = Inr (''ok'', None)" using demo_fetch by simp
  moreover have "cache_sound demo_env [''c''] (hs_disk demo_host)"
    by (simp add: cache_sound_def demo_host_def)
  ultimately obtain t where
    "hs_disk s' [''c'', ''objects'', ''aa'', ''aa'', demo_sha] = Some (''ok'', t)"
    using fetch_and_cache_cases [OF f] demo_path
    by (auto simp: cache_exists_def demo_host_def)
  then show ?thesis
    unfolding h using f
    by (simp add: cache_exec_def cached_blob_def read_cached_def demo_path)
      (simp add: demo_env_def)
qed

theorem fetch_and_cache_verified_witness:
  "cache_sound demo_env [''c'']
     (hs_disk (snd (fetch_and_cache demo_env ''http://s/x'' demo_sha [''c''] demo_host)))"
proof -
  obtain r s' where f: "fetch_and_cache demo_env ''http://s/x'' demo_sha [''c''] demo_host = (r, s')"
    by fastforce
  have "cache_sound demo_env [''c''] (hs_disk demo_host)"
    by (simp add: cache_sound_def demo_host_def)
  from fetch_and_cache_verified [OF this f] f show ?thesis by simp
qed

theorem cache_run_verified_witness:
  "\<exists>b. cached_blob demo_env [''c''] (fold (cache_exec demo_env (\<lambda>_ _. []) [''c''])
      [OpFetch ''http://s/x'' demo_sha] (demo_host\<lparr>hs_disk := Map.empty\<rparr>)) demo_sha = Some b
    \<and> env_hash demo_env b = demo_sha"
  using demo_cached cache_run_verified [of demo_env "[''c'']" "\<lambda>_ _. []"
      "[OpFetch ''http://s/x'' demo_sha]" demo_host demo_sha] demo_sha_lower by auto

section \<open>How many requests\<close>

lemma send_checked_count:
  assumes "\<And>rq w. count (snd (env_http E rq w)) = count w + (1 :: nat)"
  shows "count (snd (send_checked E rq w)) \<le> count w + env_retries E + 1"
  unfolding send_checked_def
  by (rule conjunct1 [OF retry_when_count]) (simp add: assms case_prod_beta)

lemma verify_and_cache_counts:
  assumes "verify_and_cache E bytes expected base (d, m) = (r, d', m')"
  shows "cache_hits m' = cache_hits m \<and> cache_misses m' = cache_misses m \<and> errors m' = errors m"
  using verify_and_cache_cases [OF assms] by (auto simp: cache_gauges_def)

lemma finish_fetch_counts:
  assumes "finish_fetch E resp expected base t = (r, t')"
  shows "cache_hits (hs_metrics t') = cache_hits (hs_metrics t)
    \<and> cache_misses (hs_metrics t') = cache_misses (hs_metrics t)
    \<and> errors (hs_metrics t') = errors (hs_metrics t)"
  using assms
  by (auto simp: finish_fetch_def Let_def count_download_def dest!: verify_and_cache_counts
      split: option.splits sum.splits if_splits prod.splits)

lemma fetch_and_cache_inner_costs:
  assumes "\<And>rq w. count (snd (env_http E rq w)) = count w + (1 :: nat)"
    and i: "fetch_and_cache_inner E url expected base s = (r, s1)"
  shows "errors (hs_metrics s1) = errors (hs_metrics s) \<and>
    (if cache_exists (hs_disk s) base expected
     then hs_world s1 = hs_world s \<and> cache_hits (hs_metrics s1) = cache_hits (hs_metrics s) + 1
          \<and> cache_misses (hs_metrics s1) = cache_misses (hs_metrics s)
     else count (hs_world s1) \<le> count (hs_world s) + env_retries E + 1
          \<and> cache_misses (hs_metrics s1) = cache_misses (hs_metrics s) + 1
          \<and> cache_hits (hs_metrics s1) = cache_hits (hs_metrics s))"
proof (cases "cache_exists (hs_disk s) base expected")
  case True
  then show ?thesis using i by (auto simp: fetch_and_cache_inner_def inc_hits_def)
next
  case miss: False
  obtain q w where q: "send_checked E (http_get url []) (hs_world s) = (q, w)" by fastforce
  have w: "count w \<le> count (hs_world s) + env_retries E + 1"
    using send_checked_count [of count E "http_get url []" "hs_world s", OF assms(1)] q by simp
  show ?thesis
  proof (cases "env_client_ok E \<and> (\<exists>resp. q = Inr resp)")
    case True
    then obtain resp where resp: "q = Inr resp" by blast
    with True miss q i have f: "finish_fetch E resp expected base
        (s\<lparr>hs_metrics := inc_misses (hs_metrics s), hs_world := w\<rparr>) = (r, s1)"
      by (simp add: fetch_and_cache_inner_def Let_def)
    from finish_fetch_counts [OF f] finish_fetch_cases(1) [OF f] miss w show ?thesis
      by (simp add: inc_misses_def)
  next
    case False
    then show ?thesis
      using miss q i w by (cases q) (auto simp: fetch_and_cache_inner_def Let_def inc_misses_def
          split: if_splits)
  qed
qed

text \<open>C33. A fetch of a cached blob sends nothing; any other fetch sends one request and at most
  \<open>env_retries\<close> more, however the server behaves; and whatever happens the fetch counts as
  exactly one hit or one miss, and as one error when it fails.\<close>

theorem fetch_and_cache_costs:
  assumes "\<And>rq w. count (snd (env_http E rq w)) = count w + (1 :: nat)"
  shows "case fetch_and_cache E url expected base s of (r, s') \<Rightarrow>
    (if cache_exists (hs_disk s) base expected
     then hs_world s' = hs_world s \<and> cache_hits (hs_metrics s') = cache_hits (hs_metrics s) + 1
          \<and> cache_misses (hs_metrics s') = cache_misses (hs_metrics s)
     else count (hs_world s') \<le> count (hs_world s) + env_retries E + 1
          \<and> cache_misses (hs_metrics s') = cache_misses (hs_metrics s) + 1
          \<and> cache_hits (hs_metrics s') = cache_hits (hs_metrics s))
    \<and> (\<forall>c. errors (hs_metrics s') c = errors (hs_metrics s) c
         + (case r of Inl e \<Rightarrow> if categorize_fetch_error e = c then 1 else 0 | Inr _ \<Rightarrow> 0))"
proof -
  obtain r s1 where i: "fetch_and_cache_inner E url expected base s = (r, s1)" by fastforce
  show ?thesis
    unfolding fetch_and_cache_def i using fetch_and_cache_inner_costs [OF assms i]
    by (cases r) (auto simp: count_error_def record_error_def)
qed

theorem fetch_and_cache_costs_witness:
  "hs_world (snd (fetch_and_cache demo_env ''http://s/x'' demo_sha [''c''] demo_host)) \<le> 4"
proof -
  have "(\<lambda>n. n) (snd (env_http demo_env rq w)) = (\<lambda>n. n) w + (1 :: nat)" for rq w
    by (simp add: demo_env_def)
  from fetch_and_cache_costs [of "\<lambda>n. n", OF this, where url = "''http://s/x''"
      and expected = demo_sha and base = "[''c'']" and s = demo_host]
  show ?thesis
    by (simp add: case_prod_beta cache_exists_def demo_path)
      (simp add: demo_host_def demo_env_def)
qed

text \<open>Range reads: a 206 answer is handed on as it is, neither compared with the hash nor with the
  length asked for.\<close>

lemma fetch_range_unverified:
  assumes "env_client_ok E"
    and "send_checked E (http_get url [range_header a b]) (hs_world s) = (Inr resp, w)"
    and "rs_status resp = 206" "rs_content_length resp = None" "rs_body resp = Inr bytes"
    and "length bytes \<le> MAX_BLOB_SIZE"
  shows "fst (fetch_range E url a b s) = Inr (bytes, None)"
  using assms
  by (simp add: fetch_range_def fetch_range_inner_def announced_too_large_def Let_def)

end
