(* ===== verification/Bfs_Git.thy ===== *)
theory Bfs_Git
  imports Bfs_Tree_Ext Bfs_Cache
begin

text \<open>
  Browsing cloned repositories (\<open>src/git/browse.rs\<close>).  The clone itself (\<open>git2\<close>) and the
  directory listing (\<open>walkdir\<close>: pre-order, sorted by name) are parameters; what the code makes
  of the listing is modelled: the \<open>.git\<close> filter, the map from paths to inodes, and the nodes
  added to the tree.
\<close>

datatype clone_error = GitFailed string | AlreadyExists

text \<open>\<open>exists\<close> says which paths exist; \<open>git_clone\<close> is the clone and its error message.\<close>

definition clone_repo ::
  "(fs_path \<Rightarrow> bool) \<Rightarrow> (string \<Rightarrow> fs_path \<Rightarrow> string option) \<Rightarrow> string \<Rightarrow> fs_path \<Rightarrow> clone_error + unit" where
  "clone_repo path_exists git_clone url dest =
     (if path_exists dest \<and> path_exists (dest @ [''.git'']) then Inr ()
      else (case git_clone url dest of
              Some msg \<Rightarrow> Inl (GitFailed msg)
            | None \<Rightarrow> Inr ()))"

datatype walk_kind = WalkDir | WalkFile nat | WalkOther

text \<open>A listed entry: its path below the repository, its last component when it is UTF-8, and its
  kind; or an error of the walk.\<close>

datatype walk_entry =
    WalkError
  | WalkEntry (we_rel: fs_path) (we_name: "string option") (we_kind: walk_kind)

definition under_git :: "fs_path \<Rightarrow> bool" where
  "under_git rel \<longleftrightarrow> prefix [''.git''] rel"

definition walk_filter :: "walk_entry list \<Rightarrow> walk_entry list" where
  "walk_filter es = filter (\<lambda>e. case e of WalkError \<Rightarrow> True | WalkEntry rel _ _ \<Rightarrow> \<not> under_git rel) es"

record walk_state =
  ws_inos :: "fs_path \<Rightarrow> nat option"
  ws_tree :: tree
  ws_count :: nat

definition walk_step :: "nat \<Rightarrow> fs_path \<Rightarrow> walk_state \<Rightarrow> walk_entry \<Rightarrow> walk_state" where
  "walk_step now repo_path s e =
     (case e of
        WalkError \<Rightarrow> s
      | WalkEntry rel None _ \<Rightarrow> s
      | WalkEntry rel (Some name) k \<Rightarrow>
          (case ws_inos s (butlast rel) of
             None \<Rightarrow> s
           | Some p_ino \<Rightarrow>
               (case k of
                  WalkDir \<Rightarrow>
                    (let (dir_ino, t) = add_directory (ws_tree s) p_ino name
                     in \<lparr>ws_inos = (ws_inos s)(rel \<mapsto> dir_ino), ws_tree = t, ws_count = ws_count s + 1\<rparr>)
                | WalkFile sz \<Rightarrow>
                    s\<lparr>ws_tree := snd (add_local_file now (ws_tree s) p_ino name (repo_path @ rel) sz),
                      ws_count := ws_count s + 1\<rparr>
                | WalkOther \<Rightarrow> s)))"

definition walk_repo_tree ::
  "nat \<Rightarrow> walk_entry list \<Rightarrow> fs_path \<Rightarrow> tree \<Rightarrow> nat \<Rightarrow> nat \<times> tree" where
  "walk_repo_tree now listing repo_path t parent_ino =
     (let s = foldl (walk_step now repo_path)
                \<lparr>ws_inos = [[] \<mapsto> parent_ino], ws_tree = t, ws_count = 0\<rparr> (walk_filter listing)
      in (ws_count s, ws_tree s))"

section \<open>What is added\<close>

text \<open>Every directory the walk remembers is a directory of the tree.\<close>

definition walk_ok_state :: "tree \<Rightarrow> walk_state \<Rightarrow> bool" where
  "walk_ok_state t0 s \<longleftrightarrow> tree_wf (ws_tree s) \<and> tree_ext t0 (ws_tree s)
     \<and> (\<forall>rel i. ws_inos s rel = Some i \<longrightarrow> is_dir (ws_tree s) i)
     \<and> node_count (ws_tree s) = node_count t0 + ws_count s"

lemma add_local_file_eq:
  "add_local_file now t p nm path sz = (next_inode t, snd (add_node t p
     (\<lambda>ino. File ino (sanitize_path_component nm) p sz (Local path) now)))"
  by (simp add: add_local_file_def Let_def prod_eq_iff)

lemma walk_step_ok:
  assumes s: "walk_ok_state t0 s"
  shows "walk_ok_state t0 (walk_step now repo s e)"
proof (cases "\<exists>rel nm k i. e = WalkEntry rel (Some nm) k \<and> ws_inos s (butlast rel) = Some i")
  case False
  then show ?thesis using s
    by (auto simp: walk_step_def split: walk_entry.split option.split)
next
  case True
  then obtain rel nm k i where e: "e = WalkEntry rel (Some nm) k" and i: "ws_inos s (butlast rel) = Some i"
    by blast
  have wf: "tree_wf (ws_tree s)" and d: "is_dir (ws_tree s) i"
    using s i by (auto simp: walk_ok_state_def)
  have ext: "tree_ext t0 (ws_tree s)" using s by (simp add: walk_ok_state_def)
  show ?thesis
  proof (cases k)
    case WalkDir
    let ?mk = "\<lambda>ino. Directory ino (sanitize_path_component nm) [] i None"
    have "is_dir (snd (add_node (ws_tree s) i ?mk)) (next_inode (ws_tree s))"
      using get_add_node_new [OF is_dir_valid [OF d]] by (simp add: is_dir_def)
    moreover have "tree_wf (snd (add_node (ws_tree s) i ?mk))"
      using tree_wf_add_directory [OF wf is_dir_valid [OF d], of nm] by (simp add: add_directory_eq)
    ultimately show ?thesis
      using s e i WalkDir tree_ext_trans [OF ext tree_ext_add_node [of "ws_tree s" i ?mk, OF wf d]]
        is_dir_add_node [of "ws_tree s" _ i ?mk]
      by (auto simp: walk_step_def add_directory_eq walk_ok_state_def)
  next
    case (WalkFile sz)
    let ?mk = "\<lambda>ino. File ino (sanitize_path_component nm) i sz (Local (repo @ rel)) now"
    have "tree_wf (snd (add_node (ws_tree s) i ?mk))"
      using tree_wf_add_local_file [OF wf is_dir_valid [OF d], of now nm "repo @ rel" sz]
      by (simp add: add_local_file_eq)
    then show ?thesis
      using s e i WalkFile tree_ext_trans [OF ext tree_ext_add_node [of "ws_tree s" i ?mk, OF wf d]]
        is_dir_add_node [of "ws_tree s" _ i ?mk]
      by (auto simp: walk_step_def add_local_file_eq walk_ok_state_def)
  next
    case WalkOther
    then show ?thesis using s e i by (simp add: walk_step_def)
  qed
qed

lemma walk_fold_ok: "walk_ok_state t0 s \<Longrightarrow> walk_ok_state t0 (foldl (walk_step now repo) s es)"
  by (induction es arbitrary: s) (simp_all add: walk_step_ok)

lemma walk_repo_tree_ok:
  assumes "tree_wf t" "is_dir t p"
  shows "tree_wf (snd (walk_repo_tree now es repo t p))"
    and "tree_ext t (snd (walk_repo_tree now es repo t p))"
    and "node_count (snd (walk_repo_tree now es repo t p))
      = node_count t + fst (walk_repo_tree now es repo t p)"
proof -
  have "walk_ok_state t \<lparr>ws_inos = [[] \<mapsto> p], ws_tree = t, ws_count = 0\<rparr>"
    using assms by (auto simp: walk_ok_state_def split: if_splits)
  from walk_fold_ok [OF this, of now repo "walk_filter es"]
  show "tree_wf (snd (walk_repo_tree now es repo t p))"
    and "tree_ext t (snd (walk_repo_tree now es repo t p))"
    and "node_count (snd (walk_repo_tree now es repo t p))
      = node_count t + fst (walk_repo_tree now es repo t p)"
    by (simp_all add: walk_repo_tree_def Let_def walk_ok_state_def)
qed

text \<open>A listing as \<open>walkdir\<close> gives it: all names UTF-8, every directory before what it contains.\<close>

definition countable_entry :: "walk_entry \<Rightarrow> bool" where
  "countable_entry e = (case e of WalkEntry _ _ WalkDir \<Rightarrow> True | WalkEntry _ _ (WalkFile _) \<Rightarrow> True
     | _ \<Rightarrow> False)"

fun listing_from :: "fs_path set \<Rightarrow> walk_entry list \<Rightarrow> bool" where
  "listing_from seen [] = True"
| "listing_from seen (WalkError # es) = False"
| "listing_from seen (WalkEntry rel nm k # es) =
     (rel \<noteq> [] \<and> nm \<noteq> None \<and> butlast rel \<in> seen
      \<and> listing_from (if k = WalkDir then insert rel seen else seen) es)"

lemma walk_fold_count:
  "listing_from (dom (ws_inos s)) es \<Longrightarrow>
     ws_count (foldl (walk_step now repo) s es) = ws_count s + length (filter countable_entry es)"
proof (induction es arbitrary: s)
  case (Cons e es)
  then obtain rel nm k where e: "e = WalkEntry rel (Some nm) k" by (cases e) auto
  with Cons.prems obtain i where i: "ws_inos s (butlast rel) = Some i" by auto
  have d: "dom (ws_inos (walk_step now repo s e))
      = (if k = WalkDir then insert rel (dom (ws_inos s)) else dom (ws_inos s))"
    using e i by (auto simp: walk_step_def add_directory_eq split: walk_kind.split)
  have "ws_count (walk_step now repo s e) = ws_count s + (if countable_entry e then 1 else 0)"
    using e i by (simp add: walk_step_def add_directory_eq countable_entry_def split: walk_kind.split)
  with Cons.IH [of "walk_step now repo s e"] Cons.prems d e show ?case by simp
qed simp



end
