(* ===== verification/Bfs_Fs.thy ===== *)
theory Bfs_Fs
  imports Bfs_Upload Bfs_Fetch Bfs_Git
begin

text \<open>
  The file system itself (\<open>BlossomFS\<close> and its \<open>fuser::Filesystem\<close> callbacks in
  \<open>src/fuse/fs.rs\<close>): its state, the helpers, the read path and one definition per callback.
  A callback takes its arguments and the state and gives the reply and the next state; \<open>None\<close>
  means that it does not return: a panic, or waiting for a fetch of the same hash that is in
  progress.  Names are optional because an \<open>OsStr\<close> need not be UTF-8.  The kernel's reply
  buffer for \<open>readdir\<close>, the clock, git, the local disk and the network are in \<open>fs_env\<close>.
\<close>

section \<open>State\<close>

record 'w fs_env =
  fe_fetch :: "'w env"
  fe_upload :: "'w upload_env"
  fe_walk :: "disk \<Rightarrow> fs_path \<Rightarrow> fs_path list"
  fe_local :: "fs_path \<Rightarrow> bytes option"
  fe_exists :: "fs_path \<Rightarrow> bool"
  fe_clone :: "string \<Rightarrow> fs_path \<Rightarrow> string option"
  fe_listing :: "fs_path \<Rightarrow> walk_entry list"
  fe_now :: nat
  fe_temp_ok :: bool
  fe_read_ok :: bool

record 'w fs =
  f_tree :: tree
  f_cache_base :: "fs_path option"
  f_runtime :: bool
  f_buffers :: "nat \<Rightarrow> write_buffer option"
  f_keys :: bool
  f_server_url :: "string option"
  f_read_only :: bool
  f_next_fh :: nat
  f_ttl :: nat
  f_max_write_bytes :: nat
  f_free_period_secs :: nat
  f_max_free_size_bytes :: nat
  f_max_cache_bytes :: nat
  f_multipart_threshold :: nat
  f_spill_threshold :: nat
  f_http_timeout :: nat
  f_fetching :: "string set"
  f_frozen :: bool
  f_world :: 'w
  f_disk :: disk
  f_files :: files
  f_metrics :: metrics

definition fs_new :: "'w \<Rightarrow> disk \<Rightarrow> tree \<Rightarrow> nat \<Rightarrow> 'w fs" where
  "fs_new w d t ttl =
     \<lparr>f_tree = t, f_cache_base = None, f_runtime = False, f_buffers = (\<lambda>_. None), f_keys = False,
      f_server_url = None, f_read_only = True, f_next_fh = 1, f_ttl = ttl,
      f_max_write_bytes = 100 * 1024 * 1024, f_free_period_secs = 30 * 86400,
      f_max_free_size_bytes = 1024 * 1024, f_max_cache_bytes = 0,
      f_multipart_threshold = 50 * 1024 * 1024, f_spill_threshold = 64 * 1024 * 1024,
      f_http_timeout = 30, f_fetching = {}, f_frozen = False, f_world = w, f_disk = d,
      f_files = (\<lambda>_. None), f_metrics = metrics_init\<rparr>"

definition fs_new_with_cache ::
  "'w \<Rightarrow> disk \<Rightarrow> tree \<Rightarrow> fs_path \<Rightarrow> nat \<Rightarrow> nat \<Rightarrow> nat \<Rightarrow> nat \<Rightarrow> 'w fs" where
  "fs_new_with_cache w d t cache_base ttl free_period max_free max_cache =
     (fs_new w d t ttl)\<lparr>f_cache_base := Some cache_base, f_runtime := True,
       f_free_period_secs := free_period, f_max_free_size_bytes := max_free,
       f_max_cache_bytes := max_cache\<rparr>"

definition fs_new_rw ::
  "'w \<Rightarrow> disk \<Rightarrow> tree \<Rightarrow> fs_path \<Rightarrow> string \<Rightarrow> nat \<Rightarrow> nat \<Rightarrow> nat \<Rightarrow> nat \<Rightarrow> nat \<Rightarrow> nat \<Rightarrow> nat \<Rightarrow> 'w fs" where
  "fs_new_rw w d t cache_base server_url ttl max_write free_period max_free max_cache multipart spill =
     (fs_new w d t ttl)\<lparr>f_cache_base := Some cache_base, f_runtime := True, f_keys := True,
       f_server_url := Some server_url, f_read_only := False, f_max_write_bytes := max_write,
       f_free_period_secs := free_period, f_max_free_size_bytes := max_free,
       f_max_cache_bytes := max_cache, f_multipart_threshold := multipart,
       f_spill_threshold := spill\<rparr>"

definition set_http_timeout :: "nat \<Rightarrow> 'w fs \<Rightarrow> 'w fs" where
  "set_http_timeout timeout s = s\<lparr>f_http_timeout := timeout\<rparr>"

definition locked :: "'w fs \<Rightarrow> bool" where
  "locked s \<longleftrightarrow> f_read_only s \<or> f_frozen s"

section \<open>Attributes\<close>

datatype file_type = DirType | RegularType

record file_attr =
  fa_ino :: nat
  fa_size :: nat
  fa_blocks :: nat
  fa_time :: "nat option"   \<comment> \<open>the four times; \<open>None\<close> is the current time\<close>
  fa_kind :: file_type
  fa_perm :: nat
  fa_nlink :: nat

definition child_dir_count :: "tree \<Rightarrow> nat list \<Rightarrow> nat" where
  "child_dir_count t cs =
     length (filter (\<lambda>n. case n of Directory _ _ _ _ _ \<Rightarrow> True | _ \<Rightarrow> False) (List.map_filter (get t) cs))"

definition make_fileattr :: "tree \<Rightarrow> nat \<Rightarrow> file_attr option" where
  "make_fileattr t ino =
     (case get t ino of
        None \<Rightarrow> None
      | Some (Directory _ _ children _ _) \<Rightarrow>
          Some \<lparr>fa_ino = ino, fa_size = 0, fa_blocks = 0, fa_time = None, fa_kind = DirType,
                fa_perm = 493, fa_nlink = (if ino = root t then 2 + child_dir_count t children else 2)\<rparr>
      | Some (File _ _ _ sz _ up) \<Rightarrow>
          Some \<lparr>fa_ino = ino, fa_size = sz, fa_blocks = (sz + 511) div 512,
                fa_time = (if up < 2 ^ 63 then Some up else None), fa_kind = RegularType,
                fa_perm = 292, fa_nlink = 1\<rparr>)"

section \<open>Reading\<close>

datatype read_error = ReadNotFound | ReadIsDir | ReadRemote | ReadFetch

definition to_errno :: "read_error \<Rightarrow> errno" where
  "to_errno e = (case e of ReadNotFound \<Rightarrow> ENOENT | ReadIsDir \<Rightarrow> EISDIR | ReadRemote \<Rightarrow> EIO
     | ReadFetch \<Rightarrow> EIO)"

definition host_of :: "'w fs \<Rightarrow> 'w host" where
  "host_of s = \<lparr>hs_world = f_world s, hs_disk = f_disk s, hs_metrics = f_metrics s\<rparr>"

definition put_host :: "'w host \<Rightarrow> 'w fs \<Rightarrow> 'w fs" where
  "put_host h s = s\<lparr>f_world := hs_world h, f_disk := hs_disk h, f_metrics := hs_metrics h\<rparr>"

definition unclaim :: "string \<Rightarrow> 'w fs \<Rightarrow> 'w fs" where
  "unclaim sha256 s = s\<lparr>f_fetching := f_fetching s - {sha256}\<rparr>"

text \<open>A cache hit, if the object exists and can be read.\<close>

definition try_cache :: "'w fs_env \<Rightarrow> 'w fs \<Rightarrow> fs_path \<Rightarrow> string \<Rightarrow> bytes option" where
  "try_cache F s base sha256 =
     (if cache_exists (f_disk s) base sha256
      then (case read_cached (env_io (fe_fetch F)) (f_disk s) base sha256 of
              Inl _ \<Rightarrow> None | Inr cached \<Rightarrow> Some cached)
      else None)"

text \<open>Full fetch, falling back to whatever the cache holds.\<close>

definition full_fetch ::
  "'w fs_env \<Rightarrow> string \<Rightarrow> string \<Rightarrow> fs_path \<Rightarrow> 'w fs \<Rightarrow> (bytes \<times> nat option) option \<times> 'w fs" where
  "full_fetch F url sha256 base s =
     (case fetch_and_cache (fe_fetch F) url sha256 base (host_of s) of
        (Inr r, h) \<Rightarrow> (Some r, put_host h s)
      | (Inl _, h) \<Rightarrow>
          let s1 = put_host h s in
          (case read_cached (env_io (fe_fetch F)) (f_disk s1) base sha256 of
             Inr cached \<Rightarrow> (Some (cached, None), s1)
           | Inl _ \<Rightarrow> (None, s1)))"

text \<open>After the data is there: release the claim, evict, record the expiry, cut the slice.\<close>

definition finish_read ::
  "'w fs_env \<Rightarrow> nat \<Rightarrow> string \<Rightarrow> fs_path \<Rightarrow> nat \<Rightarrow> nat \<Rightarrow> bytes \<times> nat option \<Rightarrow> 'w fs
     \<Rightarrow> (read_error + bytes) \<times> 'w fs" where
  "finish_read F ino sha256 base offset sz r s =
     (case r of (full_data, expiry) \<Rightarrow>
        let s1 = unclaim sha256 s;
            s2 = (if f_max_cache_bytes s1 > 0
                  then (case evict_oldest (env_io (fe_fetch F)) (fe_walk F) base (f_max_cache_bytes s1)
                               sha256 (f_disk s1, f_metrics s1) of
                          (d, m) \<Rightarrow> s1\<lparr>f_disk := d, f_metrics := m\<rparr>)
                  else s1);
            s3 = (case expiry of
                    None \<Rightarrow> s2
                  | Some ts \<Rightarrow> s2\<lparr>f_tree := snd (set_expires (f_tree s2) ino (Some ts))\<rparr>)
        in (Inr (read_slice offset sz full_data), s3))"

definition fetch_remote ::
  "'w fs_env \<Rightarrow> nat \<Rightarrow> string \<Rightarrow> string \<Rightarrow> fs_path \<Rightarrow> nat \<Rightarrow> nat \<Rightarrow> 'w fs
     \<Rightarrow> (read_error + bytes) \<times> 'w fs" where
  "fetch_remote F ino url sha256 base offset sz s =
     (case fetch_range (fe_fetch F) url offset (offset + sz - 1) (host_of s) of
        (Inr (range_data, None), h) \<Rightarrow> (Inr range_data, unclaim sha256 (put_host h s))
      | (Inr (full_blob, Some _), h) \<Rightarrow>
          let s1 = put_host h s in
          (case verify_and_cache (fe_fetch F) full_blob sha256 base (f_disk s1, f_metrics s1) of
             (Inl _, d, m) \<Rightarrow> (Inl ReadFetch, unclaim sha256 (s1\<lparr>f_disk := d, f_metrics := m\<rparr>))
           | (Inr _, d, m) \<Rightarrow>
               finish_read F ino sha256 base offset sz (full_blob, None)
                 (s1\<lparr>f_disk := d, f_metrics := m\<rparr>))
      | (Inl _, h) \<Rightarrow>
          (case full_fetch F url sha256 base (put_host h s) of
             (None, s1) \<Rightarrow> (Inl ReadFetch, unclaim sha256 s1)
           | (Some r, s1) \<Rightarrow> finish_read F ino sha256 base offset sz r s1))"

text \<open>\<open>None\<close>: the hash is being fetched by another read, and this one waits.\<close>

definition read_remote ::
  "'w fs_env \<Rightarrow> nat \<Rightarrow> string \<Rightarrow> string \<Rightarrow> nat \<Rightarrow> nat \<Rightarrow> 'w fs
     \<Rightarrow> ((read_error + bytes) \<times> 'w fs) option" where
  "read_remote F ino url sha256 offset sz s =
     (case f_cache_base s of
        None \<Rightarrow> Some (Inl ReadRemote, s)
      | Some base \<Rightarrow>
          if \<not> f_runtime s then Some (Inl ReadRemote, s)
          else if sz = 0 then Some (Inr [], s)
          else
            (case try_cache F s base sha256 of
               Some cached \<Rightarrow> Some (Inr (read_slice offset sz cached), s)
             | None \<Rightarrow>
                 if sha256 \<in> f_fetching s then None
                 else
                   let s1 = s\<lparr>f_fetching := insert sha256 (f_fetching s)\<rparr>;
                       s2 = (if cache_exists (f_disk s1) base sha256 then unclaim sha256 s1 else s1)
                   in (case try_cache F s2 base sha256 of
                         Some cached \<Rightarrow> Some (Inr (read_slice offset sz cached), s2)
                       | None \<Rightarrow> Some (fetch_remote F ino url sha256 base offset sz s2))))"

definition read_content ::
  "'w fs_env \<Rightarrow> nat \<Rightarrow> nat \<Rightarrow> nat \<Rightarrow> 'w fs \<Rightarrow> ((read_error + bytes) \<times> 'w fs) option" where
  "read_content F ino offset sz s =
     (case get (f_tree s) ino of
        None \<Rightarrow> Some (Inl ReadNotFound, s)
      | Some (Directory _ _ _ _ _) \<Rightarrow> Some (Inl ReadIsDir, s)
      | Some (File _ _ _ _ (Static data) _) \<Rightarrow> Some (Inr (read_slice offset sz data), s)
      | Some (File _ _ _ _ (Remote url sha256 _ _) _) \<Rightarrow> read_remote F ino url sha256 offset sz s
      | Some (File _ _ _ _ (Local path) _) \<Rightarrow>
          (case fe_local F path of
             None \<Rightarrow> Some (Inl ReadFetch, s)
           | Some data \<Rightarrow> Some (Inr (read_slice offset sz data), s)))"

section \<open>Other helpers\<close>

definition file_type_of :: "node_kind \<Rightarrow> file_type" where
  "file_type_of k = (case k of DirectoryKind \<Rightarrow> DirType | FileKind \<Rightarrow> RegularType)"

definition list_directory :: "tree \<Rightarrow> nat \<Rightarrow> (nat \<times> string \<times> file_type) list option" where
  "list_directory t ino =
     map_option (map (\<lambda>(c, nm, k). (c, nm, file_type_of k))) (readdir t ino)"

definition clone_failed_text :: "string \<Rightarrow> string \<Rightarrow> bytes" where
  "clone_failed_text url err =
     ''Failed to clone repository:'' @ [CHR 0x0A] @ ''  URL: '' @ url @ [CHR 0x0A]
     @ ''  Error: '' @ err @ [CHR 0x0A]"

definition clone_error_text :: "clone_error \<Rightarrow> string" where
  "clone_error_text e = (case e of GitFailed msg \<Rightarrow> ''git error: '' @ msg
     | AlreadyExists \<Rightarrow> ''destination already exists'')"

definition populate_if_lazy :: "'w fs_env \<Rightarrow> nat \<Rightarrow> 'w fs \<Rightarrow> 'w fs" where
  "populate_if_lazy F ino s =
     (case take_lazy (f_tree s) ino of
        (None, t) \<Rightarrow> s\<lparr>f_tree := t\<rparr>
      | (Some (GitRepo url path), t) \<Rightarrow>
          (case clone_repo (fe_exists F) (fe_clone F) url path of
             Inl e \<Rightarrow> s\<lparr>f_tree := snd (add_static_file (fe_now F) t ino ''CLONE_FAILED.txt''
                                      (clone_failed_text url (clone_error_text e)))\<rparr>
           | Inr _ \<Rightarrow> s\<lparr>f_tree := snd (walk_repo_tree (fe_now F) (fe_listing F path) path t ino)\<rparr>))"

text \<open>The loop that counts inodes until one is missing.\<close>

fun count_from :: "nat \<Rightarrow> tree \<Rightarrow> nat \<Rightarrow> nat" where
  "count_from 0 t ino = 0"
| "count_from (Suc fuel) t ino = (case get t ino of None \<Rightarrow> 0 | Some _ \<Rightarrow> 1 + count_from fuel t (ino + 1))"

definition fs_node_count :: "tree \<Rightarrow> nat" where
  "fs_node_count t = count_from (length (nodes t) + 1) t 1"

definition compute_effective_expiry :: "'w fs \<Rightarrow> nat \<Rightarrow> nat option" where
  "compute_effective_expiry s ino =
     (case get (f_tree s) ino of
        Some (File _ _ _ sz (Remote _ _ _ e) up) \<Rightarrow>
          (case e of
             Some ts \<Rightarrow> Some ts
           | None \<Rightarrow> if sz \<le> f_max_free_size_bytes s
                     then Some ((up + f_free_period_secs s) mod u64_max) else None)
      | _ \<Rightarrow> None)"

definition upload_cfg :: "'w fs \<Rightarrow> upload_config option" where
  "upload_cfg s =
     (case f_server_url s of
        None \<Rightarrow> None
      | Some server \<Rightarrow>
          if f_keys s \<and> f_runtime s
          then Some \<lparr>uc_server = server, uc_cache_base = f_cache_base s,
                     uc_free_period = f_free_period_secs s,
                     uc_multipart_threshold = f_multipart_threshold s\<rparr>
          else None)"

definition fs_upload :: "'w fs_env \<Rightarrow> nat \<Rightarrow> bytes \<Rightarrow> bytes \<Rightarrow> 'w fs \<Rightarrow> (bool \<times> 'w fs) option" where
  "fs_upload F ino data hashed s =
     (case do_upload (fe_upload F) (upload_cfg s) ino data (env_hash (fe_fetch F) hashed)
             \<lparr>us_world = f_world s, us_files = f_files s, us_metrics = f_metrics s, us_tree = f_tree s\<rparr> of
        None \<Rightarrow> None
      | Some (ok, u) \<Rightarrow> Some (ok, s\<lparr>f_world := us_world u, f_files := us_files u,
                                   f_metrics := us_metrics u, f_tree := us_tree u\<rparr>))"

definition cleanup_failed_write :: "write_buffer \<Rightarrow> 'w fs \<Rightarrow> 'w fs" where
  "cleanup_failed_write buf s =
     s\<lparr>f_tree := snd (remove_file_from_dir (f_tree s) (wb_parent buf) (wb_name buf))\<rparr>"

end
