(* ===== verification/Bfs_Handlers.thy ===== *)
theory Bfs_Handlers
  imports Bfs_Fs
begin

text \<open>
  The \<open>fuser::Filesystem\<close> callbacks of \<open>src/fuse/fs.rs\<close>, one definition each, and the
  transition function \<open>fs_step\<close> over all of them.
\<close>

datatype reply =
    RpError errno
  | RpOk
  | RpEntry file_attr
  | RpAttr file_attr
  | RpOpened nat
  | RpCreated file_attr nat
  | RpData bytes
  | RpSize nat
  | RpWritten nat
  | RpDir "(nat \<times> nat \<times> file_type \<times> string) list"
  | RpStatfs nat

type_synonym 'w handler = "(reply \<times> 'w fs) option"

section \<open>Lookup, attributes, directories\<close>

definition op_lookup :: "'w fs_env \<Rightarrow> nat \<Rightarrow> string option \<Rightarrow> 'w fs \<Rightarrow> 'w handler" where
  "op_lookup F parent name s =
     (let s1 = populate_if_lazy F parent s in
      Some (case name of
              None \<Rightarrow> RpError ENOENT
            | Some nm \<Rightarrow>
                (case lookup (f_tree s1) parent nm of
                   None \<Rightarrow> RpError ENOENT
                 | Some ino \<Rightarrow> (case make_fileattr (f_tree s1) ino of
                                 None \<Rightarrow> RpError ENOENT | Some a \<Rightarrow> RpEntry a)), s1))"

definition attr_reply :: "tree \<Rightarrow> nat \<Rightarrow> reply" where
  "attr_reply t ino = (case make_fileattr t ino of None \<Rightarrow> RpError ENOENT | Some a \<Rightarrow> RpAttr a)"

definition op_getattr :: "nat \<Rightarrow> 'w fs \<Rightarrow> 'w handler" where
  "op_getattr ino s = Some (attr_reply (f_tree s) ino, s)"

text \<open>The loop over \<open>reply.add\<close>: \<open>fits\<close> says whether one more entry fits into the kernel's
  buffer; the entry that does not fit ends the reply.\<close>

fun dir_fill ::
  "((nat \<times> nat \<times> file_type \<times> string) list \<Rightarrow> nat \<times> nat \<times> file_type \<times> string \<Rightarrow> bool) \<Rightarrow> nat
     \<Rightarrow> (nat \<times> nat \<times> file_type \<times> string) list \<Rightarrow> (nat \<times> nat \<times> file_type \<times> string) list
     \<Rightarrow> (nat \<times> nat \<times> file_type \<times> string) list" where
  "dir_fill fits offset acc [] = acc"
| "dir_fill fits offset acc (e # es) =
     (if offset < fst (snd e)
      then (if fits acc e then dir_fill fits offset (acc @ [e]) es else acc)
      else dir_fill fits offset acc es)"

text \<open>An entry is inode, offset, type and name: \<open>.\<close> at 1, \<open>..\<close> at 2, the children from 3.\<close>

definition dir_stream :: "tree \<Rightarrow> nat \<Rightarrow> (nat \<times> string \<times> file_type) list \<Rightarrow> (nat \<times> nat \<times> file_type \<times> string) list" where
  "dir_stream t ino entries =
     (let parent_ino = (case get t ino of Some (Directory _ _ _ p _) \<Rightarrow> p | _ \<Rightarrow> 0)
      in [(ino, 1, DirType, ''.''), (parent_ino, 2, DirType, ''..'')]
         @ map (\<lambda>(i, (c, nm, k)). (c, 3 + i, k, nm)) (enumerate 0 entries))"

definition op_readdir ::
  "'w fs_env \<Rightarrow> ((nat \<times> nat \<times> file_type \<times> string) list \<Rightarrow> nat \<times> nat \<times> file_type \<times> string \<Rightarrow> bool)
     \<Rightarrow> nat \<Rightarrow> nat \<Rightarrow> 'w fs \<Rightarrow> 'w handler" where
  "op_readdir F fits ino offset s =
     (let s1 = populate_if_lazy F ino s in
      Some (case list_directory (f_tree s1) ino of
              None \<Rightarrow> RpError ENOTDIR
            | Some entries \<Rightarrow> RpDir (dir_fill fits offset [] (dir_stream (f_tree s1) ino entries)), s1))"

definition op_statfs :: "'w fs \<Rightarrow> 'w handler" where
  "op_statfs s = Some (RpStatfs (fs_node_count (f_tree s)), s)"

section \<open>Opening and reading\<close>

definition flag_set :: "nat \<Rightarrow> nat \<Rightarrow> bool" where
  "flag_set flags k \<longleftrightarrow> odd (flags div 2 ^ k)"

definition op_open :: "nat \<Rightarrow> nat \<Rightarrow> 'w fs \<Rightarrow> 'w handler" where
  "op_open ino flags s =
     (if locked s \<or> flags mod 4 = 0 then
        Some (if get (f_tree s) ino = None then RpError ENOENT else RpOpened 0, s)
      else
        let o_trunc = flag_set flags 9; o_append = flag_set flags 10 in
        (case get (f_tree s) ino of
           None \<Rightarrow> Some (RpError ENOENT, s)
         | Some (Directory _ _ _ _ _) \<Rightarrow> Some (RpError EISDIR, s)
         | Some (File _ _ _ _ (Static data) _) \<Rightarrow>
             let initial = (if o_trunc then [] else data);
                 fh = f_next_fh s;
                 s1 = s\<lparr>f_next_fh := fh + 1,
                        f_buffers := (f_buffers s)(fh \<mapsto> new_buffer ino 0 [] initial o_append)\<rparr>;
                 s2 = (if o_trunc then s1\<lparr>f_tree := snd (update_file_size (f_tree s1) ino 0)\<rparr> else s1)
             in Some (RpOpened fh, s2)
         | Some (File _ _ _ _ _ _) \<Rightarrow> Some (RpError EACCES, s)))"

definition op_read :: "'w fs_env \<Rightarrow> nat \<Rightarrow> nat \<Rightarrow> nat \<Rightarrow> 'w fs \<Rightarrow> 'w handler" where
  "op_read F ino offset sz s =
     (case read_content F ino offset sz s of
        None \<Rightarrow> None
      | Some (Inr data, s') \<Rightarrow> Some (RpData data, s')
      | Some (Inl e, s') \<Rightarrow> Some (RpError (to_errno e), s'))"

section \<open>Changing the tree\<close>

definition op_setattr :: "nat \<Rightarrow> nat option \<Rightarrow> 'w fs \<Rightarrow> 'w handler" where
  "op_setattr ino sz s =
     (if locked s then Some (RpError EROFS, s)
      else
        let s1 = (case sz of
                    None \<Rightarrow> s
                  | Some n \<Rightarrow> s\<lparr>f_tree := snd (update_file_size (f_tree s) ino n)\<rparr>)
        in Some (attr_reply (f_tree s1) ino, s1))"

definition entry_reply :: "tree \<Rightarrow> nat \<Rightarrow> reply" where
  "entry_reply t ino = (case make_fileattr t ino of None \<Rightarrow> RpError EIO | Some a \<Rightarrow> RpEntry a)"

definition op_mkdir :: "nat \<Rightarrow> string option \<Rightarrow> 'w fs \<Rightarrow> 'w handler" where
  "op_mkdir parent name s =
     (if locked s then Some (RpError EROFS, s)
      else
        (case name of
           None \<Rightarrow> Some (RpError EINVAL, s)
         | Some nm \<Rightarrow>
             if \<not> is_dir (f_tree s) parent then Some (RpError ENOTDIR, s)
             else if lookup (f_tree s) parent nm \<noteq> None then Some (RpError EEXIST, s)
             else
               let (ino, t) = add_directory (f_tree s) parent nm
               in Some (entry_reply t ino, s\<lparr>f_tree := t\<rparr>)))"

definition remote_sha :: "tree \<Rightarrow> nat \<Rightarrow> string option" where
  "remote_sha t ino =
     (case get t ino of Some (File _ _ _ _ (Remote _ sha256 _ _) _) \<Rightarrow> Some sha256 | _ \<Rightarrow> None)"

text \<open>Deleting a remote blob: on the server when there are keys, and from the cache.\<close>

definition delete_on_server :: "'w fs_env \<Rightarrow> string \<Rightarrow> 'w fs \<Rightarrow> 'w fs" where
  "delete_on_server F sha256 s =
     (case f_server_url s of
        Some server \<Rightarrow>
          if f_keys s \<and> f_runtime s then
            (case create_delete_auth_header (ue_auth (fe_upload F)) sha256 of
               None \<Rightarrow> s
             | Some auth \<Rightarrow>
                 s\<lparr>f_world := snd (delete_blob (ue_client (fe_upload F)) (client_new server)
                                    sha256 auth (f_world s))\<rparr>)
          else s
      | None \<Rightarrow> s)"

definition delete_cached :: "'w fs_env \<Rightarrow> string \<Rightarrow> 'w fs \<Rightarrow> 'w fs" where
  "delete_cached F sha256 s =
     (case f_cache_base s of
        None \<Rightarrow> s
      | Some base \<Rightarrow>
          (case cache_path base sha256 of
             Inl _ \<Rightarrow> s
           | Inr p \<Rightarrow> if env_io (fe_fetch F) (RemoveFile p) then s\<lparr>f_disk := (f_disk s)(p := None)\<rparr>
                      else s))"

definition delete_remote :: "'w fs_env \<Rightarrow> string \<Rightarrow> 'w fs \<Rightarrow> 'w fs" where
  "delete_remote F sha256 s = delete_cached F sha256 (delete_on_server F sha256 s)"

lemmas delete_remote_defs = delete_remote_def delete_on_server_def delete_cached_def

definition op_unlink :: "'w fs_env \<Rightarrow> nat \<Rightarrow> string option \<Rightarrow> 'w fs \<Rightarrow> 'w handler" where
  "op_unlink F parent name s =
     (if locked s then Some (RpError EROFS, s)
      else
        (case name of
           None \<Rightarrow> Some (RpError EINVAL, s)
         | Some nm \<Rightarrow>
             (case lookup (f_tree s) parent nm of
                None \<Rightarrow> Some (RpError ENOENT, s)
              | Some child \<Rightarrow>
                  let s1 = (case remote_sha (f_tree s) child of
                              None \<Rightarrow> s | Some sha256 \<Rightarrow> delete_remote F sha256 s);
                      (ok, t) = remove_file_from_dir (f_tree s1) parent nm
                  in Some (if ok then RpOk else RpError ENOENT, s1\<lparr>f_tree := t\<rparr>))))"

definition op_rmdir :: "nat \<Rightarrow> string option \<Rightarrow> 'w fs \<Rightarrow> 'w handler" where
  "op_rmdir parent name s =
     (if locked s then Some (RpError EROFS, s)
      else
        (case name of
           None \<Rightarrow> Some (RpError EINVAL, s)
         | Some nm \<Rightarrow>
             (case lookup (f_tree s) parent nm of
                None \<Rightarrow> Some (RpError ENOENT, s)
              | Some child \<Rightarrow>
                  (case get (f_tree s) child of
                     Some (Directory _ _ children _ _) \<Rightarrow>
                       if children \<noteq> [] then Some (RpError ENOTEMPTY, s)
                       else Some (RpOk, s\<lparr>f_tree := update_node (f_tree s) parent (unlink_child child)\<rparr>)
                   | _ \<Rightarrow> Some (RpError ENOTDIR, s)))))"

definition op_rename :: "'w fs \<Rightarrow> 'w handler" where
  "op_rename s = Some (RpError (if locked s then EROFS else ENOSYS), s)"

definition op_link :: "'w fs \<Rightarrow> 'w handler" where
  "op_link s = Some (RpError (if locked s then EROFS else ENOSYS), s)"

text \<open>\<open>mknod\<close>, \<open>symlink\<close>, \<open>fallocate\<close>, \<open>copy_file_range\<close>, \<open>setxattr\<close> and \<open>removexattr\<close>.\<close>

definition op_refused :: "'w fs \<Rightarrow> 'w handler" where
  "op_refused s = Some (RpError EROFS, s)"

section \<open>Writing\<close>

definition op_create :: "'w fs_env \<Rightarrow> nat \<Rightarrow> string option \<Rightarrow> nat \<Rightarrow> 'w fs \<Rightarrow> 'w handler" where
  "op_create F parent name flags s =
     (if locked s then Some (RpError EROFS, s)
      else
        (case name of
           None \<Rightarrow> Some (RpError EINVAL, s)
         | Some nm \<Rightarrow>
             let fh = f_next_fh s;
                 s1 = s\<lparr>f_next_fh := fh + 1\<rparr>;
                 t = f_tree s1
             in if \<not> is_dir t parent then Some (RpError ENOTDIR, s1)
                else
                  (case (case lookup t parent nm of
                           Some existing \<Rightarrow>
                             if flag_set flags 9
                             then Some (existing, snd (update_file_node t existing (Static []) 0 (fe_now F)))
                             else None
                         | None \<Rightarrow> Some (add_file_to_dir t parent nm (Static []) 0 (fe_now F))) of
                     None \<Rightarrow> Some (RpError EEXIST, s1)
                   | Some (ino, t') \<Rightarrow>
                       let s2 = s1\<lparr>f_tree := t', f_buffers := (f_buffers s1)(fh \<mapsto>
                                   new_buffer ino parent nm [] (flag_set flags 10))\<rparr>
                       in Some (case make_fileattr t' ino of
                                  None \<Rightarrow> RpError EIO | Some a \<Rightarrow> RpCreated a fh, s2))))"

definition op_write :: "'w fs_env \<Rightarrow> nat \<Rightarrow> nat \<Rightarrow> bytes \<Rightarrow> 'w fs \<Rightarrow> 'w handler" where
  "op_write F fh offset data s =
     (if locked s then Some (RpError EROFS, s)
      else
        (case f_buffers s fh of
           None \<Rightarrow> Some (RpError EBADF, s)
         | Some buf \<Rightarrow>
             (case buf_write (f_max_write_bytes s) (f_spill_threshold s) (fe_temp_ok F) offset data buf of
                None \<Rightarrow> None
              | Some (Inl e) \<Rightarrow> Some (RpError e, s)
              | Some (Inr buf') \<Rightarrow>
                  Some (RpWritten (length data),
                        s\<lparr>f_buffers := (f_buffers s)(fh \<mapsto> buf'),
                          f_tree := snd (update_file_size (f_tree s) (wb_ino buf')
                                      (storage_len (wb_storage buf')))\<rparr>))))"

definition upload_data :: "'w fs_env \<Rightarrow> write_buffer \<Rightarrow> bytes" where
  "upload_data F buf = (case read_all (fe_read_ok F) (wb_storage buf) of None \<Rightarrow> [] | Some d \<Rightarrow> d)"

definition op_flush :: "'w fs_env \<Rightarrow> nat \<Rightarrow> 'w fs \<Rightarrow> 'w handler" where
  "op_flush F fh s =
     (case f_buffers s fh of
        None \<Rightarrow> Some (RpOk, s)
      | Some buf \<Rightarrow>
          if wb_flushed buf \<or> storage_len (wb_storage buf) = 0 then Some (RpOk, s)
          else
            let s1 = s\<lparr>f_buffers := (f_buffers s)(fh \<mapsto> buf\<lparr>wb_flushed := True\<rparr>)\<rparr>
            in (case fs_upload F (wb_ino buf) (upload_data F buf) (wb_hashed buf) s1 of
                  None \<Rightarrow> None
                | Some (ok, s2) \<Rightarrow> Some (if ok then RpOk else RpError EIO, s2)))"

definition op_release :: "'w fs_env \<Rightarrow> nat \<Rightarrow> 'w fs \<Rightarrow> 'w handler" where
  "op_release F fh s =
     (let s1 = s\<lparr>f_buffers := (f_buffers s)(fh := None)\<rparr> in
      case f_buffers s fh of
        None \<Rightarrow> Some (RpOk, s1)
      | Some buf \<Rightarrow>
          if wb_flushed buf \<or> storage_len (wb_storage buf) = 0 then Some (RpOk, s1)
          else
            (case fs_upload F (wb_ino buf) (upload_data F buf) (wb_hashed buf) s1 of
               None \<Rightarrow> None
             | Some (True, s2) \<Rightarrow> Some (RpOk, s2)
             | Some (False, s2) \<Rightarrow> Some (RpOk, cleanup_failed_write buf s2)))"

definition op_fsync :: "'w fs \<Rightarrow> 'w handler" where
  "op_fsync s = Some (RpOk, s)"

section \<open>Extended attributes\<close>

definition expiry_attr :: string where
  "expiry_attr = ''user.blossom.expiry''"

text \<open>The size protocol: 0 asks for the length, a buffer that is too small gets \<open>ERANGE\<close>.\<close>

definition xattr_reply :: "nat \<Rightarrow> bytes \<Rightarrow> reply" where
  "xattr_reply sz value =
     (if sz = 0 then RpSize (length value)
      else if sz \<ge> length value then RpData value
      else RpError ERANGE)"

definition op_getxattr :: "nat \<Rightarrow> string \<Rightarrow> nat \<Rightarrow> 'w fs \<Rightarrow> 'w handler" where
  "op_getxattr ino name sz s =
     Some (if name \<noteq> expiry_attr then RpError ENODATA
           else (case compute_effective_expiry s ino of
                   None \<Rightarrow> RpError ENODATA
                 | Some ts \<Rightarrow> xattr_reply sz (nat_to_string ts)), s)"

definition op_listxattr :: "nat \<Rightarrow> nat \<Rightarrow> 'w fs \<Rightarrow> 'w handler" where
  "op_listxattr ino sz s =
     Some (case get (f_tree s) ino of
             None \<Rightarrow> RpError ENOENT
           | Some (File _ _ _ _ (Remote _ _ _ _) _) \<Rightarrow> xattr_reply sz (expiry_attr @ [CHR 0x00])
           | Some _ \<Rightarrow> (if sz = 0 then RpSize 0 else RpData []), s)"

section \<open>All callbacks\<close>

datatype fs_op =
    Lookup nat "string option"
  | Getattr nat
  | Open nat nat
  | Read nat nat nat
  | Readdir "(nat \<times> nat \<times> file_type \<times> string) list \<Rightarrow> nat \<times> nat \<times> file_type \<times> string \<Rightarrow> bool" nat nat
  | Statfs
  | Setattr nat "nat option"
  | Mknod
  | Mkdir nat "string option"
  | Unlink nat "string option"
  | Rmdir nat "string option"
  | Symlink
  | Rename
  | Link
  | Write nat nat bytes
  | Flush nat
  | Release nat
  | Fsync
  | Create nat "string option" nat
  | Fallocate
  | CopyFileRange
  | Getxattr nat string nat
  | Listxattr nat nat
  | Setxattr
  | Removexattr

definition fs_step :: "'w fs_env \<Rightarrow> fs_op \<Rightarrow> 'w fs \<Rightarrow> 'w handler" where
  "fs_step F op s =
     (case op of
        Lookup parent name \<Rightarrow> op_lookup F parent name s
      | Getattr ino \<Rightarrow> op_getattr ino s
      | Open ino flags \<Rightarrow> op_open ino flags s
      | Read ino offset sz \<Rightarrow> op_read F ino offset sz s
      | Readdir fits ino offset \<Rightarrow> op_readdir F fits ino offset s
      | Statfs \<Rightarrow> op_statfs s
      | Setattr ino sz \<Rightarrow> op_setattr ino sz s
      | Mknod \<Rightarrow> op_refused s
      | Mkdir parent name \<Rightarrow> op_mkdir parent name s
      | Unlink parent name \<Rightarrow> op_unlink F parent name s
      | Rmdir parent name \<Rightarrow> op_rmdir parent name s
      | Symlink \<Rightarrow> op_refused s
      | Rename \<Rightarrow> op_rename s
      | Link \<Rightarrow> op_link s
      | Write fh offset data \<Rightarrow> op_write F fh offset data s
      | Flush fh \<Rightarrow> op_flush F fh s
      | Release fh \<Rightarrow> op_release F fh s
      | Fsync \<Rightarrow> op_fsync s
      | Create parent name flags \<Rightarrow> op_create F parent name flags s
      | Fallocate \<Rightarrow> op_refused s
      | CopyFileRange \<Rightarrow> op_refused s
      | Getxattr ino name sz \<Rightarrow> op_getxattr ino name sz s
      | Listxattr ino sz \<Rightarrow> op_listxattr ino sz s
      | Setxattr \<Rightarrow> op_refused s
      | Removexattr \<Rightarrow> op_refused s)"

end
