(* ===== verification/Bfs_Fs_Run.thy ===== *)
theory Bfs_Fs_Run
  imports Bfs_Fs_Inv
begin

text \<open>
  The mounted file system as a machine: the invariant \<open>fs_inv\<close>, its preservation by every
  callback, the interpretation of \<open>invariant_machine\<close> on \<open>fs_step\<close>, and what follows for
  reachable states: locked mounts, verified reads, one upload per handle.
\<close>

section \<open>Reads, as a whole\<close>

lemma try_cache_claims [simp]:
  "try_cache F (unclaim x s) = try_cache F s"
  "try_cache F (s\<lparr>f_fetching := X\<rparr>) = try_cache F s"
  by (simp_all add: try_cache_def unclaim_def fun_eq_iff)

definition cache_ok :: "'w fs_env \<Rightarrow> 'w fs \<Rightarrow> bool" where
  "cache_ok F s \<longleftrightarrow> (\<forall>base. f_cache_base s = Some base \<longrightarrow> cache_sound (fe_fetch F) base (f_disk s))"

lemma cache_ok_frame:
  "read_frame s s' \<Longrightarrow> f_cache_base s = Some base \<Longrightarrow> cache_sound (fe_fetch F) base (f_disk s') \<Longrightarrow> cache_ok F s'"
  by (simp add: cache_ok_def read_frame_def)

text \<open>Where the bytes of a remote read come from.\<close>

definition remote_bytes :: "'w fs_env \<Rightarrow> string \<Rightarrow> string \<Rightarrow> nat \<Rightarrow> nat \<Rightarrow> 'w fs \<Rightarrow> bytes \<Rightarrow> bool" where
  "remote_bytes F url sha offset sz s data \<longleftrightarrow>
     (sz = 0 \<and> data = [])
     \<or> (\<exists>full. good_data F sha full \<and> data = read_slice offset sz full)
     \<or> (\<exists>h. fetch_range (fe_fetch F) url offset (offset + sz - 1) (host_of s) = (Inr (data, None), h))"

lemma read_remote_stage:
  assumes c: "cache_ok F s" and idle: "f_fetching s = {}"
  shows "\<exists>r s'. read_remote F ino url sha offset sz s = Some (r, s')
    \<and> read_frame s s' \<and> f_fetching s' = {} \<and> cache_ok F s'
    \<and> (\<forall>data. r = Inr data \<longrightarrow> remote_bytes F url sha offset sz s data)"
proof (cases "f_cache_base s = None \<or> \<not> f_runtime s \<or> sz = 0")
  case True
  then show ?thesis
    using c idle by (auto simp: read_remote_def remote_bytes_def split: option.split)
next
  case False
  then obtain base where b: "f_cache_base s = Some base" and rt: "f_runtime s" and sz: "sz \<noteq> 0" by auto
  have cs: "cache_sound (fe_fetch F) base (f_disk s)" using c b by (simp add: cache_ok_def)
  show ?thesis
  proof (cases "try_cache F s base sha")
    case (Some cached)
    then show ?thesis
      using b rt sz c idle try_cache_good [OF cs Some]
      by (auto simp: read_remote_def remote_bytes_def)
  next
    case None
    define s1 where "s1 = s\<lparr>f_fetching := insert sha (f_fetching s)\<rparr>"
    define s2 where "s2 = (if cache_exists (f_disk s1) base sha then unclaim sha s1 else s1)"
    have t2: "try_cache F s2 base sha = None"
      using None by (simp add: s2_def s1_def)
    have step: "read_remote F ino url sha offset sz s = Some (fetch_remote F ino url sha base offset sz s2)"
      using b rt sz None idle t2 by (simp add: read_remote_def Let_def s1_def s2_def)
    obtain r s' where f: "fetch_remote F ino url sha base offset sz s2 = (r, s')" by fastforce
    have cs2: "cache_sound (fe_fetch F) base (f_disk s2)" using cs by (simp add: s2_def s1_def)
    have fr: "read_frame s s2" by (simp add: s2_def s1_def read_frame_def unclaim_def)
    have fe: "f_fetching s2 - {sha} = {}" using idle by (auto simp: s2_def s1_def)
    have host: "host_of s2 = host_of s" by (simp add: s2_def s1_def host_of_def unclaim_def)
    note S = fetch_remote_stage [OF cs2 f]
    have "read_frame s s'" using S read_frame_trans [OF fr] by blast
    moreover have "cache_ok F s'" using calculation b S by (blast intro: cache_ok_frame)
    ultimately show ?thesis
      using step f S fe host by (auto simp: remote_bytes_def)
  qed
qed

lemma read_content_stage:
  assumes "cache_ok F s" and "f_fetching s = {}"
  shows "\<exists>r s'. read_content F ino offset sz s = Some (r, s')
    \<and> read_frame s s' \<and> f_fetching s' = {} \<and> cache_ok F s'
    \<and> (\<forall>data i nm p n url sha mime e up. r = Inr data \<longrightarrow>
         get (f_tree s) ino = Some (File i nm p n (Remote url sha mime e) up) \<longrightarrow>
         remote_bytes F url sha offset sz s data)"
proof (cases "\<exists>i nm p n url sha mime e up. get (f_tree s) ino = Some (File i nm p n (Remote url sha mime e) up)")
  case True
  then obtain i nm p n url sha mime e up
    where g: "get (f_tree s) ino = Some (File i nm p n (Remote url sha mime e) up)" by blast
  show ?thesis
    using read_remote_stage [OF assms, of ino url sha offset sz] g
    by (simp add: read_content_def)
next
  case False
  then show ?thesis
    using assms
    by (auto simp: read_content_def split: option.split tree_node.split file_content.split)
qed

section \<open>The invariant\<close>

definition fs_inv :: "'w fs_env \<Rightarrow> 'w fs \<Rightarrow> bool" where
  "fs_inv F s \<longleftrightarrow> tree_wf (f_tree s) \<and> f_fetching s = {} \<and> cache_ok F s
     \<and> (\<forall>fh b. f_buffers s fh = Some b \<longrightarrow> 1 \<le> fh \<and> fh < f_next_fh s)
     \<and> 1 \<le> f_next_fh s \<and> (f_read_only s \<longrightarrow> f_buffers s = Map.empty)"

lemma fs_inv_read_frame:
  "fs_inv F s \<Longrightarrow> read_frame s s' \<Longrightarrow> f_fetching s' = {} \<Longrightarrow> cache_ok F s' \<Longrightarrow> fs_inv F s'"
  by (simp add: fs_inv_def read_frame_def)

text \<open>A new tree.\<close>

lemma fs_inv_tree: "fs_inv F s \<Longrightarrow> tree_wf t \<Longrightarrow> fs_inv F (s\<lparr>f_tree := t\<rparr>)"
  by (simp add: fs_inv_def cache_ok_def)

lemma fs_inv_populate: "fs_inv F s \<Longrightarrow> fs_inv F (populate_if_lazy F ino s)"
proof -
  assume i: "fs_inv F s"
  then have wf: "tree_wf (f_tree s)" by (simp add: fs_inv_def)
  obtain lz t where t: "take_lazy (f_tree s) ino = (lz, t)" by fastforce
  have wt: "tree_wf t" using tree_wf_take_lazy [OF wf, of ino] t by simp
  show ?thesis
  proof (cases lz)
    case None
    then show ?thesis using i t wt by (simp add: populate_if_lazy_def fs_inv_tree)
  next
    case (Some l)
    then have d: "is_dir t ino"
      using t by (auto simp: take_lazy_def is_dir_def get_update_node split: option.splits tree_node.splits)
    show ?thesis
      using i t Some fs_inv_tree [OF i tree_wf_add_static_file [OF wt is_dir_valid [OF d]]]
        fs_inv_tree [OF i walk_repo_tree_ok(1) [OF wt d]]
      by (auto simp: populate_if_lazy_def split: lazy_dir.split sum.split)
  qed
qed

text \<open>An upload touches the world, the session files, the metrics and one node.\<close>

lemma do_upload_tree:
  assumes "do_upload U cfg ino data sha s = Some (ok, s')"
  shows "us_tree s' = us_tree s
    \<or> (\<exists>url h mime e sz up. us_tree s' = snd (update_file_node (us_tree s) ino (Remote url h mime e) sz up))"
    and "\<not> ok \<Longrightarrow> us_tree s' = us_tree s"
proof -
  obtain s1 where i: "do_upload_inner U cfg ino data sha (s\<lparr>us_metrics := guard_new (us_metrics s)\<rparr>)
      = Some (ok, s1)" and s': "s' = s1\<lparr>us_metrics := guard_drop (us_metrics s1)\<rparr>"
    using assms by (auto simp: do_upload_def split: option.splits)
  from do_upload_inner_frame [OF i] s' show "us_tree s' = us_tree s
    \<or> (\<exists>url h mime e sz up. us_tree s' = snd (update_file_node (us_tree s) ino (Remote url h mime e) sz up))"
    and "\<not> ok \<Longrightarrow> us_tree s' = us_tree s"
    by (auto split: if_splits)
qed

lemma fs_upload_frame:
  assumes "fs_upload F ino data hashed s = Some (ok, s')"
  shows "\<exists>w fls m t. s' = s\<lparr>f_world := w, f_files := fls, f_metrics := m, f_tree := t\<rparr>
    \<and> (tree_wf (f_tree s) \<longrightarrow> tree_wf t) \<and> root t = root (f_tree s)"
proof -
  obtain u where u: "do_upload (fe_upload F) (upload_cfg s) ino data (env_hash (fe_fetch F) hashed)
             \<lparr>us_world = f_world s, us_files = f_files s, us_metrics = f_metrics s, us_tree = f_tree s\<rparr> = Some (ok, u)"
      and s': "s' = s\<lparr>f_world := us_world u, f_files := us_files u, f_metrics := us_metrics u, f_tree := us_tree u\<rparr>"
    using assms by (auto simp: fs_upload_def split: option.splits)
  have r: "root (snd (update_file_node (f_tree s) ino c n up)) = root (f_tree s)" for c n up
    by (simp add: update_file_node_def split: option.split tree_node.split)
  have "(tree_wf (f_tree s) \<longrightarrow> tree_wf (us_tree u)) \<and> root (us_tree u) = root (f_tree s)"
    using do_upload_tree(1) [OF u] r by (auto intro: tree_wf_update_file_node)
  then show ?thesis using s' by blast
qed

lemma fs_inv_upload:
  "fs_inv F s \<Longrightarrow> fs_upload F ino data hashed s = Some (ok, s') \<Longrightarrow> fs_inv F s'"
  by (drule fs_upload_frame) (auto simp: fs_inv_def cache_ok_def)

lemma fs_inv_delete_on_server: "fs_inv F s \<Longrightarrow> fs_inv F (delete_on_server F sha s)"
  by (auto simp: delete_on_server_def fs_inv_def cache_ok_def split: option.split)

lemma cache_sound_drop: "cache_sound E base d \<Longrightarrow> cache_sound E base (d(p := None))"
  by (erule cache_sound_sub) simp

lemma fs_inv_delete_cached: "fs_inv F s \<Longrightarrow> fs_inv F (delete_cached F sha s)"
  by (auto simp: delete_cached_def fs_inv_def cache_ok_def cache_sound_drop split: option.split sum.split)

lemma fs_inv_delete_remote: "fs_inv F s \<Longrightarrow> fs_inv F (delete_remote F sha s)"
  by (simp add: delete_remote_def fs_inv_delete_on_server fs_inv_delete_cached)

section \<open>Every callback keeps it\<close>

definition fs_exec :: "'w fs_env \<Rightarrow> fs_op \<Rightarrow> 'w fs \<Rightarrow> 'w fs" where
  "fs_exec F op s = (case fs_step F op s of None \<Rightarrow> s | Some (_, s') \<Rightarrow> s')"

lemma fs_inv_lookup: "fs_inv F s \<Longrightarrow> op_lookup F parent name s = Some (r, s') \<Longrightarrow> fs_inv F s'"
  by (auto simp: op_lookup_def Let_def fs_inv_populate)

lemma fs_inv_readdir: "fs_inv F s \<Longrightarrow> op_readdir F fits ino off s = Some (r, s') \<Longrightarrow> fs_inv F s'"
  by (auto simp: op_readdir_def Let_def fs_inv_populate)

lemma fs_inv_read: "fs_inv F s \<Longrightarrow> op_read F ino off sz s = Some (r, s') \<Longrightarrow> fs_inv F s'"
proof -
  assume i: "fs_inv F s" and o: "op_read F ino off sz s = Some (r, s')"
  from i have "cache_ok F s" "f_fetching s = {}" by (simp_all add: fs_inv_def)
  from read_content_stage [OF this, of ino off sz] obtain q s1
    where q: "read_content F ino off sz s = Some (q, s1)" "read_frame s s1" "f_fetching s1 = {}" "cache_ok F s1"
    by blast
  with o have "s' = s1" by (auto simp: op_read_def split: sum.splits)
  with q fs_inv_read_frame [OF i] show "fs_inv F s'" by blast
qed

lemma fs_inv_new_buffer:
  assumes "fs_inv F s" "\<not> f_read_only s" "tree_wf t"
  shows "fs_inv F (s\<lparr>f_next_fh := f_next_fh s + 1, f_tree := t, f_buffers := (f_buffers s)(f_next_fh s \<mapsto> b)\<rparr>)"
  using assms by (auto simp: fs_inv_def cache_ok_def less_SucI)

lemma fs_inv_next_fh: "fs_inv F s \<Longrightarrow> fs_inv F (s\<lparr>f_next_fh := Suc (f_next_fh s)\<rparr>)"
  by (auto simp: fs_inv_def cache_ok_def less_SucI)

lemma fs_inv_open:
  assumes i: "fs_inv F s" and o: "op_open ino flags s = Some (r, s')"
  shows "fs_inv F s'"
proof (cases "locked s \<or> flags mod 4 = 0")
  case True
  then show ?thesis using i o by (simp add: op_open_def)
next
  case False
  have wf: "tree_wf (f_tree s)" and "\<not> f_read_only s" using i False by (simp_all add: fs_inv_def locked_def)
  then have b: "fs_inv F (s\<lparr>f_next_fh := Suc (f_next_fh s), f_buffers := (f_buffers s)(f_next_fh s \<mapsto> b)\<rparr>)" for b
    using fs_inv_new_buffer [OF i, of "f_tree s" b] by simp
  note fs_inv_tree [OF b tree_wf_update_file_size [OF wf]]
  with o i False b show ?thesis
    by (simp add: op_open_def Let_def split: if_splits option.splits tree_node.splits file_content.splits)
      auto
qed

lemma fs_inv_create:
  assumes i: "fs_inv F s" and o: "op_create F parent name flags s = Some (r, s')"
  shows "fs_inv F s'"
proof (cases "locked s \<or> name = None")
  case True
  then show ?thesis using i o by (auto simp: op_create_def split: if_splits)
next
  case False
  then obtain nm where nm: "name = Some nm" and ro: "\<not> f_read_only s" and lk: "\<not> locked s"
    by (auto simp: locked_def)
  have wf: "tree_wf (f_tree s)" using i by (simp add: fs_inv_def)
  define made where "made = (case lookup (f_tree s) parent nm of
       Some existing \<Rightarrow>
         if flag_set flags 9
         then Some (existing, snd (update_file_node (f_tree s) existing (Static []) 0 (fe_now F)))
         else None
     | None \<Rightarrow> Some (add_file_to_dir (f_tree s) parent nm (Static []) 0 (fe_now F)))"
  have mwf: "is_dir (f_tree s) parent \<Longrightarrow> made = Some (j, t) \<Longrightarrow> tree_wf t" for j t
    using tree_wf_add_file_to_dir [OF wf is_dir_valid, of parent nm "Static []" 0 "fe_now F"]
      tree_wf_update_file_node [OF wf]
    by (auto simp: made_def split: option.splits if_splits)
  have o': "op_create F parent name flags s =
     (if \<not> is_dir (f_tree s) parent then Some (RpError ENOTDIR, s\<lparr>f_next_fh := Suc (f_next_fh s)\<rparr>)
      else case made of
         None \<Rightarrow> Some (RpError EEXIST, s\<lparr>f_next_fh := Suc (f_next_fh s)\<rparr>)
       | Some (ino, t') \<Rightarrow> Some (case make_fileattr t' ino of
             None \<Rightarrow> RpError EIO | Some a \<Rightarrow> RpCreated a (f_next_fh s),
           s\<lparr>f_next_fh := f_next_fh s + 1, f_tree := t', f_buffers := (f_buffers s)(f_next_fh s \<mapsto>
               new_buffer ino parent nm [] (flag_set flags 10))\<rparr>))"
    using nm lk unfolding op_create_def Let_def made_def
    by (cases "lookup (f_tree s) parent nm") simp_all
  show ?thesis
    using o mwf fs_inv_new_buffer [OF i ro] fs_inv_next_fh [OF i] unfolding o'
    by (cases made) (auto split: if_splits)
qed

lemma fs_inv_buffers:
  "fs_inv F s \<Longrightarrow> (\<And>fh b. bs fh = Some b \<Longrightarrow> f_buffers s fh \<noteq> None) \<Longrightarrow> fs_inv F (s\<lparr>f_buffers := bs\<rparr>)"
proof -
  assume i: "fs_inv F s" and b: "\<And>fh b. bs fh = Some b \<Longrightarrow> f_buffers s fh \<noteq> None"
  have "\<exists>b'. f_buffers s fh = Some b'" if "bs fh = Some b'" for fh b' using b [OF that] by blast
  moreover have "bs = Map.empty" if "f_buffers s = Map.empty" using b that by (auto simp: fun_eq_iff) (metis not_Some_eq)
  ultimately show ?thesis using i unfolding fs_inv_def cache_ok_def by auto
qed

lemma fs_inv_write:
  assumes i: "fs_inv F s" and o: "op_write F fh off data s = Some (r, s')"
  shows "fs_inv F s'"
proof (cases "locked s \<or> f_buffers s fh = None")
  case True
  then show ?thesis using i o by (auto simp: op_write_def split: if_splits)
next
  case False
  then obtain b where b: "f_buffers s fh = Some b" and lk: "\<not> locked s" by auto
  have wf: "tree_wf (f_tree s)" using i by (simp add: fs_inv_def)
  have "fs_inv F (s\<lparr>f_buffers := (f_buffers s)(fh \<mapsto> b'),
      f_tree := snd (update_file_size (f_tree s) k n)\<rparr>)" for b' k n
  proof -
    have "fs_inv F (s\<lparr>f_buffers := (f_buffers s)(fh \<mapsto> b')\<rparr>)"
      using b by (intro fs_inv_buffers [OF i]) (auto split: if_splits)
    from fs_inv_tree [OF this tree_wf_update_file_size [OF wf]] show ?thesis by simp
  qed
  with i o b lk show ?thesis
    by (auto simp: op_write_def split: option.splits sum.splits)
qed

lemma fs_inv_flush:
  assumes i: "fs_inv F s" and o: "op_flush F fh s = Some (r, s')"
  shows "fs_inv F s'"
proof (cases "f_buffers s fh")
  case (Some b)
  have "fs_inv F (s\<lparr>f_buffers := (f_buffers s)(fh \<mapsto> b\<lparr>wb_flushed := True\<rparr>)\<rparr>)"
    using Some by (intro fs_inv_buffers [OF i]) (auto split: if_splits)
  then show ?thesis
    using o i Some fs_inv_upload by (auto simp: op_flush_def Let_def split: if_splits option.splits)
qed (use i o in \<open>simp add: op_flush_def\<close>)

lemma fs_inv_release:
  assumes i: "fs_inv F s" and o: "op_release F fh s = Some (r, s')"
  shows "fs_inv F s'"
proof -
  have r: "fs_inv F (s\<lparr>f_buffers := (f_buffers s)(fh := None)\<rparr>)"
    by (intro fs_inv_buffers [OF i]) (auto split: if_splits)
  have c: "fs_inv F s2 \<Longrightarrow> fs_inv F (cleanup_failed_write b s2)" for s2 b
    unfolding cleanup_failed_write_def
    by (rule fs_inv_tree) (auto simp: fs_inv_def tree_wf_remove_file)
  show ?thesis
    using o r c fs_inv_upload [OF r]
    by (auto simp: op_release_def Let_def split: if_splits option.splits bool.splits)
qed

lemma fs_inv_unlink:
  assumes i: "fs_inv F s" and o: "op_unlink F parent name s = Some (r, s')"
  shows "fs_inv F s'"
proof -
  have "fs_inv F (s1\<lparr>f_tree := snd (remove_file_from_dir (f_tree s1) parent nm)\<rparr>)"
    if "fs_inv F s1" for s1 nm
    using fs_inv_tree [OF that tree_wf_remove_file] that by (simp add: fs_inv_def)
  with i o fs_inv_delete_remote [OF i] show ?thesis
    by (auto simp: op_unlink_def Let_def case_prod_beta split: if_splits option.splits)
qed

lemma fs_inv_other:
  assumes i: "fs_inv F s"
  shows "op_setattr ino sz s = Some (r, s') \<Longrightarrow> fs_inv F s'"
    and "op_mkdir parent name s = Some (r, s') \<Longrightarrow> fs_inv F s'"
    and "op_rmdir parent name s = Some (r, s') \<Longrightarrow> fs_inv F s'"
proof -
  have wf: "tree_wf (f_tree s)" using i by (simp add: fs_inv_def)
  show "op_setattr ino sz s = Some (r, s') \<Longrightarrow> fs_inv F s'"
    using i fs_inv_tree [OF i tree_wf_update_file_size [OF wf]]
    by (auto simp: op_setattr_def Let_def split: if_splits option.splits)
  have add: "is_dir (f_tree s) parent \<Longrightarrow> add_directory (f_tree s) parent nm = (j, t) \<Longrightarrow> tree_wf t" for nm j t
    using tree_wf_add_directory [OF wf is_dir_valid, of parent nm] by (metis snd_conv)
  show "op_mkdir parent name s = Some (r, s') \<Longrightarrow> fs_inv F s'"
    using i add fs_inv_tree [OF i]
    by (auto simp: op_mkdir_def split: if_splits option.splits prod.splits)
  show "op_rmdir parent name s = Some (r, s') \<Longrightarrow> fs_inv F s'"
    using i fs_inv_tree [OF i tree_wf_unlink_child [OF wf]]
    by (auto simp: op_rmdir_def split: if_splits option.splits tree_node.splits)
qed

lemma fs_step_inv: "fs_inv F s \<Longrightarrow> fs_step F op s = Some (r, s') \<Longrightarrow> fs_inv F s'"
  by (cases op)
    (auto simp: fs_step_def op_getattr_def op_statfs_def op_refused_def op_rename_def op_link_def
      op_fsync_def op_getxattr_def op_listxattr_def
      dest: fs_inv_lookup fs_inv_readdir fs_inv_read fs_inv_open fs_inv_create fs_inv_write
        fs_inv_flush fs_inv_release fs_inv_unlink fs_inv_other)

interpretation mount: invariant_machine "fs_exec F" "fs_inv F" for F
proof
  fix s op
  assume "fs_inv F s"
  then show "fs_inv F (fs_exec F op s)"
    using fs_step_inv [of F s op] by (auto simp: fs_exec_def split: option.split)
qed

section \<open>A concrete mount\<close>

definition demo_fs_env :: "request list fs_env" where
  "demo_fs_env = \<lparr>fe_fetch = \<lparr>env_http = (\<lambda>rq w. (Inr \<lparr>rs_status = 200, rs_content_length = Some 2,
       rs_headers = (\<lambda>_. None), rs_body = Inr ''ok''\<rparr>, w @ [rq])),
     env_client_ok = True, env_hash = (\<lambda>_. demo_sha), env_http_date = (\<lambda>_. None),
     env_uni = \<lparr>uni_alnum = (\<lambda>_. False), uni_lower = (\<lambda>s. s)\<rparr>,
     env_io = (\<lambda>_. True), env_mtime = 7, env_retries = 3\<rparr>,
     fe_upload = demo_upload_env, fe_walk = (\<lambda>_ _. []), fe_local = (\<lambda>_. None), fe_exists = (\<lambda>_. False),
     fe_clone = (\<lambda>_ _. None), fe_listing = (\<lambda>_. []), fe_now = 5, fe_temp_ok = True, fe_read_ok = True\<rparr>"

definition demo_mount :: "request list fs" where
  "demo_mount = fs_new_rw [] Map.empty new_tree [''c''] ''http://s'' 1 100 0 0 0 100 100"

lemma demo_mount_inv: "fs_inv demo_fs_env demo_mount"
  using tree_wf_new
  by (simp add: fs_inv_def cache_ok_def demo_mount_def fs_new_rw_def fs_new_def cache_sound_def)

end
