(* ===== verification/Bfs_Fs_Props.thy ===== *)
theory Bfs_Fs_Props
  imports Bfs_Fs_Run
begin

text \<open>
  What the kernel and the user can rely on, for any sequence of callbacks: verified reads,
  locked and read-only mounts, complete directory listings, one upload per handle.
\<close>

section \<open>Reachable states\<close>

lemma fs_inv_new_rw:
  assumes "tree_wf t" and "cache_sound (fe_fetch F) base d"
  shows "fs_inv F (fs_new_rw w d t base server ttl mw fp mf mc mp sp)"
  using assms by (simp add: fs_inv_def cache_ok_def fs_new_rw_def fs_new_def)

lemma fs_inv_new_cache:
  assumes "tree_wf t" and "cache_sound (fe_fetch F) base d"
  shows "fs_inv F (fs_new_with_cache w d t base ttl fp mf mc)"
  using assms by (simp add: fs_inv_def cache_ok_def fs_new_with_cache_def fs_new_def)

text \<open>C1. Whatever callbacks the kernel makes, in whatever order, a mount that started on a
  well-formed tree and a sound cache keeps both: the tree is well formed, every cached object
  hashes to its name, every open write handle has a number that was handed out, and no fetch
  claim is left behind. A read returns (it never waits on a claim), and the bytes it gives for
  a remote file are a slice of data with the file's SHA-256, or what the server sent as a
  partial (206) response for exactly that range.\<close>

theorem mounted_reads_verified:
  assumes "tree_wf t" and "cache_sound (fe_fetch F) base d"
    and s: "s = fold (fs_exec F) ops (fs_new_rw w d t base server ttl mw fp mf mc mp sp)"
  shows "tree_wf (f_tree s) \<and> cache_ok F s \<and> f_fetching s = {}
    \<and> (\<forall>fh b. f_buffers s fh = Some b \<longrightarrow> fh < f_next_fh s)
    \<and> (\<forall>ino offset sz. \<exists>r s'. fs_step F (Read ino offset sz) s = Some (r, s')
         \<and> (\<forall>data i nm p n url sha mime e up. r = RpData data \<longrightarrow>
              get (f_tree s) ino = Some (File i nm p n (Remote url sha mime e) up) \<longrightarrow>
              remote_bytes F url sha offset sz s data))"
proof -
  have i: "fs_inv F s"
    unfolding s by (rule mount.run_inv, rule fs_inv_new_rw [OF assms(1,2)])
  then have c: "cache_ok F s" and idle: "f_fetching s = {}" by (simp_all add: fs_inv_def)
  have "\<exists>r s'. fs_step F (Read ino offset sz) s = Some (r, s')
         \<and> (\<forall>data i nm p n url sha mime e up. r = RpData data \<longrightarrow>
              get (f_tree s) ino = Some (File i nm p n (Remote url sha mime e) up) \<longrightarrow>
              remote_bytes F url sha offset sz s data)" for ino offset sz
  proof -
    obtain q s1 where q: "read_content F ino offset sz s = Some (q, s1)"
      and d: "\<forall>data i nm p n url sha mime e up. q = Inr data \<longrightarrow>
         get (f_tree s) ino = Some (File i nm p n (Remote url sha mime e) up) \<longrightarrow>
         remote_bytes F url sha offset sz s data"
      using read_content_stage [OF c idle, of ino offset sz] by blast
    show ?thesis using q d by (cases q) (simp_all add: fs_step_def op_read_def)
  qed
  with i show ?thesis unfolding fs_inv_def by blast
qed

section \<open>Locked mounts\<close>

definition changes_content :: "fs_op \<Rightarrow> bool" where
  "changes_content op = (case op of
      Setattr _ _ \<Rightarrow> True | Mknod \<Rightarrow> True | Mkdir _ _ \<Rightarrow> True | Unlink _ _ \<Rightarrow> True | Rmdir _ _ \<Rightarrow> True
    | Symlink \<Rightarrow> True | Rename \<Rightarrow> True | Link \<Rightarrow> True | Write _ _ _ \<Rightarrow> True | Create _ _ _ \<Rightarrow> True
    | Fallocate \<Rightarrow> True | CopyFileRange \<Rightarrow> True | Setxattr \<Rightarrow> True | Removexattr \<Rightarrow> True | _ \<Rightarrow> False)"

lemma locked_step:
  assumes "locked s"
  shows "(changes_content op \<longrightarrow> fs_step F op s = Some (RpError EROFS, s))
    \<and> (\<exists>r. fs_step F (Open ino flags) s = Some (r, s) \<and> r \<in> {RpOpened 0, RpError ENOENT})"
  using assms
  by (cases op) (simp_all add: changes_content_def fs_step_def op_setattr_def op_refused_def op_mkdir_def
      op_unlink_def op_rmdir_def op_rename_def op_link_def op_write_def op_create_def op_open_def)



section \<open>A read-only mount only downloads\<close>

definition gets_keep :: "'w env \<Rightarrow> ('w \<Rightarrow> bool) \<Rightarrow> bool" where
  "gets_keep E P \<longleftrightarrow> (\<forall>url hs w. P w \<longrightarrow> P (snd (env_http E (http_get url hs) w)))"

lemma retry_when_keeps:
  "(\<And>w. P w \<Longrightarrow> P (snd (act w))) \<Longrightarrow> P w \<Longrightarrow> P (snd (retry_when n tr act w))"
proof (induction n arbitrary: w)
  case (Suc n)
  obtain r w' where a: "act w = (r, w')" by fastforce
  then have "P w'" using Suc.prems(1) [OF Suc.prems(2)] by simp
  with Suc a show ?case by (auto split: sum.split)
qed simp

lemma send_checked_keeps:
  "gets_keep E P \<Longrightarrow> P w \<Longrightarrow> P (snd (send_checked E (http_get url hs) w))"
  unfolding send_checked_def
  by (rule retry_when_keeps) (auto simp: gets_keep_def case_prod_beta)

lemma fetch_range_keeps:
  assumes "gets_keep E P" "P (hs_world h)"
  shows "P (hs_world (snd (fetch_range E url a b h)))"
proof -
  obtain q w where q: "send_checked E (http_get url [range_header a b]) (hs_world h) = (q, w)" by fastforce
  have "P w" using send_checked_keeps [OF assms, of url "[range_header a b]"] q by simp
  then show ?thesis
    using assms(2) q
    by (auto simp: fetch_range_def fetch_range_inner_def Let_def
        split: prod.split sum.split option.split)
qed

lemma fetch_and_cache_keeps:
  assumes "gets_keep E P" "P (hs_world h)"
  shows "P (hs_world (snd (fetch_and_cache E url sha base h)))"
proof -
  obtain q w where q: "send_checked E (http_get url []) (hs_world h) = (q, w)" by fastforce
  have p: "P w" using send_checked_keeps [OF assms, of url "[]"] q by simp
  have f: "hs_world (snd (finish_fetch E resp sha base h')) = hs_world h'" for resp h'
    using finish_fetch_cases(1) [of E resp sha base h'] by (metis prod.collapse)
  have "P (hs_world (snd (fetch_and_cache_inner E url sha base h)))"
    using assms(2) q p f by (cases q) (simp_all add: fetch_and_cache_inner_def Let_def)
  then show ?thesis by (simp add: fetch_and_cache_def case_prod_beta)
qed

lemma full_fetch_keeps:
  assumes "gets_keep (fe_fetch F) P" "P (f_world s)"
  shows "P (f_world (snd (full_fetch F url sha base s)))"
proof -
  obtain q h where q: "fetch_and_cache (fe_fetch F) url sha base (host_of s) = (q, h)" by fastforce
  have "P (hs_world h)"
    using fetch_and_cache_keeps [OF assms(1), of "host_of s" url sha base] assms(2) q
    by (simp add: host_of_def)
  then show ?thesis using q by (cases q) (auto simp: full_fetch_def Let_def put_host_def split: sum.split)
qed

lemma finish_read_world [simp]: "f_world (snd (finish_read F ino sha base off sz r s)) = f_world s"
  by (cases r) (auto simp: finish_read_def Let_def unclaim_def split: option.split prod.split)

lemma fetch_remote_keeps:
  assumes "gets_keep (fe_fetch F) P" "P (f_world s)"
  shows "P (f_world (snd (fetch_remote F ino url sha base off sz s)))"
proof -
  obtain q h where q: "fetch_range (fe_fetch F) url off (off + sz - 1) (host_of s) = (q, h)" by fastforce
  have p: "P (hs_world h)"
    using fetch_range_keeps [OF assms(1), of "host_of s" url off "off + sz - 1"] assms(2) q
    by (simp add: host_of_def)
  have pf: "P (f_world (snd (full_fetch F url sha base (put_host h s))))"
    using p by (intro full_fetch_keeps [OF assms(1)]) (simp add: put_host_def)
  show ?thesis
  proof (cases q)
    case (Inl e)
    then show ?thesis using pf q
      by (auto simp: fetch_remote_def unclaim_def split: prod.split option.split)
  next
    case (Inr x)
    then show ?thesis using p q
      by (cases x) (auto simp: fetch_remote_def Let_def unclaim_def put_host_def
          split: prod.split option.split sum.split)
  qed
qed

lemma read_content_keeps:
  assumes g: "gets_keep (fe_fetch F) P" "P (f_world s)"
    and r: "read_content F ino off sz s = Some (q, s')"
  shows "P (f_world s')"
proof -
  have fr: "fetch_remote F ino url sha base off sz s1 = (q, s') \<Longrightarrow> f_world s1 = f_world s \<Longrightarrow> P (f_world s')"
    for url sha base s1 using fetch_remote_keeps [OF g(1), of s1 ino url sha base off sz] g(2) by simp
  have "read_remote F ino url sha off sz s = Some (q, s') \<Longrightarrow> P (f_world s')" for url sha
    using g(2) fr
    by (auto simp: read_remote_def Let_def unclaim_def split: option.splits if_splits)
  then show ?thesis
    using r g(2) by (auto simp: read_content_def split: option.splits tree_node.splits file_content.splits)
qed

lemma populate_world [simp]: "f_world (populate_if_lazy F ino s) = f_world s"
  "f_read_only (populate_if_lazy F ino s) = f_read_only s"
  "f_buffers (populate_if_lazy F ino s) = f_buffers s"
  "f_next_fh (populate_if_lazy F ino s) = f_next_fh s"
  "f_frozen (populate_if_lazy F ino s) = f_frozen s"
  by (auto simp: populate_if_lazy_def split: prod.split option.split lazy_dir.split sum.split)

definition ro_inv :: "'w fs_env \<Rightarrow> ('w \<Rightarrow> bool) \<Rightarrow> 'w fs \<Rightarrow> bool" where
  "ro_inv F P s \<longleftrightarrow> fs_inv F s \<and> f_read_only s \<and> P (f_world s)"

lemma ro_step:
  assumes g: "gets_keep (fe_fetch F) P" and i: "ro_inv F P s" and st: "fs_step F op s = Some (r, s')"
  shows "ro_inv F P s'"
proof -
  have inv: "fs_inv F s'" using fs_step_inv [OF _ st] i by (simp add: ro_inv_def)
  have ro: "f_read_only s" "locked s" "P (f_world s)" "f_buffers s = Map.empty"
    using i by (simp_all add: ro_inv_def fs_inv_def locked_def)
  have rd: "f_read_only s1 \<and> P (f_world s1)" if "read_content F ino off sz s = Some (q, s1)" for ino off sz q s1
    using read_content_keeps [OF g ro(3) that] read_content_stage [of F s ino off sz] i that ro(1)
    by (auto simp: ro_inv_def fs_inv_def read_frame_def)
  have "f_read_only s' \<and> P (f_world s')"
    using st ro rd
    by (cases op)
      (auto simp: fs_step_def op_lookup_def op_readdir_def op_getattr_def op_statfs_def op_refused_def op_rename_def op_link_def
      op_fsync_def op_getxattr_def op_listxattr_def op_setattr_def op_mkdir_def op_unlink_def op_rmdir_def op_write_def
      op_create_def op_open_def op_flush_def op_release_def op_read_def Let_def split: option.splits sum.splits)
  with inv show ?thesis by (simp add: ro_inv_def)
qed

interpretation get_only: invariant_machine "fs_exec F"
    "\<lambda>s. gets_keep (fe_fetch F) P \<longrightarrow> ro_inv F P s" for F P
proof
  fix s op
  assume "gets_keep (fe_fetch F) P \<longrightarrow> ro_inv F P s"
  then show "gets_keep (fe_fetch F) P \<longrightarrow> ro_inv F P (fs_exec F op s)"
    using ro_step [of F P s op] by (auto simp: fs_exec_def split: option.split)
qed


section \<open>Listing a directory page by page\<close>

type_synonym dir_entry = "nat \<times> nat \<times> file_type \<times> string"

text \<open>The kernel's loop: ask from the offset of the last entry received until an empty page.\<close>

fun read_pages ::
  "'w fs_env \<Rightarrow> (dir_entry list \<Rightarrow> dir_entry \<Rightarrow> bool) list \<Rightarrow> nat \<Rightarrow> nat \<Rightarrow> 'w fs \<Rightarrow> dir_entry list" where
  "read_pages F [] ino off s = []"
| "read_pages F (fits # fs) ino off s =
     (case op_readdir F fits ino off s of
        Some (RpDir es, s') \<Rightarrow>
          if es = [] then [] else es @ read_pages F fs ino (fst (snd (last es))) s'
      | _ \<Rightarrow> [])"

lemma dir_fill_skip:
  "(\<And>e. e \<in> set es \<Longrightarrow> fst (snd e) \<le> off) \<Longrightarrow> dir_fill fits off acc (es @ rest) = dir_fill fits off acc rest"
proof (induction es)
  case (Cons e es)
  have "\<not> off < fst (snd e)" using Cons.prems [of e] by simp
  with Cons show ?case by simp
qed simp

lemma dir_fill_prefix:
  "(\<And>e. e \<in> set es \<Longrightarrow> off < fst (snd e)) \<Longrightarrow> \<exists>k. dir_fill fits off acc es = acc @ take k es"
proof (induction es arbitrary: acc)
  case (Cons e es)
  have lt: "off < fst (snd e)" using Cons.prems by simp
  obtain k where "dir_fill fits off (acc @ [e]) es = acc @ [e] @ take k es"
    using Cons.IH [of "acc @ [e]"] Cons.prems by auto
  then have "fits acc e \<Longrightarrow> dir_fill fits off acc (e # es) = acc @ take (Suc k) (e # es)"
    using lt by simp
  moreover have "\<not> fits acc e \<Longrightarrow> dir_fill fits off acc (e # es) = acc @ take 0 (e # es)" using lt by simp
  ultimately show ?case by blast
qed simp

text \<open>The offsets of the stream count from 1.\<close>

lemma dir_stream_offsets: "map (\<lambda>e. fst (snd e)) (dir_stream t ino entries) = [1..<length entries + 3]"
proof -
  have "map (\<lambda>e. fst (snd e)) (map (\<lambda>(i, (c, nm, k)). (c, 3 + i, k, nm)) (enumerate 0 entries))
      = map (\<lambda>i. 3 + i) (map fst (enumerate 0 entries))"
    unfolding map_map by (rule map_cong) auto
  then have e: "map (\<lambda>e. fst (snd e)) (map (\<lambda>(i, (c, nm, k)). (c, 3 + i, k, nm)) (enumerate 0 entries))
      = map (\<lambda>i. 3 + i) [0..<length entries]"
    unfolding map_fst_enumerate by simp
  have "map (\<lambda>i. 3 + i) [0..<n] = [3..<n + 3]" for n :: nat
    using map_add_upt [of 3 n] by (simp add: add.commute)
  moreover have "[1..<n + 3] = 1 # 2 # [3..<n + 3]" for n :: nat
    using upt_conv_Cons [of 1 "n + 3"] upt_conv_Cons [of 2 "n + 3"] by (simp add: numeral_eq_Suc)
  ultimately show ?thesis
    using e unfolding dir_stream_def Let_def by simp
qed

lemma dir_stream_offset:
  "i < length (dir_stream t ino entries) \<Longrightarrow> fst (snd (dir_stream t ino entries ! i)) = Suc i"
proof -
  assume i: "i < length (dir_stream t ino entries)"
  then have "map (\<lambda>e. fst (snd e)) (dir_stream t ino entries) ! i = fst (snd (dir_stream t ino entries ! i))"
    by simp
  moreover have "length (dir_stream t ino entries) = length entries + 2"
    by (simp add: dir_stream_def Let_def)
  ultimately show ?thesis
    using i nth_upt [of 1 i "length entries + 3"] unfolding dir_stream_offsets by simp
qed

lemma dir_fill_page:
  assumes off: "off < length es" and num: "\<And>i. i < length es \<Longrightarrow> fst (snd (es ! i)) = Suc i"
    and fits: "\<And>e. fits [] e"
  shows "\<exists>k > 0. off + k \<le> length es \<and> dir_fill fits off [] es = take k (drop off es)
    \<and> fst (snd (last (take k (drop off es)))) = off + k"
proof -
  have lo: "fst (snd e) \<le> off" if "e \<in> set (take off es)" for e
    using that num by (auto simp: in_set_conv_nth)
  have hi: "off < fst (snd e)" if "e \<in> set (drop (Suc off) es)" for e
    using that num by (auto simp: in_set_conv_nth)
  have split: "es = take off es @ es ! off # drop (Suc off) es"
    using off by (simp add: id_take_nth_drop)
  have "dir_fill fits off [] es = dir_fill fits off [] (es ! off # drop (Suc off) es)"
    using dir_fill_skip [of "take off es" off fits "[]" "es ! off # drop (Suc off) es", OF lo] split by simp
  also have "\<dots> = dir_fill fits off [es ! off] (drop (Suc off) es)"
    using num off fits by simp
  finally obtain k where k: "dir_fill fits off [] es = es ! off # take k (drop (Suc off) es)"
    using dir_fill_prefix [of "drop (Suc off) es" off fits "[es ! off]", OF hi] by auto
  define k' where "k' = Suc (min k (length (drop (Suc off) es)))"
  have t: "dir_fill fits off [] es = take k' (drop off es)"
  proof -
    have "take k xs = take (min k (length xs)) xs" for xs :: "dir_entry list" by (simp add: min_def)
    then show ?thesis unfolding k k'_def Cons_nth_drop_Suc [OF off, symmetric] take_Suc_Cons by blast
  qed
  have b: "off + k' \<le> length es" using off by (auto simp: k'_def)
  have "last (take k' (drop off es)) = es ! (off + k' - 1)"
    using b by (subst last_conv_nth) (auto simp: k'_def)
  then have "fst (snd (last (take k' (drop off es)))) = off + k'"
    using num [of "off + k' - 1"] b by (simp add: k'_def)
  with t b show ?thesis by (intro exI [of _ k']) (simp add: k'_def)
qed

lemma populate_idle:
  assumes "get (f_tree s) ino = Some (Directory i nm cs p None)"
  shows "populate_if_lazy F ino s = s"
proof -
  have "(nodes (f_tree s))[ino - 1 := Directory i nm cs p None] = nodes (f_tree s)"
    using assms by (auto simp: get_def split: if_splits) (metis list_update_id)
  with assms show ?thesis by (simp add: populate_if_lazy_def take_lazy_def update_node_def)
qed

lemma read_pages_rest:
  assumes d: "get (f_tree s) ino = Some (Directory i nm cs p None)"
    and es: "list_directory (f_tree s) ino = Some entries"
  shows "off \<le> length (dir_stream (f_tree s) ino entries) \<Longrightarrow>
    (\<And>fits e. fits \<in> set fitss \<Longrightarrow> fits [] e) \<Longrightarrow>
    length (dir_stream (f_tree s) ino entries) - off < length fitss \<Longrightarrow>
    read_pages F fitss ino off s = drop off (dir_stream (f_tree s) ino entries)"
proof (induction fitss arbitrary: off)
  case (Cons fits fitss)
  let ?es = "dir_stream (f_tree s) ino entries"
  have o: "op_readdir F fits ino off s = Some (RpDir (dir_fill fits off [] ?es), s)"
    using populate_idle [OF d] es by (simp add: op_readdir_def Let_def)
  show ?case
  proof (cases "off < length ?es")
    case False
    then have "\<And>e. e \<in> set ?es \<Longrightarrow> fst (snd e) \<le> off"
      using dir_stream_offset [of _ "f_tree s" ino entries] by (fastforce simp: in_set_conv_nth)
    from dir_fill_skip [of ?es off fits "[]" "[]", OF this] have "dir_fill fits off [] ?es = []" by simp
    then show ?thesis using o False by simp
  next
    case True
    have f: "\<And>e. fits [] e" by (rule Cons.prems(2)) simp
    from dir_fill_page [where fits = fits, OF True dir_stream_offset [of _ "f_tree s" ino entries] f] obtain k where
      k: "k > 0" "off + k \<le> length ?es" "dir_fill fits off [] ?es = take k (drop off ?es)"
        "fst (snd (last (take k (drop off ?es)))) = off + k" by blast
    have "read_pages F fitss ino (off + k) s = drop (off + k) ?es"
    proof (rule Cons.IH)
      show "off + k \<le> length ?es" by (rule k(2))
      show "fits' [] e" if "fits' \<in> set fitss" for fits' e
        by (rule Cons.prems(2)) (simp add: that)
      show "length ?es - (off + k) < length fitss" using Cons.prems(3) k(1) True by simp
    qed
    then show ?thesis
      using o k True by (simp add: append_take_drop_id add.commute flip: drop_drop)
  qed
qed simp

text \<open>C9. Listing a directory in pages gives \<open>.\<close>, \<open>..\<close> and then every entry of the directory,
  each exactly once and in order, however the kernel's buffer happens to cut the pages, as long
  as every page has room for one entry.\<close>

theorem readdir_pages_complete:
  assumes "tree_wf (f_tree s)" and "get (f_tree s) ino = Some (Directory i nm cs p None)"
    and "\<forall>fits \<in> set fitss. \<forall>e. fits [] e" and "length cs + 2 < length fitss"
  shows "\<exists>entries. list_directory (f_tree s) ino = Some entries \<and> length entries = length cs
    \<and> map (\<lambda>(c, _, k, nm). (c, k, nm)) (read_pages F fitss ino 0 s)
      = (ino, DirType, ''.'') # (p, DirType, ''..'') # map (\<lambda>(c, nm, k). (c, k, nm)) entries"
proof -
  have "is_dir (f_tree s) ino" using assms(2) by (simp add: is_dir_def)
  from readdir_entries [OF assms(1) this] dir_entries_inos [of "f_tree s" ino]
  obtain entries where es: "list_directory (f_tree s) ino = Some entries" and l: "length entries = length cs"
    using assms(2) by (auto simp: list_directory_def dir_kids_def dest: arg_cong [of _ _ length])
  have n: "length (dir_stream (f_tree s) ino entries) = length cs + 2"
    using l by (simp add: dir_stream_def Let_def)
  have r: "read_pages F fitss ino 0 s = dir_stream (f_tree s) ino entries"
  proof -
    have "read_pages F fitss ino 0 s = drop 0 (dir_stream (f_tree s) ino entries)"
      by (rule read_pages_rest [OF assms(2) es]) (use assms(3,4) n in blast, use assms(3) in blast,
          use assms(4) n in simp)
    then show ?thesis by simp
  qed
  have "map (\<lambda>(c, _, k, nm). (c, k, nm)) (map (\<lambda>(i, (c, nm, k)). (c, 3 + i, k, nm)) (enumerate 0 entries))
      = map ((\<lambda>(c, nm, k). (c, k, nm)) \<circ> snd) (enumerate 0 entries)" for i
    unfolding map_map by (rule map_cong) auto
  also have "\<dots> = map (\<lambda>(c, nm, k). (c, k, nm)) entries"
    unfolding map_map [symmetric] map_snd_enumerate ..
  finally have m: "map (\<lambda>(c, _, k, nm). (c, k, nm)) (dir_stream (f_tree s) ino entries)
      = (ino, DirType, ''.'') # (p, DirType, ''..'') # map (\<lambda>(c, nm, k). (c, k, nm)) entries"
    using assms(2) unfolding dir_stream_def Let_def by simp
  show ?thesis using es l m r by auto
qed

section \<open>Witnesses\<close>

theorem mounted_reads_verified_witness:
  "\<exists>r s'. fs_step demo_fs_env (Read 1 0 5)
      (fold (fs_exec demo_fs_env) [Mkdir 1 (Some ''d'')] demo_mount) = Some (r, s')"
proof -
  have "cache_sound (fe_fetch demo_fs_env) [''c''] Map.empty" by (simp add: cache_sound_def)
  from mounted_reads_verified [OF tree_wf_new this demo_mount_def [THEN arg_cong,
      of "fold (fs_exec demo_fs_env) [Mkdir 1 (Some ''d'')]"]]
  show ?thesis by blast
qed


theorem readdir_pages_complete_witness:
  "map (\<lambda>(c, _, k, nm). (c, k, nm))
      (read_pages demo_fs_env [\<lambda>es e. es = [], \<lambda>es e. es = [], \<lambda>es e. es = []] 1 0 demo_mount)
    = [(1, DirType, ''.''), (0, DirType, ''..'')]"
proof -
  have w: "tree_wf (f_tree demo_mount)" using demo_mount_inv by (simp add: fs_inv_def)
  have g: "get (f_tree demo_mount) 1 = Some (Directory 1 ''/'' [] 0 None)"
    by (simp add: demo_mount_def fs_new_rw_def fs_new_def get_def new_tree_def)
  have f: "\<forall>fits \<in> set [\<lambda>es e. es = [], \<lambda>es e. es = [], \<lambda>es (e :: dir_entry). es = []]. \<forall>e. fits [] e" by simp
  from readdir_pages_complete [OF w g f, of demo_fs_env] show ?thesis by simp
qed

end
