(* ===== verification/Bfs_Fs_Writes.thy ===== *)
theory Bfs_Fs_Writes
  imports Bfs_Fs_Run
begin

text \<open>
  The life of a write handle: it is uploaded at most once in any run, and a file created,
  written front to back and flushed is uploaded as exactly the bytes written, under their hash.
\<close>

section \<open>At most one upload per handle\<close>

definition pending :: "write_buffer \<Rightarrow> bool" where
  "pending b \<longleftrightarrow> \<not> wb_flushed b \<and> storage_len (wb_storage b) \<noteq> 0"

text \<open>The handle whose buffer a callback uploads.\<close>

definition uploads_handle :: "fs_op \<Rightarrow> 'w fs \<Rightarrow> nat option" where
  "uploads_handle op s =
     (case op of
        Flush fh \<Rightarrow> (case f_buffers s fh of Some b \<Rightarrow> if pending b then Some fh else None | None \<Rightarrow> None)
      | Release fh \<Rightarrow> (case f_buffers s fh of Some b \<Rightarrow> if pending b then Some fh else None | None \<Rightarrow> None)
      | _ \<Rightarrow> None)"

text \<open>The handles uploaded by a run; it ends at the first callback that does not return.\<close>

fun upload_trace :: "'w fs_env \<Rightarrow> fs_op list \<Rightarrow> 'w fs \<Rightarrow> nat list" where
  "upload_trace F [] s = []"
| "upload_trace F (op # ops) s =
     (case uploads_handle op s of None \<Rightarrow> [] | Some fh \<Rightarrow> [fh])
     @ (case fs_step F op s of None \<Rightarrow> [] | Some (_, s') \<Rightarrow> upload_trace F ops s')"

definition handle_done :: "'w fs \<Rightarrow> nat \<Rightarrow> bool" where
  "handle_done s fh \<longleftrightarrow> fh < f_next_fh s \<and> (\<forall>b. f_buffers s fh = Some b \<longrightarrow> wb_flushed b)"

lemma fs_upload_keeps:
  assumes "fs_upload F ino data hashed s = Some (ok, s')"
  shows "f_buffers s' = f_buffers s \<and> f_next_fh s' = f_next_fh s \<and> f_frozen s' = f_frozen s
    \<and> f_read_only s' = f_read_only s"
  using fs_upload_frame [OF assms] by auto

lemma delete_remote_keeps [simp]:
  "f_buffers (delete_remote F sha s) = f_buffers s" "f_next_fh (delete_remote F sha s) = f_next_fh s"
  by (auto simp: delete_remote_defs Let_def split: option.split sum.split)

lemma populate_keeps [simp]:
  "f_buffers (populate_if_lazy F ino s) = f_buffers s"
  "f_next_fh (populate_if_lazy F ino s) = f_next_fh s"
  by (auto simp: populate_if_lazy_def split: prod.split option.split lazy_dir.split sum.split)

text \<open>How each callback treats the buffer of one handle that was handed out before.\<close>

lemma step_buffer:
  assumes i: "fs_inv F s" and st: "fs_step F op s = Some (r, s')" and old: "fh < f_next_fh s"
  shows "fh < f_next_fh s' \<and> (\<forall>b'. f_buffers s' fh = Some b' \<longrightarrow>
    (\<exists>b. f_buffers s fh = Some b \<and> (wb_flushed b \<longrightarrow> wb_flushed b')))"
proof -
  have rd: "f_buffers s1 = f_buffers s \<and> f_next_fh s1 = f_next_fh s"
    if "read_content F ino off sz s = Some (q, s1)" for ino off sz q s1
    using read_content_stage [of F s ino off sz] i that by (auto simp: fs_inv_def read_frame_def)
  have "old_ok s'" if "old_ok = (\<lambda>s'. fh < f_next_fh s' \<and> (\<forall>b'. f_buffers s' fh = Some b' \<longrightarrow>
    (\<exists>b. f_buffers s fh = Some b \<and> (wb_flushed b \<longrightarrow> wb_flushed b'))))" for old_ok
  proof (cases op)
    case (Create parent nm flags)
    then show ?thesis using st old unfolding that
      by (auto simp: fs_step_def op_create_def Let_def split: if_splits option.splits prod.splits)
  next
    case (Write h off data)
    then show ?thesis using st old unfolding that
      by (auto simp: fs_step_def op_write_def dest: buf_write_Inr(6) split: if_splits option.splits sum.splits)
  next
    case (Flush h)
    then show ?thesis using st old unfolding that
      by (auto simp: fs_step_def op_flush_def Let_def dest!: fs_upload_keeps split: if_splits option.splits)
  next
    case (Release h)
    then show ?thesis using st old unfolding that
      by (auto simp: fs_step_def op_release_def Let_def cleanup_failed_write_def dest!: fs_upload_keeps
          split: if_splits option.splits bool.splits)
  next
    case (Open ino flags)
    then show ?thesis using st old unfolding that
      by (auto simp: fs_step_def op_open_def Let_def
          split: if_splits option.splits tree_node.splits file_content.splits)
  next
    case (Read ino off sz)
    then show ?thesis using st old rd unfolding that
      by (auto simp: fs_step_def op_read_def split: option.splits sum.splits)
  next
    case (Unlink parent nm)
    then show ?thesis using st old unfolding that
      by (auto simp: fs_step_def op_unlink_def Let_def case_prod_beta split: if_splits option.splits)
  qed (use st old in \<open>auto simp: that fs_step_def op_lookup_def op_readdir_def op_getattr_def op_statfs_def
      op_refused_def op_rename_def op_link_def op_fsync_def op_getxattr_def op_listxattr_def op_setattr_def
      op_mkdir_def op_rmdir_def Let_def split: if_splits option.splits tree_node.splits prod.splits\<close>)
  then show ?thesis by blast
qed

lemma step_done:
  assumes "fs_inv F s" "fs_step F op s = Some (r, s')" "handle_done s fh"
  shows "handle_done s' fh"
  using step_buffer [OF assms(1,2)] assms(3) unfolding handle_done_def by blast

lemma upload_done:
  assumes i: "fs_inv F s" and st: "fs_step F op s = Some (r, s')" and u: "uploads_handle op s = Some fh"
  shows "handle_done s' fh \<and> \<not> handle_done s fh"
proof -
  obtain b where b: "f_buffers s fh = Some b" "pending b" and op: "op = Flush fh \<or> op = Release fh"
    using u by (auto simp: uploads_handle_def split: fs_op.splits option.splits if_splits)
  have "fh < f_next_fh s" using i b by (auto simp: fs_inv_def)
  moreover have "\<not> wb_flushed b" "storage_len (wb_storage b) \<noteq> 0" using b by (auto simp: pending_def)
  ultimately show ?thesis
    using op st b
    by (auto simp: handle_done_def fs_step_def op_flush_def op_release_def Let_def cleanup_failed_write_def
        dest!: fs_upload_keeps split: option.splits bool.splits)
qed

lemma trace_not_done:
  "fs_inv F s \<Longrightarrow> distinct (upload_trace F ops s) \<and> (\<forall>fh \<in> set (upload_trace F ops s). \<not> handle_done s fh)"
proof (induction ops arbitrary: s)
  case (Cons op ops)
  show ?case
  proof (cases "fs_step F op s")
    case None
    show ?thesis
    proof (cases "uploads_handle op s")
      case (Some fh)
      then obtain b where "f_buffers s fh = Some b" "pending b"
        by (auto simp: uploads_handle_def split: fs_op.splits option.splits if_splits)
      then show ?thesis using None Some by (auto simp: handle_done_def pending_def)
    qed (simp add: None)
  next
    case (Some rs)
    obtain r s' where rs: "rs = (r, s')" by fastforce
    have i: "fs_inv F s'" using fs_step_inv [OF Cons.prems] Some rs by simp
    note IH = Cons.IH [OF i]
    have "\<not> handle_done s fh" if "fh \<in> set (upload_trace F ops s')" for fh
      using IH that step_done [OF Cons.prems, of op r s' fh] Some rs by auto
    moreover have "fh \<notin> set (upload_trace F ops s') \<and> \<not> handle_done s fh"
      if "uploads_handle op s = Some fh" for fh
      using upload_done [OF Cons.prems _ that, of r s'] Some rs IH by auto
    ultimately show ?thesis using Some rs IH by (auto split: option.split)
  qed
qed simp


section \<open>Create, write, flush\<close>

text \<open>A run with its replies; \<open>None\<close> when a callback does not return.\<close>

fun fs_replies :: "'w fs_env \<Rightarrow> fs_op list \<Rightarrow> 'w fs \<Rightarrow> (reply list \<times> 'w fs) option" where
  "fs_replies F [] s = Some ([], s)"
| "fs_replies F (op # ops) s =
     (case fs_step F op s of
        None \<Rightarrow> None
      | Some (r, s') \<Rightarrow> map_option (\<lambda>(rs, t). (r # rs, t)) (fs_replies F ops s'))"

lemma fs_replies_append:
  "fs_replies F (xs @ ys) s =
     (case fs_replies F xs s of
        None \<Rightarrow> None
      | Some (rs, t) \<Rightarrow> map_option (\<lambda>(rs', u). (rs @ rs', u)) (fs_replies F ys t))"
proof (induction xs arbitrary: s)
  case (Cons a xs)
  show ?case
  proof (cases "fs_step F a s")
    case (Some rs)
    obtain r t where "rs = (r, t)" by fastforce
    with Some Cons.IH [of t] show ?thesis
      by (auto simp: map_option_case split: option.splits)
  qed simp
qed (simp add: case_prod_beta option.map_id)

definition no_error :: "reply list \<Rightarrow> bool" where
  "no_error rs \<longleftrightarrow> list_all (\<lambda>r. case r of RpError _ \<Rightarrow> False | _ \<Rightarrow> True) rs"

lemma is_file_update_size [simp]: "is_file (snd (update_file_size t i n)) j = is_file t j"
  by (auto simp: update_file_size_def is_file_def get_update_node split: option.splits tree_node.splits)

lemma op_write_ok:
  assumes "op_write F fh off d s = Some (r, s')" "no_error [r]"
  shows "\<exists>b b' n. f_buffers s fh = Some b
    \<and> buf_write (f_max_write_bytes s) (f_spill_threshold s) (fe_temp_ok F) off d b = Some (Inr b')
    \<and> s' = s\<lparr>f_buffers := (f_buffers s)(fh \<mapsto> b'), f_tree := snd (update_file_size (f_tree s) (wb_ino b') n)\<rparr>"
  using assms by (auto simp: op_write_def no_error_def split: if_splits option.splits sum.splits)

lemma writes_run:
  "fs_replies F (map (\<lambda>(off, d). Write fh off d) ws) s = Some (rs, s') \<Longrightarrow> no_error rs \<Longrightarrow>
   f_buffers s fh = Some b \<Longrightarrow>
     \<exists>b'. f_buffers s' fh = Some b' \<and> wb_ino b' = wb_ino b \<and> wb_flushed b' = wb_flushed b
       \<and> write_run (f_max_write_bytes s) (f_spill_threshold s) (fe_temp_ok F) ws b = Some (Inr b')
       \<and> (\<forall>i. is_file (f_tree s') i = is_file (f_tree s) i)
       \<and> f_multipart_threshold s' = f_multipart_threshold s"
proof (induction ws arbitrary: s rs b)
  case (Cons w ws)
  obtain off d where w: "w = (off, d)" by fastforce
  from Cons.prems(1) w obtain r s1 rs' where o: "op_write F fh off d s = Some (r, s1)"
    and r: "fs_replies F (map (\<lambda>(off, d). Write fh off d) ws) s1 = Some (rs', s')" and rs: "rs = r # rs'"
    by (auto simp: fs_step_def split: option.splits)
  have ne: "no_error [r]" "no_error rs'" using Cons.prems(2) rs by (simp_all add: no_error_def)
  obtain b1 n where b1: "buf_write (f_max_write_bytes s) (f_spill_threshold s) (fe_temp_ok F) off d b = Some (Inr b1)"
    and s1: "s1 = s\<lparr>f_buffers := (f_buffers s)(fh \<mapsto> b1), f_tree := snd (update_file_size (f_tree s) (wb_ino b1) n)\<rparr>"
    using op_write_ok [OF o ne(1)] Cons.prems(3) by auto
  have "f_buffers s1 fh = Some b1" by (simp add: s1)
  from Cons.IH [OF r ne(2) this] s1 w b1 buf_write_Inr(3,6) [OF b1] show ?case by auto
qed simp

lemma fs_upload_ok:
  assumes "fs_upload F ino data hashed s = Some (True, s')" "is_file (f_tree s) ino"
  shows "\<exists>i nm p n url sha mime e up. get (f_tree s') ino = Some (File i nm p n (Remote url sha mime e) up)"
proof -
  obtain u where u: "do_upload (fe_upload F) (upload_cfg s) ino data (env_hash (fe_fetch F) hashed)
             \<lparr>us_world = f_world s, us_files = f_files s, us_metrics = f_metrics s, us_tree = f_tree s\<rparr> = Some (True, u)"
      and s': "f_tree s' = us_tree u"
    using assms(1) by (auto simp: fs_upload_def split: option.splits)
  obtain u1 where "do_upload_inner (fe_upload F) (upload_cfg s) ino data (env_hash (fe_fetch F) hashed)
     \<lparr>us_world = f_world s, us_files = f_files s, us_metrics = guard_new (f_metrics s), us_tree = f_tree s\<rparr> = Some (True, u1)"
     "us_tree u = us_tree u1"
    using u by (auto simp: do_upload_def split: option.splits)
  with do_upload_inner_frame [OF this(1)] obtain url h mime e sz up where
    "f_tree s' = snd (update_file_node (f_tree s) ino (Remote url h mime e) sz up)"
    using s' by auto
  then show ?thesis
    using assms(2) by (auto simp: update_file_node_def is_file_def get_update_node split: option.splits tree_node.splits)
qed

text \<open>Create, write, flush: the callbacks one after the other.\<close>

lemma created_file_stage:
  assumes new: "lookup (f_tree s) parent nm = None" and fh: "fh = f_next_fh s"
    and run: "fs_replies F (Create parent (Some nm) flags # map (\<lambda>(off, d). Write fh off d) ws @ [Flush fh]) s
      = Some (rs, s')"
    and ok: "no_error rs"
  obtains mx sp s2 b where "is_file (f_tree s2) (next_inode (f_tree s))" "f_buffers s2 fh = Some b"
    "wb_ino b = next_inode (f_tree s)" "\<not> wb_flushed b"
    "write_run mx sp (fe_temp_ok F) ws
        (new_buffer (next_inode (f_tree s)) parent nm [] (flag_set flags 10)) = Some (Inr b)"
    "\<exists>r. op_flush F fh s2 = Some (r, s') \<and> no_error [r]"
    "f_multipart_threshold s2 = f_multipart_threshold s"
proof -
  let ?ino = "next_inode (f_tree s)"
  from run obtain r s1 rs1 where c: "op_create F parent (Some nm) flags s = Some (r, s1)"
    and run1: "fs_replies F (map (\<lambda>(off, d). Write fh off d) ws @ [Flush fh]) s1 = Some (rs1, s')"
    and rs: "rs = r # rs1"
    by (auto simp: fs_step_def split: option.splits)
  have "no_error [r]" using ok rs by (simp add: no_error_def)
  then have d: "is_dir (f_tree s) parent"
    and b1: "f_buffers s1 fh = Some (new_buffer ?ino parent nm [] (flag_set flags 10))"
    and t1: "f_tree s1 = snd (add_file_to_dir (f_tree s) parent nm (Static []) 0 (fe_now F))"
    and m1: "f_multipart_threshold s1 = f_multipart_threshold s"
    using c new fh by (auto simp: op_create_def Let_def no_error_def add_file_to_dir_def case_prod_beta
        split: if_splits)
  have f1: "is_file (f_tree s1) ?ino"
    using get_add_node_new [OF is_dir_valid [OF d]] by (simp add: t1 add_file_to_dir_def Let_def is_file_def)
  from run1 obtain rs2 s2 rs3 where w: "fs_replies F (map (\<lambda>(off, d). Write fh off d) ws) s1 = Some (rs2, s2)"
    and fl: "fs_replies F [Flush fh] s2 = Some (rs3, s')" and rs1: "rs1 = rs2 @ rs3"
    unfolding fs_replies_append by (auto split: option.splits)
  have n2: "no_error rs2" using ok rs rs1 by (simp add: no_error_def)
  from fl have o: "\<exists>r3. op_flush F fh s2 = Some (r3, s') \<and> no_error [r3]"
    using ok rs rs1 by (auto simp: fs_step_def no_error_def split: option.splits)
  from writes_run [OF w n2 b1] obtain b where b: "f_buffers s2 fh = Some b" "wb_ino b = ?ino" "\<not> wb_flushed b"
    and wr: "write_run (f_max_write_bytes s1) (f_spill_threshold s1) (fe_temp_ok F) ws
        (new_buffer ?ino parent nm [] (flag_set flags 10)) = Some (Inr b)"
    and f2: "is_file (f_tree s2) ?ino" and m2: "f_multipart_threshold s2 = f_multipart_threshold s1"
    using f1 by (auto simp: new_buffer_def)
  show thesis by (rule that [OF f2 b wr o]) (simp add: m1 m2)
qed

lemma created_file_upload:
  assumes new: "lookup (f_tree s) parent nm = None" and fh: "fh = f_next_fh s"
    and run: "fs_replies F (Create parent (Some nm) flags # map (\<lambda>(off, d). Write fh off d) ws @ [Flush fh]) s
      = Some (rs, s')"
    and ok: "no_error rs"
    and sq: "flag_set flags 10 \<or> sequential 0 ws" and ne: "concat (map snd ws) \<noteq> []"
    and rd: "fe_read_ok F"
  shows "\<exists>st. fs_upload F (next_inode (f_tree s)) (concat (map snd ws)) (concat (map snd ws)) st = Some (True, s')
    \<and> is_file (f_tree st) (next_inode (f_tree s)) \<and> f_multipart_threshold st = f_multipart_threshold s"
proof -
  let ?ino = "next_inode (f_tree s)" and ?data = "concat (map snd ws)"
  obtain mx sp s2 b where f2: "is_file (f_tree s2) ?ino" and b: "f_buffers s2 fh = Some b" "wb_ino b = ?ino" "\<not> wb_flushed b"
    and wr: "write_run mx sp (fe_temp_ok F) ws
        (new_buffer ?ino parent nm [] (flag_set flags 10)) = Some (Inr b)"
    and o: "\<exists>r. op_flush F fh s2 = Some (r, s') \<and> no_error [r]"
    and m: "f_multipart_threshold s2 = f_multipart_threshold s"
    by (rule created_file_stage [OF new fh run ok])
  have "wb_append (new_buffer ?ino parent nm [] (flag_set flags 10))
      \<or> sequential (storage_len (wb_storage (new_buffer ?ino parent nm [] (flag_set flags 10)))) ws"
    using sq by (simp add: new_buffer_def storage_len_def)
  from write_run_sequential [OF in_step_new this wr]
  have sq': "in_step b" "content_of (wb_storage b) = ?data"
    by (simp_all add: new_buffer_def content_of_def)
  then have up: "upload_data F b = ?data" "wb_hashed b = ?data" "storage_len (wb_storage b) \<noteq> 0"
    using rd ne by (auto simp: in_step_def upload_data_def read_all_def content_of_def split: write_storage.splits)
  define s3 where "s3 = s2\<lparr>f_buffers := (f_buffers s2)(fh \<mapsto> b\<lparr>wb_flushed := True\<rparr>)\<rparr>"
  have "fs_upload F ?ino ?data ?data s3 = Some (True, s')"
    using o b up by (auto simp: op_flush_def Let_def s3_def no_error_def split: option.splits if_splits)
  then show ?thesis using f2 m by (auto simp: s3_def)
qed


section \<open>Where the contract ends\<close>

text \<open>When the spill file cannot be read back, an empty body goes out under the hash of the bytes.\<close>

lemma unreadable_spill_uploads_nothing:
  "wb_storage b = Disk f n \<Longrightarrow> \<not> fe_read_ok F \<Longrightarrow> upload_data F b = []"
  by (simp add: upload_data_def read_all_def)

text \<open>The buffer is marked before the upload, so after a flush that failed with \<open>EIO\<close> the release
  of the handle sends nothing and cleans nothing up.\<close>

lemma failed_flush_not_retried:
  assumes "op_flush F fh s = Some (RpError EIO, s')"
  shows "op_release F fh s' = Some (RpOk, s'\<lparr>f_buffers := (f_buffers s')(fh := None)\<rparr>)"
  using assms
  by (auto simp: op_flush_def op_release_def Let_def dest!: fs_upload_keeps split: option.splits if_splits)

text \<open>\<open>close\<close> on a duplicated descriptor flushes while the file is still open.  What is written after
  that first flush is accepted and never uploaded: neither a later flush nor the release sends it.\<close>

lemma write_after_flush_lost:
  assumes b: "f_buffers s fh = Some b" "wb_flushed b" and w: "op_write F fh off d s = Some (RpWritten n, s1)"
  shows "n = length d \<and> op_flush F fh s1 = Some (RpOk, s1)
    \<and> op_release F fh s1 = Some (RpOk, s1\<lparr>f_buffers := (f_buffers s1)(fh := None)\<rparr>)"
proof -
  obtain b' m where b': "buf_write (f_max_write_bytes s) (f_spill_threshold s) (fe_temp_ok F) off d b = Some (Inr b')"
    and s1: "s1 = s\<lparr>f_buffers := (f_buffers s)(fh \<mapsto> b'), f_tree := snd (update_file_size (f_tree s) (wb_ino b') m)\<rparr>"
    using op_write_ok [OF w] b(1) by (auto simp: no_error_def)
  have "wb_flushed b'" using buf_write_Inr(6) [OF b'] b(2) by simp
  then show ?thesis
    using w by (auto simp: s1 op_flush_def op_release_def op_write_def split: if_splits option.splits sum.splits)
qed

section \<open>A concrete run\<close>


lemma demo_new_file: "lookup (f_tree demo_mount) 1 ''f'' = None"
  by (simp add: demo_mount_def fs_new_rw_def fs_new_def lookup_def new_tree_def get_def)

lemma demo_write_run: "\<exists>rs s'. fs_replies demo_fs_env (Create 1 (Some ''f'') 0 #
      map (\<lambda>(off, d). Write 1 off d) [(0, ''ab'')] @ [Flush 1]) demo_mount = Some (rs, s') \<and> no_error rs"
  by (simp add: fs_step_def op_create_def op_write_def op_flush_def demo_mount_def fs_new_rw_def fs_new_def
      locked_def is_dir_def get_def new_tree_def lookup_def add_file_to_dir_def add_node_def next_inode_def
      update_node_def link_child_def make_fileattr_def new_buffer_def buf_write_def Let_def storage_len_def
      update_file_size_def fs_upload_def upload_cfg_def do_upload_def do_upload_inner_eq demo_fs_env_def
      demo_upload_env_def create_upload_auth_header_def head_blob_with_expiry_def demo_cenv_def is_success_def
      no_error_def flag_set_def)


end
