(* ===== verification/Bfs_Readback.thy ===== *)
theory Bfs_Readback
  imports Bfs_Fs_Props Bfs_Fs_Writes
begin

text \<open>
  Reading back what was written: the write path (create, write, flush, upload) and the read path
  (cache, range and full fetches, verification) composed through the server.  What is assumed
  of the server and of SHA-256 is stated on the HTTP function and the hash alone.
\<close>

section \<open>What a server and a hash promise\<close>

text \<open>BUD-02: the descriptor a server returns for an upload names the hash and size of the body.\<close>

definition describes_uploads :: "'w cenv \<Rightarrow> bool" where
  "describes_uploads C \<longleftrightarrow>
     (\<forall>base hs data w resp w' body d.
        ce_http C (mk_request ''PUT'' (base @ ''/upload'') hs data) w = (Inr resp, w') \<longrightarrow>
        is_success (rs_status resp) \<longrightarrow> rs_body resp = Inr body \<longrightarrow> ce_json_descriptor C body = Some d \<longrightarrow>
        bd_sha256 d = ce_hash C data \<and> bd_size d = length data)"

text \<open>BUD-01: a partial answer carries the requested bytes of the blob.\<close>

definition honest_ranges :: "'w env \<Rightarrow> string \<Rightarrow> bytes \<Rightarrow> bool" where
  "honest_ranges E url data \<longleftrightarrow>
     (\<forall>a b w resp w' part. env_http E (http_get url [range_header a b]) w = (Inr resp, w') \<longrightarrow>
        rs_status resp = 206 \<longrightarrow> rs_body resp = Inr part \<longrightarrow> part = take (b + 1 - a) (drop a data))"

text \<open>A server that is up, has the blob and answers every GET with all of it.\<close>

definition serves_blob :: "'w env \<Rightarrow> string \<Rightarrow> bytes \<Rightarrow> bool" where
  "serves_blob E url data \<longleftrightarrow>
     (\<forall>hs w. \<exists>resp w'. env_http E (http_get url hs) w = (Inr resp, w') \<and> rs_status resp = 200
        \<and> rs_body resp = Inr data \<and> announced_too_large resp = None)"

text \<open>The hash has the form of a SHA-256 and no other data has it.\<close>

definition hash_names :: "'w env \<Rightarrow> bytes \<Rightarrow> bool" where
  "hash_names E data \<longleftrightarrow> sha_normal (env_hash E data) \<and> (\<forall>c. env_hash E c = env_hash E data \<longrightarrow> c = data)"

lemma hash_names_path:
  assumes "hash_names E data"
  shows "sanitize_sha256 (env_hash E data) = Inr (env_hash E data)"
    and "to_lowercase (env_hash E data) = env_hash E data"
proof -
  show s: "sanitize_sha256 (env_hash E data) = Inr (env_hash E data)"
    using assms by (simp add: hash_names_def sanitize_sha256_id)
  then show "to_lowercase (env_hash E data) = env_hash E data" by (metis sanitize_sha256_lower)
qed

section \<open>The node after an upload\<close>

lemma describes_uploadsD:
  "describes_uploads C \<Longrightarrow> ce_http C (mk_request ''PUT'' (base @ ''/upload'') hs data) w = (Inr resp, w') \<Longrightarrow>
   is_success (rs_status resp) \<Longrightarrow> rs_body resp = Inr body \<Longrightarrow> ce_json_descriptor C body = Some d \<Longrightarrow>
     bd_sha256 d = ce_hash C data \<and> bd_size d = length data"
  unfolding describes_uploads_def by blast

lemma upload_attempt_describes:
  "describes_uploads C \<Longrightarrow> upload_attempt C base data auth tok st = (Inr d, st') \<Longrightarrow>
     bd_sha256 d = ce_hash C data \<and> bd_size d = length data"
  by (cases st) (auto simp: upload_attempt_def dest: describes_uploadsD
      split: prod.splits sum.splits if_splits option.splits)

lemma paid_upload_describes:
  assumes c: "describes_uploads C" and u: "upload_blob_with_payment C base data auth pay st = (Inr d, st')"
  shows "bd_sha256 d = ce_hash C data \<and> bd_size d = length data"
  using u by (auto simp: upload_blob_with_payment_def dest: upload_attempt_describes [OF c]
      split: prod.splits sum.splits client_error.splits)

lemma retried_upload_describes:
  "describes_uploads C \<Longrightarrow> upload_with_retry C base data auth pay n st = Some (Inr d, st') \<Longrightarrow>
     bd_sha256 d = ce_hash C data \<and> bd_size d = length data"
proof (induction n arbitrary: st)
  case (Suc n)
  obtain r st1 where u: "upload_blob_with_payment C base data auth pay st = (r, st1)" by (rule prod.exhaust)
  show ?case
  proof (cases r)
    case (Inl e)
    then show ?thesis using Suc u by (auto split: if_splits)
  next
    case (Inr d')
    then show ?thesis using Suc.prems u paid_upload_describes by fastforce
  qed
qed simp

lemma transfer_describes:
  assumes "describes_uploads (ue_client U)" and "length data \<le> uc_multipart_threshold C"
    and "transfer U C data auth sha s = Some (Inr d, s')"
  shows "bd_sha256 d = ce_hash (ue_client U) data \<and> bd_size d = length data"
  using assms(2,3) retried_upload_describes [OF assms(1)]
  by (auto simp: transfer_def Let_def split: option.splits prod.splits)

lemma do_upload_inner_names:
  assumes c: "describes_uploads (ue_client U)" and l: "\<And>C. cfg = Some C \<Longrightarrow> length data \<le> uc_multipart_threshold C"
    and sha: "sha = ce_hash (ue_client U) data"
    and u: "do_upload_inner U cfg ino data sha s = Some (True, s')"
  shows "\<exists>url mime e up. us_tree s' = snd (update_file_node (us_tree s) ino (Remote url sha mime e) (length data) up)"
proof -
  obtain C auth where C: "cfg = Some C" "create_upload_auth_header (ue_auth U) sha (length data) = Some auth"
    using u by (auto simp: do_upload_inner_eq split: option.splits)
  obtain head w where h: "head_blob_with_expiry (ue_client U) (client_new (uc_server C)) sha (us_world s)
      = (head, w)" by fastforce
  show ?thesis
  proof (cases "case head of Inr info \<Rightarrow> bh_exists info | Inl _ \<Rightarrow> False")
    case True
    then show ?thesis using u C h by (auto simp: do_upload_inner_eq Let_def set_remote_def) blast
  next
    case False
    obtain pre w' where p: "preflight_upload (ue_client U) (client_new (uc_server C)) auth sha
        (length data) ''application/octet-stream'' w = (pre, w')" by fastforce
    obtain d s3 where t: "transfer U C data auth sha (s\<lparr>us_world := w'\<rparr>) = Some (Inr d, s3)"
      and s': "s' = set_remote ino (bd_url d) (bd_sha256 d) (bd_mime d) None (bd_size d) (bd_uploaded d) s3"
      using u C h False p by (auto simp: do_upload_inner_eq Let_def split: if_splits option.splits sum.splits)
    have "bd_sha256 d = sha" "bd_size d = length data"
      using transfer_describes [OF c l [OF C(1)] t] sha by simp_all
    moreover have "us_tree s3 = us_tree s" using transfer_frame(1) [OF t] by simp
    ultimately show ?thesis unfolding s' set_remote_def by auto
  qed
qed

lemma fs_upload_names:
  assumes c: "describes_uploads (ue_client (fe_upload F))" and "length data \<le> f_multipart_threshold s"
    and sha: "ce_hash (ue_client (fe_upload F)) data = env_hash (fe_fetch F) data"
    and u: "fs_upload F ino data data s = Some (True, s')" and f: "is_file (f_tree s) ino"
  shows "\<exists>i nm p url mime e up. get (f_tree s') ino
    = Some (File i nm p (length data) (Remote url (env_hash (fe_fetch F) data) mime e) up)"
proof -
  let ?st = "\<lparr>us_world = f_world s, us_files = f_files s, us_metrics = guard_new (f_metrics s), us_tree = f_tree s\<rparr>"
  obtain u1 where i: "do_upload_inner (fe_upload F) (upload_cfg s) ino data (env_hash (fe_fetch F) data) ?st = Some (True, u1)"
    and t: "f_tree s' = us_tree u1"
    using u by (auto simp: fs_upload_def do_upload_def split: option.splits)
  have "length data \<le> uc_multipart_threshold C" if "upload_cfg s = Some C" for C
    using that assms(2) by (auto simp: upload_cfg_def split: option.splits if_splits)
  from do_upload_inner_names [OF c this _ i] sha obtain url mime e up where
    "f_tree s' = snd (update_file_node (f_tree s) ino (Remote url (env_hash (fe_fetch F) data) mime e) (length data) up)"
    using t by auto
  then show ?thesis
    using f by (auto simp: update_file_node_def is_file_def get_update_node split: option.splits tree_node.splits)
qed

section \<open>Reading with a well-behaved server\<close>

lemma range_part:
  assumes "honest_ranges E url data" and "fetch_range E url a b h = (Inr (part, None), h')"
  shows "part = take (b + 1 - a) (drop a data)"
proof -
  obtain resp w where q: "send_checked E (http_get url [range_header a b]) (hs_world h) = (Inr resp, w)"
    and r: "rs_status resp = 206" "rs_body resp = Inr part"
    using assms(2) by (auto simp: fetch_range_def fetch_range_inner_def Let_def
        split: prod.splits sum.splits option.splits if_splits)
  obtain v where "env_http E (http_get url [range_header a b]) v = (Inr resp, w)"
    using retry_when_Inr [OF q [unfolded send_checked_def]] error_for_status_ok by (fastforce split: prod.splits)
  with assms(1) r show ?thesis unfolding honest_ranges_def by blast
qed

text \<open>Safety: what a read gives is the slice, whatever the caches and fetches did on the way.\<close>

lemma read_back_slice:
  assumes hn: "hash_names (fe_fetch F) data" and hr: "honest_ranges (fe_fetch F) url data" and "0 < sz"
    and rb: "remote_bytes F url (env_hash (fe_fetch F) data) off sz s x"
  shows "x = read_slice off sz data"
proof -
  have "full = data" if "good_data F (env_hash (fe_fetch F) data) full" for full
    using that hn hash_names_path(2) [OF hn] by (simp add: good_data_def hash_names_def)
  moreover have "off + sz - 1 + 1 - off = sz" using \<open>0 < sz\<close> by simp
  ultimately show ?thesis
    using rb \<open>0 < sz\<close> range_part [OF hr, of off "off + sz - 1"]
    by (auto simp: remote_bytes_def read_slice_eq)
qed

lemma send_served:
  assumes "serves_blob E url data"
  obtains resp w' where "send_checked E (http_get url hs) w = (Inr resp, w')" "rs_status resp = 200"
    "rs_body resp = Inr data" "announced_too_large resp = None"
proof -
  obtain resp w' where r: "env_http E (http_get url hs) w = (Inr resp, w')" "rs_status resp = 200"
      "rs_body resp = Inr data" "announced_too_large resp = None"
    using assms unfolding serves_blob_def by blast
  then have "send_checked E (http_get url hs) w = (Inr resp, w')"
    by (cases "env_retries E") (simp_all add: send_checked_def error_for_status_def)
  from that [OF this r(2-4)] show thesis .
qed

text \<open>Nothing on this side fails.\<close>

definition working :: "'w env \<Rightarrow> bytes \<Rightarrow> bool" where
  "working E data \<longleftrightarrow> env_client_ok E \<and> (\<forall>op. env_io E op) \<and> length data \<le> MAX_BLOB_SIZE"

lemma fetch_range_served:
  assumes "serves_blob E url data" and "working E data"
  shows "\<exists>h'. fetch_range E url a b h = (Inr (data, Some data), h')"
proof -
  obtain resp w' where "send_checked E (http_get url [range_header a b]) (hs_world h) = (Inr resp, w')"
      "rs_status resp = 200" "rs_body resp = Inr data" "announced_too_large resp = None"
    by (rule send_served [OF assms(1)])
  with assms(2) show ?thesis by (simp add: fetch_range_def fetch_range_inner_def Let_def working_def)
qed

lemma verify_and_cache_works:
  assumes "hash_names E data" and "working E data"
  shows "\<exists>d' m'. verify_and_cache E data (env_hash E data) base (d, m) = (Inr (), d', m')"
proof -
  have "str_to_lowercase (env_uni E) (env_hash E data) = env_hash E data"
    by (rule valid_hash_ascii [OF hash_names_path(1) [OF assms(1)]])
  then show ?thesis
    using assms(2) hash_names_path(1) [OF assms(1)]
    by (simp add: verify_and_cache_def Let_def working_def ensure_cache_dir_def cache_path_def cache_dir_def)
qed

lemma fetch_remote_served:
  assumes "serves_blob (fe_fetch F) url data" and "working (fe_fetch F) data" and "hash_names (fe_fetch F) data"
  shows "\<exists>s'. fetch_remote F ino url (env_hash (fe_fetch F) data) base off sz s = (Inr (read_slice off sz data), s')"
proof -
  obtain h where h: "fetch_range (fe_fetch F) url off (off + sz - 1) (host_of s) = (Inr (data, Some data), h)"
    using fetch_range_served [OF assms(1,2)] by blast
  obtain d m where v: "verify_and_cache (fe_fetch F) data (env_hash (fe_fetch F) data) base
      (hs_disk h, f_metrics (put_host h s)) = (Inr (), d, m)"
    using verify_and_cache_works [OF assms(3,2)] by blast
  show ?thesis unfolding fetch_remote_def h by (simp add: v Let_def finish_read_def)
qed

lemma read_remote_served:
  assumes "serves_blob (fe_fetch F) url data" and "working (fe_fetch F) data" and hn: "hash_names (fe_fetch F) data"
    and "cache_ok F s" "f_fetching s = {}" and b: "f_cache_base s = Some base" "f_runtime s"
  shows "\<exists>s'. read_remote F ino url (env_hash (fe_fetch F) data) off sz s = Some (Inr (read_slice off sz data), s')"
proof -
  let ?sha = "env_hash (fe_fetch F) data"
  have good: "c = data" if "try_cache F s' base ?sha = Some c" "f_disk s' = f_disk s" for c s'
    using try_cache_good [of F base s' ?sha c] that assms(4) b(1) hn hash_names_path(2) [OF hn]
    by (simp add: cache_ok_def good_data_def hash_names_def)
  show ?thesis
  proof (cases "sz = 0 \<or> (\<exists>c. try_cache F s base ?sha = Some c)")
    case True
    then show ?thesis using b good [of s] by (auto simp: read_remote_def read_slice_eq)
  next
    case False
    define s1 where "s1 = s\<lparr>f_fetching := insert ?sha (f_fetching s)\<rparr>"
    define s2 where "s2 = (if cache_exists (f_disk s1) base ?sha then unclaim ?sha s1 else s1)"
    have "read_remote F ino url ?sha off sz s = (case try_cache F s2 base ?sha of
        Some c \<Rightarrow> Some (Inr (read_slice off sz c), s2) | None \<Rightarrow> Some (fetch_remote F ino url ?sha base off sz s2))"
      using False b assms(5) by (simp add: read_remote_def Let_def s1_def s2_def)
    moreover have "f_disk s2 = f_disk s" by (simp add: s2_def s1_def unclaim_def)
    ultimately show ?thesis
      using good [of s2] fetch_remote_served [OF assms(1-3), of ino base off sz s2]
      by (cases "try_cache F s2 base ?sha") auto
  qed
qed

section \<open>The configuration of a mount never changes\<close>

definition config_of :: "'w fs \<Rightarrow> fs_path option \<times> bool" where
  "config_of s = (f_cache_base s, f_runtime s)"

lemma config_simps [simp]:
  "config_of (populate_if_lazy F ino s) = config_of s"
  "config_of (put_host h s) = config_of s"
  "config_of (unclaim sha s) = config_of s"
  "config_of (delete_remote F sha s) = config_of s"
  "config_of (cleanup_failed_write b s) = config_of s"
  "config_of (s\<lparr>f_tree := t\<rparr>) = config_of s"
  "config_of (s\<lparr>f_buffers := bs\<rparr>) = config_of s"
  "config_of (s\<lparr>f_next_fh := n\<rparr>) = config_of s"
  "config_of (s\<lparr>f_fetching := c\<rparr>) = config_of s"
  "config_of (s\<lparr>f_disk := d\<rparr>) = config_of s"
  "config_of (s\<lparr>f_metrics := m\<rparr>) = config_of s"
  by (auto simp: config_of_def populate_if_lazy_def put_host_def unclaim_def delete_remote_defs Let_def
      cleanup_failed_write_def split: prod.split option.split lazy_dir.split sum.split)

lemma full_fetch_config: "config_of (snd (full_fetch F url sha base s)) = config_of s"
  by (auto simp: full_fetch_def Let_def split: prod.split sum.split)

lemma finish_read_config [simp]: "config_of (snd (finish_read F ino sha base off sz r s)) = config_of s"
  by (cases r) (auto simp: finish_read_def Let_def split: option.split prod.split)

lemma fetch_remote_config: "config_of (snd (fetch_remote F ino url sha base off sz s)) = config_of s"
proof -
  obtain q h where q: "fetch_range (fe_fetch F) url off (off + sz - 1) (host_of s) = (q, h)" by (rule prod.exhaust)
  have f: "config_of (snd (full_fetch F url sha base (put_host h s))) = config_of s"
    by (simp add: full_fetch_config)
  show ?thesis
  proof (cases q)
    case (Inl e)
    with f show ?thesis unfolding fetch_remote_def q by (auto split: prod.split option.split)
  next
    case (Inr x)
    then show ?thesis unfolding fetch_remote_def q
      by (cases x) (auto simp: Let_def split: prod.split option.split sum.split)
  qed
qed

lemma read_content_config:
  assumes "read_content F ino off sz s = Some (q, s')"
  shows "config_of s' = config_of s"
proof -
  have fr: "fetch_remote F ino url sha base off sz s1 = (q, s') \<Longrightarrow> config_of s' = config_of s1" for url sha base s1
    by (metis fetch_remote_config snd_conv)
  have "read_remote F ino url sha off sz s = Some (q, s') \<Longrightarrow> config_of s' = config_of s" for url sha
    by (auto simp: read_remote_def Let_def dest!: fr split: option.splits if_splits)
  then show ?thesis
    using assms by (auto simp: read_content_def split: option.splits tree_node.splits file_content.splits)
qed

lemma fs_upload_config: "fs_upload F ino data hashed s = Some (ok, s') \<Longrightarrow> config_of s' = config_of s"
  by (auto simp: fs_upload_def config_of_def split: option.splits)

lemma fs_step_config:
  "fs_step F op s = Some (r, s') \<Longrightarrow> config_of s' = config_of s"
  by (cases op)
    (auto simp: fs_step_def op_lookup_def op_readdir_def op_getattr_def op_statfs_def op_refused_def op_rename_def op_link_def
      op_fsync_def op_getxattr_def op_listxattr_def op_setattr_def op_mkdir_def op_unlink_def op_rmdir_def op_write_def
      op_create_def op_open_def op_flush_def op_release_def op_read_def Let_def case_prod_beta
      dest!: fs_upload_config read_content_config
      split: option.splits sum.splits if_splits tree_node.splits file_content.splits prod.splits bool.splits)

lemma run_config: "config_of (fold (fs_exec F) ops s) = config_of s"
  by (induction ops arbitrary: s) (auto simp: fs_exec_def dest: fs_step_config split: option.split)

lemma replies_run: "fs_replies F ops s = Some (rs, s') \<Longrightarrow> s' = fold (fs_exec F) ops s"
  by (induction ops arbitrary: s rs) (auto simp: fs_exec_def split: option.splits)

definition points_to :: "'w fs \<Rightarrow> nat \<Rightarrow> string \<Rightarrow> string \<Rightarrow> bool" where
  "points_to s ino url sha \<longleftrightarrow> (\<exists>i nm p n mime e up. get (f_tree s) ino = Some (File i nm p n (Remote url sha mime e) up))"

text \<open>What a read of \<open>ino\<close> gives in a state: only the data, and all of it from a server that serves.\<close>

definition reads_as :: "'w fs_env \<Rightarrow> nat \<Rightarrow> string \<Rightarrow> bytes \<Rightarrow> 'w fs \<Rightarrow> bool" where
  "reads_as F ino url data s \<longleftrightarrow>
     (honest_ranges (fe_fetch F) url data \<longrightarrow>
       (\<forall>off sz x s'. fs_step F (Read ino off sz) s = Some (RpData x, s') \<longrightarrow> x = read_slice off sz data))
     \<and> (serves_blob (fe_fetch F) url data \<and> working (fe_fetch F) data \<longrightarrow>
       (\<forall>off sz. \<exists>s'. fs_step F (Read ino off sz) s = Some (RpData (read_slice off sz data), s')))"

lemma stored_file_reads:
  assumes i: "fs_inv F s" and c: "config_of s = (Some base, True)" and hn: "hash_names (fe_fetch F) data"
    and pt: "points_to s ino url (env_hash (fe_fetch F) data)"
  shows "reads_as F ino url data s"
  unfolding reads_as_def
proof (intro conjI impI allI)
  have k: "cache_ok F s" "f_fetching s = {}" "f_cache_base s = Some base" "f_runtime s"
    using i c by (simp_all add: fs_inv_def config_of_def)
  obtain i nm p n mime e up where g: "get (f_tree s) ino
      = Some (File i nm p n (Remote url (env_hash (fe_fetch F) data) mime e) up)"
    using pt unfolding points_to_def by blast
  fix off sz x s' assume hr: "honest_ranges (fe_fetch F) url data"
    and r: "fs_step F (Read ino off sz) s = Some (RpData x, s')"
  then have rc: "read_content F ino off sz s = Some (Inr x, s')"
    by (auto simp: fs_step_def op_read_def split: option.splits sum.splits)
  show "x = read_slice off sz data"
  proof (cases "sz = 0")
    case True
    then show ?thesis using rc g k by (auto simp: read_content_def read_remote_def read_slice_eq)
  next
    case False
    then show ?thesis
      using read_content_stage [OF k(1,2), of ino off sz] rc g by (auto intro!: read_back_slice [OF hn hr])
  qed
next
  have k: "cache_ok F s" "f_fetching s = {}" "f_cache_base s = Some base" "f_runtime s"
    using i c by (simp_all add: fs_inv_def config_of_def)
  obtain i nm p n mime e up where g: "get (f_tree s) ino
      = Some (File i nm p n (Remote url (env_hash (fe_fetch F) data) mime e) up)"
    using pt unfolding points_to_def by blast
  fix off sz assume "serves_blob (fe_fetch F) url data \<and> working (fe_fetch F) data"
  then obtain s' where "read_remote F ino url (env_hash (fe_fetch F) data) off sz s = Some (Inr (read_slice off sz data), s')"
    using read_remote_served [OF _ _ hn k, of url ino off sz] by blast
  then show "\<exists>s'. fs_step F (Read ino off sz) s = Some (RpData (read_slice off sz data), s')"
    using g by (simp add: fs_step_def op_read_def read_content_def)
qed

text \<open>C3. What is written is what is read.  A file is created, written front to back and flushed
  without an error on a well-formed mount, in one upload.  If the server describes uploads
  truthfully, the file's node has the size of the data and its SHA-256.  From then on, over any
  callbacks that leave the node on that blob, a read returns nothing but the slice of the data
  asked for, whatever the caches, retries and evictions do, provided partial answers of the
  server are honest; and it does return it when the server serves the blob and the disk works.\<close>

theorem written_file_reads_back:
  fixes F :: "'w fs_env" and s :: "'w fs"
  defines "sha \<equiv> env_hash (fe_fetch F)"
  assumes i: "fs_inv F s" and cfg: "f_cache_base s = Some base" "f_runtime s"
    and new: "lookup (f_tree s) parent nm = None" and fh: "fh = f_next_fh s"
    and run: "fs_replies F (Create parent (Some nm) flags # map (\<lambda>(off, d). Write fh off d) ws @ [Flush fh]) s
      = Some (rs, s')"
    and ok: "no_error rs"
    and sq: "flag_set flags 10 \<or> sequential 0 ws" and data: "data = concat (map snd ws)" and ne: "data \<noteq> []"
    and one: "length data \<le> f_multipart_threshold s"
    and rd: "fe_read_ok F" and srv: "describes_uploads (ue_client (fe_upload F))"
    and hash: "ce_hash (ue_client (fe_upload F)) = sha" and hn: "hash_names (fe_fetch F) data"
  shows "\<exists>url. (\<exists>i nm' p mime e up. get (f_tree s') (next_inode (f_tree s))
        = Some (File i nm' p (length data) (Remote url (sha data) mime e) up))
    \<and> (\<forall>ops. points_to (fold (fs_exec F) ops s') (next_inode (f_tree s)) url (sha data) \<longrightarrow>
          reads_as F (next_inode (f_tree s)) url data (fold (fs_exec F) ops s'))"
proof -
  let ?ino = "next_inode (f_tree s)"
  obtain st where u: "fs_upload F ?ino data data st = Some (True, s')" "is_file (f_tree st) ?ino"
      "f_multipart_threshold st = f_multipart_threshold s"
    using created_file_upload [OF new fh run ok sq _ rd] ne data by blast
  obtain i' nm' p url mime e up where
    g: "get (f_tree s') ?ino = Some (File i' nm' p (length data) (Remote url (sha data) mime e) up)"
    using fs_upload_names [OF srv _ _ u(1,2)] one u(3) hash by (auto simp: sha_def)
  have s': "s' = fold (fs_exec F) (Create parent (Some nm) flags # map (\<lambda>(off, d). Write fh off d) ws @ [Flush fh]) s"
    by (rule replies_run [OF run])
  have inv: "fs_inv F s'" unfolding s' by (rule mount.run_inv [OF i])
  have c: "config_of s' = (Some base, True)" unfolding s' run_config using cfg by (simp add: config_of_def)
  have "reads_as F ?ino url data (fold (fs_exec F) ops s')"
    if "points_to (fold (fs_exec F) ops s') ?ino url (sha data)" for ops
    using stored_file_reads [OF mount.run_inv [OF inv] _ hn] that c by (simp add: run_config sha_def)
  with g show ?thesis by blast
qed

text \<open>A server that describes uploads by echoing them, and serves the blob \<open>ab\<close>.\<close>

definition echo_hash :: "bytes \<Rightarrow> string" where
  "echo_hash b = (if b = ''ab'' then demo_sha else replicate 64 (CHR ''b''))"

definition echo_fs_env :: "request list fs_env" where
  "echo_fs_env = demo_fs_env\<lparr>
     fe_fetch := (fe_fetch demo_fs_env)\<lparr>env_hash := echo_hash,
       env_http := (\<lambda>rq w. (Inr \<lparr>rs_status = 200, rs_content_length = Some 2, rs_headers = (\<lambda>_. None),
          rs_body = Inr ''ab''\<rparr>, w @ [rq]))\<rparr>,
     fe_upload := demo_upload_env\<lparr>ue_client := demo_cenv\<lparr>ce_hash := echo_hash,
       ce_http := (\<lambda>rq w. (Inr \<lparr>rs_status = (if rq_method rq = ''HEAD'' then 404 else 200),
          rs_content_length = None, rs_headers = (\<lambda>_. None), rs_body = Inr (rq_body rq)\<rparr>, w @ [rq])),
       ce_json_descriptor := (\<lambda>b. Some \<lparr>bd_url = ''http://s/ab'', bd_sha256 = echo_hash b, bd_size = length b,
          bd_mime = None, bd_uploaded = 9, bd_expiration = None\<rparr>)\<rparr>\<rparr>\<rparr>"

lemma echo_hash_names: "hash_names (fe_fetch echo_fs_env) ''ab''"
  by (simp add: hash_names_def echo_fs_env_def echo_hash_def demo_sha_def sha_normal_def is_lower_hexdigit_def
      is_ascii_digit_def list_all_iff numeral_eq_Suc)

lemma echo_describes: "describes_uploads (ue_client (fe_upload echo_fs_env))"
  by (simp add: describes_uploads_def echo_fs_env_def mk_request_def)

lemma echo_serves: "serves_blob (fe_fetch echo_fs_env) url ''ab'' \<and> working (fe_fetch echo_fs_env) ''ab''"
  by (simp add: serves_blob_def working_def echo_fs_env_def demo_fs_env_def announced_too_large_def MAX_BLOB_SIZE_def)

lemma echo_inv: "fs_inv echo_fs_env demo_mount"
  using tree_wf_new
  by (simp add: fs_inv_def cache_ok_def demo_mount_def fs_new_rw_def fs_new_def cache_sound_def)

lemma retry_first:
  "upload_with_retry E base data auth pay MAX_ATTEMPTS st =
     (case upload_blob_with_payment E base data auth pay st of
        (Inr d, st') \<Rightarrow> Some (Inr d, st')
      | (Inl e, st') \<Rightarrow> if retryable e then upload_with_retry E base data auth pay 2 st' else Some (Inl e, st'))"
  by (simp add: MAX_ATTEMPTS_def eval_nat_numeral split: prod.split sum.split)

lemma slice_demo_sha: "slice_to 16 demo_sha = Some (replicate 16 (CHR ''a''))"
  by (simp add: slice_to_def demo_sha_def is_char_boundary_def is_cont_def)

lemma echo_write_run: "\<exists>rs s'. fs_replies echo_fs_env (Create 1 (Some ''f'') 0 #
      map (\<lambda>(off, d). Write 1 off d) [(0, ''ab'')] @ [Flush 1]) demo_mount = Some (rs, s') \<and> no_error rs"
  by (simp add: fs_step_def op_create_def op_write_def op_flush_def demo_mount_def fs_new_rw_def fs_new_def
      locked_def is_dir_def get_def new_tree_def lookup_def add_file_to_dir_def add_node_def next_inode_def
      update_node_def link_child_def make_fileattr_def new_buffer_def buf_write_def Let_def storage_len_def
      update_file_size_def fs_upload_def upload_cfg_def do_upload_def do_upload_inner_eq demo_fs_env_def echo_fs_env_def
      demo_upload_env_def create_upload_auth_header_def head_blob_with_expiry_def demo_cenv_def is_success_def
      no_error_def flag_set_def preflight_upload_def preflight_rejects_def refusal_def server_error_def
      transfer_def retry_first upload_blob_with_payment_def upload_attempt_def mk_request_def upload_data_def
      read_all_def vec_write_def echo_hash_def slice_demo_sha)

lemma read_slice_demo: "read_slice 1 5 ''ab'' = ''b''"
  by (simp add: read_slice_def)

theorem written_file_reads_back_witness:
  "\<exists>s' t. fs_step echo_fs_env (Read 2 1 5) s' = Some (RpData ''b'', t)"
proof -
  obtain rs s' where r: "fs_replies echo_fs_env (Create 1 (Some ''f'') 0 #
      map (\<lambda>(off, d). Write 1 off d) [(0, ''ab'')] @ [Flush 1]) demo_mount = Some (rs, s')" "no_error rs"
    using echo_write_run by blast
  have m: "f_cache_base demo_mount = Some [''c'']" "f_runtime demo_mount" "1 = f_next_fh demo_mount"
      "next_inode (f_tree demo_mount) = 2" "length ''ab'' \<le> f_multipart_threshold demo_mount"
    by (simp_all add: demo_mount_def fs_new_rw_def fs_new_def next_inode_def new_tree_def)
  have e: "fe_read_ok echo_fs_env" "ce_hash (ue_client (fe_upload echo_fs_env)) = env_hash (fe_fetch echo_fs_env)"
    by (simp_all add: echo_fs_env_def demo_fs_env_def)
  have d: "flag_set 0 10 \<or> sequential 0 [(0, ''ab'')]" "''ab'' = concat (map snd [(0 :: nat, ''ab'')])" "''ab'' \<noteq> []"
    by simp_all
  obtain url where p: "\<exists>i nm' p mime e up. get (f_tree s') 2
      = Some (File i nm' p (length ''ab'') (Remote url (env_hash (fe_fetch echo_fs_env) ''ab'') mime e) up)"
    and a: "\<forall>ops. points_to (fold (fs_exec echo_fs_env) ops s') 2 url (env_hash (fe_fetch echo_fs_env) ''ab'') \<longrightarrow>
        reads_as echo_fs_env 2 url ''ab'' (fold (fs_exec echo_fs_env) ops s')"
    using written_file_reads_back [OF echo_inv m(1,2) demo_new_file m(3) r d m(5) e(1) echo_describes e(2) echo_hash_names,
        unfolded m(4)] by blast
  have "reads_as echo_fs_env 2 url ''ab'' s'"
    using a [THEN spec, of "[]"] p by (auto simp: points_to_def)
  then have "\<exists>t. fs_step echo_fs_env (Read 2 1 5) s' = Some (RpData (read_slice 1 5 ''ab''), t)"
    using echo_serves [of url] unfolding reads_as_def by blast
  then show ?thesis unfolding read_slice_demo by blast
qed

end
