(* ===== verification/Bfs_Readers.thy ===== *)
theory Bfs_Readers
  imports Bfs_Fs_Run
begin

text \<open>
  Concurrent reads of remote files (\<open>read_content\<close> in \<open>src/fuse/fs.rs\<close>).  \<open>fuser\<close> may run
  several \<open>read\<close> callbacks at once; they share the set of hashes being fetched
  (\<open>fetch_in_progress\<close>) behind a mutex and a condition variable.  A thread is cut at the points
  where it takes or drops that lock: looking into the cache, claiming the hash (blocked while it
  is claimed), looking again, reading the file found, fetching.  A fetch takes effect when it
  ends; while a thread stays in \<open>RFetch\<close> the others move.  \<open>conc_step\<close> interleaves any number of
  threads over the shared state.
\<close>

section \<open>Threads\<close>

datatype phase = RStart | RWait | RRecheck | RReread | RFetch | RDone "read_error + bytes"

record reader =
  rd_ino :: nat
  rd_url :: string
  rd_sha :: string
  rd_offset :: nat
  rd_size :: nat
  rd_phase :: phase

text \<open>One step of a thread; \<open>None\<close>: it waits on the condition variable, or is done.\<close>

definition reader_step :: "'w fs_env \<Rightarrow> fs_path \<Rightarrow> reader \<Rightarrow> 'w fs \<Rightarrow> (phase \<times> 'w fs) option" where
  "reader_step F base th s =
     (case rd_phase th of
        RStart \<Rightarrow>
          if rd_size th = 0 then Some (RDone (Inr []), s)
          else (case try_cache F s base (rd_sha th) of
                  Some cached \<Rightarrow> Some (RDone (Inr (read_slice (rd_offset th) (rd_size th) cached)), s)
                | None \<Rightarrow> Some (RWait, s))
      | RWait \<Rightarrow>
          if rd_sha th \<in> f_fetching s then None
          else Some (RRecheck, s\<lparr>f_fetching := insert (rd_sha th) (f_fetching s)\<rparr>)
      | RRecheck \<Rightarrow>
          if cache_exists (f_disk s) base (rd_sha th) then Some (RReread, unclaim (rd_sha th) s)
          else Some (RFetch, s)
      | RReread \<Rightarrow>
          (case read_cached (env_io (fe_fetch F)) (f_disk s) base (rd_sha th) of
             Inr cached \<Rightarrow> Some (RDone (Inr (read_slice (rd_offset th) (rd_size th) cached)), s)
           | Inl _ \<Rightarrow> Some (RFetch, s))
      | RFetch \<Rightarrow>
          (case fetch_remote F (rd_ino th) (rd_url th) (rd_sha th) base (rd_offset th) (rd_size th) s of
             (r, s') \<Rightarrow> Some (RDone r, s'))
      | RDone _ \<Rightarrow> None)"

inductive conc_step ::
  "'w fs_env \<Rightarrow> fs_path \<Rightarrow> reader list \<times> 'w fs \<Rightarrow> reader list \<times> 'w fs \<Rightarrow> bool" for F base where
  one: "i < length ts \<Longrightarrow> reader_step F base (ts ! i) s = Some (ph, s') \<Longrightarrow>
    conc_step F base (ts, s) (ts[i := (ts ! i)\<lparr>rd_phase := ph\<rparr>], s')"

inductive_cases conc_stepE [elim]: "conc_step F base (ts, s) (ts', s')"

abbreviation conc_steps ::
  "'w fs_env \<Rightarrow> fs_path \<Rightarrow> reader list \<times> 'w fs \<Rightarrow> reader list \<times> 'w fs \<Rightarrow> bool" where
  "conc_steps F base \<equiv> (conc_step F base)\<^sup>*\<^sup>*"

section \<open>One thread alone is the sequential read\<close>

fun reader_run :: "nat \<Rightarrow> 'w fs_env \<Rightarrow> fs_path \<Rightarrow> reader \<Rightarrow> 'w fs \<Rightarrow> ((read_error + bytes) \<times> 'w fs) option" where
  "reader_run 0 F base th s = None"
| "reader_run (Suc n) F base th s =
     (case reader_step F base th s of
        None \<Rightarrow> None
      | Some (RDone r, s') \<Rightarrow> Some (r, s')
      | Some (ph, s') \<Rightarrow> reader_run n F base (th\<lparr>rd_phase := ph\<rparr>) s')"


section \<open>What a fetch leaves alone\<close>

lemma fetching_full_fetch [simp]: "f_fetching (snd (full_fetch F url sha base s)) = f_fetching s"
  by (auto simp: full_fetch_def Let_def put_host_def split: prod.split sum.split)

lemma fetching_finish_read [simp]:
  "f_fetching (snd (finish_read F ino sha base off sz r s)) = f_fetching s - {sha}"
  by (cases r) (auto simp: finish_read_def Let_def unclaim_def split: option.split prod.split)

lemma fetching_fetch_remote:
  "f_fetching (snd (fetch_remote F ino url sha base off sz s)) = f_fetching s - {sha}"
proof -
  obtain q h where q: "fetch_range (fe_fetch F) url off (off + sz - 1) (host_of s) = (q, h)" by fastforce
  have "f_fetching (snd (full_fetch F url sha base (put_host h s))) = f_fetching s" by simp
  then show ?thesis using q
    by (cases q) (auto simp: fetch_remote_def Let_def put_host_def unclaim_def case_prod_beta
        split: option.split sum.split)
qed

text \<open>Without a size limit nothing ever leaves the cache.\<close>

definition cache_grows :: "'w fs \<Rightarrow> 'w fs \<Rightarrow> bool" where
  "cache_grows s s' \<longleftrightarrow> f_max_cache_bytes s' = f_max_cache_bytes s
     \<and> (\<forall>p. f_disk s p \<noteq> None \<longrightarrow> f_disk s' p \<noteq> None)"

lemma cache_grows_verify:
  "verify_and_cache E bytes sha base (f_disk s, m0) = (r, d, m) \<Longrightarrow> cache_grows s (s\<lparr>f_disk := d, f_metrics := m\<rparr>)"
  by (drule verify_and_cache_cases) (auto simp: cache_grows_def)

lemma cache_grows_trans: "cache_grows a b \<Longrightarrow> cache_grows b c \<Longrightarrow> cache_grows a c"
  by (simp add: cache_grows_def)

lemma cache_grows_full_fetch: "cache_grows s (snd (full_fetch F url sha base s))"
proof -
  obtain q h where q: "fetch_and_cache (fe_fetch F) url sha base (host_of s) = (q, h)" by fastforce
  have "f_disk s p \<noteq> None \<longrightarrow> hs_disk h p \<noteq> None" for p
    using fetch_and_cache_cases [OF q] by (auto simp: host_of_def)
  then show ?thesis using q
    by (auto simp: full_fetch_def Let_def put_host_def cache_grows_def split: sum.split)
qed

lemma cache_grows_finish_read:
  "f_max_cache_bytes s = 0 \<Longrightarrow> cache_grows s (snd (finish_read F ino sha base off sz r s))"
  by (cases r) (auto simp: finish_read_def Let_def unclaim_def cache_grows_def split: option.split)

lemma cache_grows_unclaim: "cache_grows a s \<Longrightarrow> cache_grows a (unclaim x s)"
  by (simp add: cache_grows_def unclaim_def)

lemma cache_grows_put_host:
  "fetch_range E url a b (host_of s) = (q, h) \<Longrightarrow> cache_grows s (put_host h s)"
  by (auto simp: fetch_range_def fetch_range_inner_def Let_def host_of_def put_host_def cache_grows_def
      split: prod.splits sum.splits option.splits if_splits)

lemma cache_grows_fetch_remote:
  assumes "f_max_cache_bytes s = 0"
  shows "cache_grows s (snd (fetch_remote F ino url sha base off sz s))"
proof -
  obtain q h where q: "fetch_range (fe_fetch F) url off (off + sz - 1) (host_of s) = (q, h)" by fastforce
  note ph = cache_grows_put_host [OF q]
  show ?thesis
  proof (cases q)
    case (Inl e)
    obtain rr s1 where ff: "full_fetch F url sha base (put_host h s) = (rr, s1)" by fastforce
    have g1: "cache_grows s s1" using cache_grows_trans [OF ph] cache_grows_full_fetch [of "put_host h s" F url sha base] ff by simp
    then have "f_max_cache_bytes s1 = 0" using assms by (simp add: cache_grows_def)
    then have "cache_grows s (snd (finish_read F ino sha base off sz r s1))" for r
      by (rule cache_grows_trans [OF g1 cache_grows_finish_read])
    then show ?thesis using q Inl ff cache_grows_unclaim [OF g1]
      by (auto simp: fetch_remote_def split: option.split)
  next
    case (Inr x)
    obtain data o' where x: "x = (data, o')" by fastforce
    obtain v d m where v: "verify_and_cache (fe_fetch F) data sha base
          (f_disk (put_host h s), f_metrics (put_host h s)) = (v, d, m)" by (metis prod_cases3)
    let ?t = "(put_host h s)\<lparr>f_disk := d, f_metrics := m\<rparr>"
    have g: "cache_grows s ?t" by (rule cache_grows_trans [OF ph cache_grows_verify [OF v]])
    then have "f_max_cache_bytes ?t = 0" using assms by (simp add: cache_grows_def)
    from cache_grows_trans [OF g cache_grows_finish_read [OF this]]
    have "cache_grows s (snd (finish_read F ino sha base off sz r ?t))" for r .
    then show ?thesis
      using q Inr x v cache_grows_unclaim [OF g] cache_grows_unclaim [OF ph]
      by (cases o'; cases v) (auto simp: fetch_remote_def Let_def)
  qed
qed

section \<open>Claims\<close>

definition claiming :: "phase \<Rightarrow> bool" where
  "claiming ph \<longleftrightarrow> ph = RRecheck \<or> ph = RFetch"

text \<open>Every claim has a thread that will drop it.\<close>

definition claims_owned :: "reader list \<times> 'w fs \<Rightarrow> bool" where
  "claims_owned c \<longleftrightarrow> (\<forall>x \<in> f_fetching (snd c).
     \<exists>i < length (fst c). claiming (rd_phase (fst c ! i)) \<and> rd_sha (fst c ! i) = x)"

lemma reader_step_fetching:
  assumes "reader_step F base th s = Some (ph, s')"
  shows "f_fetching s' = (case rd_phase th of
      RWait \<Rightarrow> insert (rd_sha th) (f_fetching s)
    | RRecheck \<Rightarrow> if claiming ph then f_fetching s else f_fetching s - {rd_sha th}
    | RFetch \<Rightarrow> f_fetching s - {rd_sha th}
    | _ \<Rightarrow> f_fetching s)"
    and "rd_phase th = RWait \<Longrightarrow> claiming ph \<and> rd_sha th \<notin> f_fetching s"
    and "rd_phase th = RFetch \<Longrightarrow> \<not> claiming ph"
    and "rd_phase th = RStart \<Longrightarrow> \<not> claiming ph"
proof -
  have fr: "fetch_remote F ino url sha base off sz s = (r, s') \<Longrightarrow> f_fetching s' = f_fetching s - {sha}"
    for ino url sha off sz r using fetching_fetch_remote [of F ino url sha base off sz s] by simp
  show "f_fetching s' = (case rd_phase th of
      RWait \<Rightarrow> insert (rd_sha th) (f_fetching s)
    | RRecheck \<Rightarrow> if claiming ph then f_fetching s else f_fetching s - {rd_sha th}
    | RFetch \<Rightarrow> f_fetching s - {rd_sha th}
    | _ \<Rightarrow> f_fetching s)"
    using assms fr
    by (cases "rd_phase th") (auto simp: reader_step_def claiming_def unclaim_def
        split: if_splits option.splits sum.splits prod.splits)
qed (use assms in \<open>auto simp: reader_step_def claiming_def split: if_splits option.splits prod.splits\<close>)

lemma claims_owned_step:
  assumes c: "claims_owned (ts, s)" and i: "i < length ts"
    and st: "reader_step F base (ts ! i) s = Some (ph, s')"
  shows "claims_owned (ts[i := (ts ! i)\<lparr>rd_phase := ph\<rparr>], s')"
proof -
  note R = reader_step_fetching [OF st]
  have fet: "x = rd_sha (ts ! i) \<or> x \<in> f_fetching s" if "x \<in> f_fetching s'" for x
    using R(1) that by (auto split: phase.splits if_splits)
  have own: "claiming ph \<or> rd_sha (ts ! i) \<in> f_fetching s \<and> \<not> claiming (rd_phase (ts ! i))"
    if "rd_sha (ts ! i) \<in> f_fetching s'"
    using R that by (auto simp: claiming_def split: phase.splits if_splits)
  have "\<exists>k < length ts. claiming (rd_phase (ts[i := (ts ! i)\<lparr>rd_phase := ph\<rparr>] ! k))
      \<and> rd_sha (ts[i := (ts ! i)\<lparr>rd_phase := ph\<rparr>] ! k) = x" if x: "x \<in> f_fetching s'" for x
  proof (cases "x = rd_sha (ts ! i) \<and> claiming ph")
    case True
    then show ?thesis using i by (intro exI [of _ i]) simp
  next
    case False
    then have "x \<in> f_fetching s" using fet [OF x] own x by auto
    then obtain k where k: "k < length ts" "claiming (rd_phase (ts ! k))" "rd_sha (ts ! k) = x"
      using c by (auto simp: claims_owned_def)
    then have "k \<noteq> i" using own x False by auto
    then show ?thesis using k by (intro exI [of _ k]) simp
  qed
  then show ?thesis by (simp add: claims_owned_def)
qed

section \<open>Every run ends, with every read answered\<close>

definition steps_left :: "reader \<Rightarrow> nat" where
  "steps_left th = (case rd_phase th of RStart \<Rightarrow> 5 | RWait \<Rightarrow> 4 | RRecheck \<Rightarrow> 3 | RReread \<Rightarrow> 2
     | RFetch \<Rightarrow> 1 | RDone _ \<Rightarrow> 0)"

definition work_left :: "reader list \<times> 'w fs \<Rightarrow> nat" where
  "work_left c = sum_list (map steps_left (fst c))"

definition answered :: "reader list \<times> 'w fs \<Rightarrow> bool" where
  "answered c \<longleftrightarrow> list_all (\<lambda>th. \<exists>r. rd_phase th = RDone r) (fst c)"

lemma reader_step_left:
  "reader_step F base th s = Some (ph, s') \<Longrightarrow> steps_left (th\<lparr>rd_phase := ph\<rparr>) < steps_left th"
  by (auto simp: reader_step_def steps_left_def split: phase.splits if_splits option.splits sum.splits prod.splits)

lemma conc_step_work: "conc_step F base c c' \<Longrightarrow> work_left c' < work_left c"
proof (induction rule: conc_step.induct)
  case (one i ts s ph s')
  have "map steps_left (ts[i := (ts ! i)\<lparr>rd_phase := ph\<rparr>])
      = (map steps_left ts)[i := steps_left ((ts ! i)\<lparr>rd_phase := ph\<rparr>)]"
    by (rule map_update)
  moreover have "sum_list (xs[i := (n :: nat)]) < sum_list xs" if "i < length xs" "n < xs ! i" for xs n
    using that elem_le_sum_list [OF that(1)] by (simp add: sum_list_update)
  ultimately show ?case
    using one(1) reader_step_left [OF one(2)] by (simp add: work_left_def)
qed

lemma conc_step_progress:
  assumes "claims_owned c" and "\<not> answered c"
  shows "\<exists>c'. conc_step F base c c'"
proof -
  obtain ts s where c: "c = (ts, s)" by fastforce
  have able: "\<exists>ph s'. reader_step F base th s = Some (ph, s')"
    if "\<not> (\<exists>r. rd_phase th = RDone r)" "rd_phase th = RWait \<longrightarrow> rd_sha th \<notin> f_fetching s" for th
    using that by (cases "rd_phase th")
      (auto simp: reader_step_def split: option.split sum.split prod.split)
  obtain i where i: "i < length ts" "\<not> (\<exists>r. rd_phase (ts ! i) = RDone r)"
    using assms(2) c by (auto simp: answered_def list_all_length)
  have "\<exists>j < length ts. \<exists>ph s'. reader_step F base (ts ! j) s = Some (ph, s')"
  proof (cases "rd_phase (ts ! i) = RWait \<and> rd_sha (ts ! i) \<in> f_fetching s")
    case False
    then show ?thesis using i able by blast
  next
    case True
    then obtain j where "j < length ts" "claiming (rd_phase (ts ! j))"
      using assms(1) c by (auto simp: claims_owned_def)
    then show ?thesis using able [of "ts ! j"] by (auto simp: claiming_def)
  qed
  then show ?thesis using c one by blast
qed

definition fresh :: "reader list \<times> 'w fs \<Rightarrow> bool" where
  "fresh c \<longleftrightarrow> list_all (\<lambda>th. rd_phase th = RStart) (fst c) \<and> f_fetching (snd c) = {}"

lemma fresh_owned: "fresh c \<Longrightarrow> claims_owned c"
  by (simp add: fresh_def claims_owned_def)

lemma conc_run_owned: "(conc_step F base ^^ n) c c' \<Longrightarrow> claims_owned c \<Longrightarrow> claims_owned c'"
proof (induction n arbitrary: c')
  case (Suc n)
  then obtain d where d: "claims_owned d" "conc_step F base d c'" by auto
  from d(2,1) show ?case
    by (induction rule: conc_step.induct) (rule claims_owned_step)
qed simp

lemma conc_run_work: "(conc_step F base ^^ n) c c' \<Longrightarrow> work_left c' + n \<le> work_left c"
proof (induction n arbitrary: c')
  case (Suc n)
  then obtain d where "work_left d + n \<le> work_left c" "conc_step F base d c'" by auto
  with conc_step_work [of F base d c'] show ?case by simp
qed simp

text \<open>Any number of concurrent reads, of any files and interleaved in any way, end: no run is
  longer than five steps per read, and a run stops only when every read has its answer. No read
  waits for a claim that nobody will drop (no deadlock), and whatever the servers, the disk and
  the cache do.\<close>

theorem concurrent_reads_answered:
  assumes "fresh (ts, s)" and "(conc_step F base ^^ n) (ts, s) c"
  shows "n \<le> 5 * length ts \<and> (answered c \<or> (\<exists>c'. conc_step F base c c'))"
proof -
  have "claims_owned c" using conc_run_owned [OF assms(2) fresh_owned [OF assms(1)]] .
  then have p: "answered c \<or> (\<exists>c'. conc_step F base c c')"
    using conc_step_progress [of c F base] by blast
  have "map steps_left ts = replicate (length ts) 5"
    using assms(1) by (intro nth_equalityI) (auto simp: fresh_def list_all_length steps_left_def)
  then have "work_left (ts, s) = 5 * length ts" by (simp add: work_left_def sum_list_replicate)
  with conc_run_work [OF assms(2)] p show ?thesis by simp
qed

section \<open>One fetch per blob at a time\<close>

definition excl :: "'w fs_env \<Rightarrow> fs_path \<Rightarrow> reader list \<times> 'w fs \<Rightarrow> bool" where
  "excl F base c \<longleftrightarrow> f_max_cache_bytes (snd c) = 0
     \<and> (\<forall>i < length (fst c). claiming (rd_phase (fst c ! i)) \<longrightarrow> rd_sha (fst c ! i) \<in> f_fetching (snd c))
     \<and> (\<forall>i < length (fst c). \<forall>j < length (fst c). i \<noteq> j \<longrightarrow> claiming (rd_phase (fst c ! i)) \<longrightarrow>
          claiming (rd_phase (fst c ! j)) \<longrightarrow> rd_sha (fst c ! i) \<noteq> rd_sha (fst c ! j))
     \<and> (\<forall>i < length (fst c). rd_phase (fst c ! i) = RReread \<longrightarrow>
          cache_exists (f_disk (snd c)) base (rd_sha (fst c ! i)))"

lemma reader_step_cache_grows:
  assumes "reader_step F base th s = Some (ph, s')" "f_max_cache_bytes s = 0"
  shows "cache_grows s s'"
proof -
  have fr: "fetch_remote F ino url sha base off sz s = (r, s') \<Longrightarrow> cache_grows s s'"
    for ino url sha off sz r using cache_grows_fetch_remote [OF assms(2), of F ino url sha base off sz] by simp
  show ?thesis using assms(1) fr
    by (cases "rd_phase th") (auto simp: reader_step_def cache_grows_def unclaim_def
        split: if_splits option.splits sum.splits prod.splits)
qed

lemma cache_grows_exists: "cache_grows s s' \<Longrightarrow> cache_exists (f_disk s) base x \<Longrightarrow> cache_exists (f_disk s') base x"
  by (auto simp: cache_grows_def cache_exists_def split: sum.splits)

lemma excl_step:
  assumes io: "\<forall>p. env_io (fe_fetch F) (ReadFile p)" and e: "excl F base (ts, s)" and i: "i < length ts"
    and st: "reader_step F base (ts ! i) s = Some (ph, s')"
  shows "excl F base (ts[i := (ts ! i)\<lparr>rd_phase := ph\<rparr>], s')"
proof -
  let ?ts = "ts[i := (ts ! i)\<lparr>rd_phase := ph\<rparr>]" and ?x = "rd_sha (ts ! i)"
  have mx: "f_max_cache_bytes s = 0" using e by (simp add: excl_def)
  note G = reader_step_cache_grows [OF st mx] and R = reader_step_fetching [OF st]
  have ex: "rd_phase (ts ! i) = RReread \<Longrightarrow> cache_exists (f_disk s) base ?x"
    using e i by (simp add: excl_def)
  have rr: "rd_phase (ts ! i) = RReread \<Longrightarrow> \<not> claiming ph"
  proof -
    assume "rd_phase (ts ! i) = RReread"
    with ex io st show "\<not> claiming ph"
      by (auto simp: reader_step_def claiming_def cache_exists_def read_cached_def split: sum.splits option.splits)
  qed
  have re: "ph = RReread \<Longrightarrow> cache_exists (f_disk s) base ?x"
    using st by (auto simp: reader_step_def split: phase.splits if_splits option.splits sum.splits prod.splits)
  have nd: "rd_phase (ts ! i) \<noteq> RDone r" for r
    using st by (auto simp: reader_step_def)
  have own: "claiming ph \<Longrightarrow> ?x \<in> f_fetching s' \<and> (claiming (rd_phase (ts ! i)) \<or> ?x \<notin> f_fetching s)"
    using R rr nd e i by (auto simp: excl_def claiming_def split: phase.splits if_splits)
  have keep: "y \<in> f_fetching s \<Longrightarrow> y \<noteq> ?x \<Longrightarrow> y \<in> f_fetching s'" for y
    using R(1) by (auto split: phase.splits if_splits)
  have drop: "claiming (rd_phase (ts ! j)) \<Longrightarrow> j < length ts \<Longrightarrow> j \<noteq> i \<Longrightarrow> rd_sha (ts ! j) = ?x \<Longrightarrow>
      \<not> claiming (rd_phase (ts ! i)) \<and> ?x \<in> f_fetching s" for j
    using e i by (auto simp: excl_def)
  have stay: "?x \<in> f_fetching s'" if "?x \<in> f_fetching s" "\<not> claiming (rd_phase (ts ! i))"
    using R(1) that by (auto simp: claiming_def split: phase.splits if_splits)
  have "f_max_cache_bytes s' = 0" using G mx by (simp add: cache_grows_def)
  moreover have "rd_sha (?ts ! k) \<in> f_fetching s'" if "k < length ?ts" "claiming (rd_phase (?ts ! k))" for k
  proof (cases "k = i")
    case True
    then show ?thesis using that own i by simp
  next
    case False
    then have c: "claiming (rd_phase (ts ! k))" "k < length ts" using that by simp_all
    then have "rd_sha (ts ! k) \<in> f_fetching s" using e by (simp add: excl_def)
    then have "rd_sha (ts ! k) \<in> f_fetching s'" using keep drop [OF c False] stay by metis
    then show ?thesis using False by simp
  qed
  moreover have "rd_sha (?ts ! k) \<noteq> rd_sha (?ts ! j)"
    if "k < length ?ts" "j < length ?ts" "k \<noteq> j" "claiming (rd_phase (?ts ! k))" "claiming (rd_phase (?ts ! j))" for k j
  proof (cases "k = i \<or> j = i")
    case False
    then show ?thesis using that e by (simp add: excl_def)
  next
    case True
    have one_side: "rd_sha (ts ! j) \<noteq> ?x"
      if "j < length ts" "j \<noteq> i" "claiming ph" "claiming (rd_phase (ts ! j))" for j
      using drop [OF that(4) that(1) that(2)] own [OF that(3)] by blast
    from True show ?thesis
      using that one_side [of j] one_side [of k] i by (auto simp: nth_list_update)
  qed
  moreover have "cache_exists (f_disk s') base (rd_sha (?ts ! k))"
    if "k < length ?ts" "rd_phase (?ts ! k) = RReread" for k
    using that e i re cache_grows_exists [OF G] by (cases "k = i") (auto simp: excl_def)
  ultimately show ?thesis unfolding excl_def by simp
qed


section \<open>Runs of one thread among others\<close>

definition at_phase :: "reader list \<Rightarrow> nat \<Rightarrow> phase \<Rightarrow> reader list" where
  "at_phase ts i ph = ts[i := (ts ! i)\<lparr>rd_phase := ph\<rparr>]"

lemma at_phase_step:
  assumes "i < length ts" "reader_step F base ((ts ! i)\<lparr>rd_phase := ph\<rparr>) s = Some (ph', s')"
  shows "conc_step F base (at_phase ts i ph, s) (at_phase ts i ph', s')"
  using one [of i "at_phase ts i ph" F base s ph' s'] assms by (simp add: at_phase_def)

lemma at_phase_now: "rd_phase (ts ! i) = ph \<Longrightarrow> at_phase ts i ph = ts"
proof -
  assume "rd_phase (ts ! i) = ph"
  then have "(ts ! i)\<lparr>rd_phase := ph\<rparr> = ts ! i" by (cases "ts ! i") simp
  then show ?thesis by (simp add: at_phase_def)
qed

lemma reach_fetch:
  assumes "i < length ts" "rd_phase (ts ! i) = RStart" "rd_size (ts ! i) \<noteq> 0"
    and "\<not> cache_exists (f_disk s) base (rd_sha (ts ! i))" "rd_sha (ts ! i) \<notin> f_fetching s"
  shows "conc_steps F base (ts, s) (at_phase ts i RFetch,
    s\<lparr>f_fetching := insert (rd_sha (ts ! i)) (f_fetching s)\<rparr>)"
proof -
  let ?s = "s\<lparr>f_fetching := insert (rd_sha (ts ! i)) (f_fetching s)\<rparr>"
  have "try_cache F s base (rd_sha (ts ! i)) = None" using assms(4) by (simp add: try_cache_def)
  then have 1: "conc_step F base (at_phase ts i RStart, s) (at_phase ts i RWait, s)"
    using assms by (intro at_phase_step) (simp_all add: reader_step_def)
  have 2: "conc_step F base (at_phase ts i RWait, s) (at_phase ts i RRecheck, ?s)"
    using assms by (intro at_phase_step) (simp_all add: reader_step_def)
  have 3: "conc_step F base (at_phase ts i RRecheck, ?s) (at_phase ts i RFetch, ?s)"
    using assms by (intro at_phase_step) (simp_all add: reader_step_def)
  show ?thesis
    using rtranclp.rtrancl_into_rtrancl [OF rtranclp.rtrancl_into_rtrancl [OF r_into_rtranclp [of "conc_step F base", OF 1] 2] 3]
    by (simp add: at_phase_now [OF assms(2)])
qed

lemma reach_unclaimed_fetch:
  assumes "i < length ts" "rd_phase (ts ! i) = RStart" "rd_size (ts ! i) \<noteq> 0"
    and "cache_exists (f_disk s) base (rd_sha (ts ! i))" "rd_sha (ts ! i) \<notin> f_fetching s"
    and "read_cached (env_io (fe_fetch F)) (f_disk s) base (rd_sha (ts ! i)) = Inl e"
  shows "conc_steps F base (ts, s) (at_phase ts i RFetch, s)"
proof -
  let ?s = "s\<lparr>f_fetching := insert (rd_sha (ts ! i)) (f_fetching s)\<rparr>"
  have "try_cache F s base (rd_sha (ts ! i)) = None" using assms(6) by (simp add: try_cache_def)
  then have 1: "conc_step F base (at_phase ts i RStart, s) (at_phase ts i RWait, s)"
    using assms by (intro at_phase_step) (simp_all add: reader_step_def)
  have 2: "conc_step F base (at_phase ts i RWait, s) (at_phase ts i RRecheck, ?s)"
    using assms by (intro at_phase_step) (simp_all add: reader_step_def)
  have "unclaim (rd_sha (ts ! i)) ?s = s" using assms(5) by (simp add: unclaim_def)
  then have 3: "conc_step F base (at_phase ts i RRecheck, ?s) (at_phase ts i RReread, s)"
    using assms by (intro at_phase_step) (simp_all add: reader_step_def)
  have 4: "conc_step F base (at_phase ts i RReread, s) (at_phase ts i RFetch, s)"
    using assms by (intro at_phase_step) (simp_all add: reader_step_def)
  show ?thesis
    using rtranclp.rtrancl_into_rtrancl [OF rtranclp.rtrancl_into_rtrancl [OF rtranclp.rtrancl_into_rtrancl [OF
        r_into_rtranclp [of "conc_step F base", OF 1] 2] 3] 4]
    by (simp add: at_phase_now [OF assms(2)])
qed

text \<open>The first hypothesis of \<open>concurrent_fetches_exclusive\<close> is needed: a thread that finds the
  blob in the cache after claiming it drops its claim before reading the file, and goes on to
  fetch when the read fails, without a claim. Two reads of one unreadable cached blob fetch it
  at the same time.\<close>

lemma unreadable_cache_fetches_twice:
  assumes "cache_exists (f_disk s) base sha" "read_cached (env_io (fe_fetch F)) (f_disk s) base sha = Inl e"
    and "f_fetching s = {}"
  shows "\<exists>ts'. conc_steps F base ([\<lparr>rd_ino = 2, rd_url = u, rd_sha = sha, rd_offset = 0, rd_size = 1,
        rd_phase = RStart\<rparr>, \<lparr>rd_ino = 2, rd_url = u, rd_sha = sha, rd_offset = 0, rd_size = 1,
        rd_phase = RStart\<rparr>], s) (ts', s)
    \<and> rd_phase (ts' ! 0) = RFetch \<and> rd_phase (ts' ! 1) = RFetch \<and> rd_sha (ts' ! 0) = rd_sha (ts' ! 1)"
proof -
  let ?r = "\<lparr>rd_ino = 2, rd_url = u, rd_sha = sha, rd_offset = 0, rd_size = 1, rd_phase = RStart\<rparr>"
  let ?f = "?r\<lparr>rd_phase := RFetch\<rparr>"
  have 1: "conc_steps F base ([?r, ?r], s) ([?f, ?r], s)"
    using reach_unclaimed_fetch [of 0 "[?r, ?r]" s base F e] assms by (simp add: at_phase_def)
  have 2: "conc_steps F base ([?f, ?r], s) ([?f, ?f], s)"
    using reach_unclaimed_fetch [of 1 "[?f, ?r]" s base F e] assms by (simp add: at_phase_def)
  show ?thesis using rtranclp_trans [of "conc_step F base", OF 1 2] by (intro exI [of _ "[?f, ?f]"]) simp
qed

section \<open>Witnesses\<close>

definition demo_reader :: "string \<Rightarrow> reader" where
  "demo_reader sha = \<lparr>rd_ino = 2, rd_url = ''http://s/x'', rd_sha = sha, rd_offset = 0, rd_size = 2,
     rd_phase = RStart\<rparr>"


lemma demo_fresh: "fresh ([demo_reader x, demo_reader y], demo_mount)"
  by (simp add: fresh_def demo_reader_def demo_mount_def fs_new_rw_def fs_new_def)

theorem concurrent_reads_answered_witness:
  "\<exists>c. conc_step demo_fs_env [''c''] ([demo_reader ''a'', demo_reader ''b''], demo_mount) c"
proof -
  have "(conc_step demo_fs_env [''c''] ^^ 0) ([demo_reader ''a'', demo_reader ''b''], demo_mount)
      ([demo_reader ''a'', demo_reader ''b''], demo_mount)" by simp
  from concurrent_reads_answered [OF demo_fresh this] show ?thesis
    by (auto simp: answered_def demo_reader_def)
qed


end
