(* ===== verification/Bfs_Control.thy ===== *)
theory Bfs_Control
  imports Bfs_Fs_Props
begin

text \<open>
  The control socket (\<open>src/control.rs\<close>): one JSON command per connection, which reports the
  mount or sets its freeze flag.  Commands and FUSE callbacks share the tree and the flag, so
  the theory runs them mixed, in any order.  The JSON codec is \<open>serde_json\<close>'s and a
  parameter; the cache directory is what a recursive listing of it shows.
\<close>

section \<open>Commands\<close>

record control_response =
  cr_status :: string
  cr_error :: "string option"
  cr_read_only :: "bool option"
  cr_frozen :: "bool option"
  cr_nodes :: "nat option"
  cr_cache_bytes :: "nat option"

text \<open>What \<open>read_dir\<close> finds: a file (its length, or none if its metadata is unreadable), a
  directory (its entries, or none if unreadable), something else, or an error.\<close>

datatype listed = ListedFile "nat option" | ListedDir "listed list option" | ListedOther | ListedError

text \<open>The sum is a \<open>u64\<close>: it wraps in a release build.\<close>

fun entry_size :: "listed \<Rightarrow> nat option" and entries_size :: "nat \<Rightarrow> listed list \<Rightarrow> nat option" where
  "entry_size (ListedFile len) = len"
| "entry_size (ListedDir None) = None"
| "entry_size (ListedDir (Some es)) = entries_size 0 es"
| "entry_size ListedOther = Some 0"
| "entry_size ListedError = None"
| "entries_size acc [] = Some acc"
| "entries_size acc (e # es) =
     (case entry_size e of None \<Rightarrow> None | Some n \<Rightarrow> entries_size ((acc + n) mod u64_max) es)"

definition compute_cache_size :: "listed list option \<Rightarrow> nat option" where
  "compute_cache_size dir = entry_size (ListedDir dir)"

record control_env =
  ce_parse :: "string \<Rightarrow> string + string"   \<comment> \<open>the error text, or the field \<open>cmd\<close>\<close>
  ce_listing :: "disk \<Rightarrow> fs_path \<Rightarrow> listed list option"
  ce_print :: "control_response \<Rightarrow> string option"

definition error_response :: "string \<Rightarrow> control_response" where
  "error_response msg = \<lparr>cr_status = ''error'', cr_error = Some msg, cr_read_only = None,
     cr_frozen = None, cr_nodes = None, cr_cache_bytes = None\<rparr>"

definition handle_command :: "control_env \<Rightarrow> string \<Rightarrow> 'w fs \<Rightarrow> control_response \<times> 'w fs" where
  "handle_command C line s =
     (case ce_parse C (str_trim line) of
        Inl e \<Rightarrow> (error_response (''invalid command: '' @ e), s)
      | Inr cmd \<Rightarrow>
          if cmd = ''status'' then
            (\<lparr>cr_status = ''ok'', cr_error = None, cr_read_only = Some (f_read_only s),
              cr_frozen = Some (f_frozen s), cr_nodes = Some (node_count (f_tree s)),
              cr_cache_bytes = (case f_cache_base s of None \<Rightarrow> None
                 | Some p \<Rightarrow> compute_cache_size (ce_listing C (f_disk s) p))\<rparr>, s)
          else if cmd = ''freeze'' then
            (\<lparr>cr_status = ''ok'', cr_error = None, cr_read_only = Some (f_read_only s),
              cr_frozen = Some True, cr_nodes = None, cr_cache_bytes = None\<rparr>, s\<lparr>f_frozen := True\<rparr>)
          else if cmd = ''unfreeze'' then
            (\<lparr>cr_status = ''ok'', cr_error = None, cr_read_only = Some (f_read_only s),
              cr_frozen = Some False, cr_nodes = None, cr_cache_bytes = None\<rparr>, s\<lparr>f_frozen := False\<rparr>)
          else (error_response (''unknown command: '' @ cmd), s))"

text \<open>\<open>{"status":"error","error":"serialize failed"}\<close>\<close>

definition serialize_failed :: string where
  "serialize_failed =
     (let q = [CHR 0x22] in
      ''{'' @ q @ ''status'' @ q @ '':'' @ q @ ''error'' @ q @ '','' @ q @ ''error'' @ q @ '':''
      @ q @ ''serialize failed'' @ q @ ''}'')"

text \<open>A connection: the line read (none on an error), the bytes written back.\<close>

definition handle_connection :: "control_env \<Rightarrow> string option \<Rightarrow> 'w fs \<Rightarrow> string \<times> 'w fs" where
  "handle_connection C line s =
     (case line of
        None \<Rightarrow> ([], s)
      | Some l \<Rightarrow>
          (case handle_command C l s of
             (resp, s') \<Rightarrow>
               ((case ce_print C resp of
                   None \<Rightarrow> serialize_failed
                 | Some json \<Rightarrow> json) @ [CHR 0x0A], s')))"

section \<open>Callbacks and commands mixed\<close>

datatype mount_event = Callback fs_op | Command string

definition event_step :: "'w fs_env \<Rightarrow> control_env \<Rightarrow> mount_event \<Rightarrow> 'w fs \<Rightarrow> 'w fs" where
  "event_step F C ev s =
     (case ev of Callback op \<Rightarrow> fs_exec F op s | Command line \<Rightarrow> snd (handle_command C line s))"

text \<open>What the flag should be: the last freeze or unfreeze command decides.\<close>

definition flag_after :: "control_env \<Rightarrow> mount_event \<Rightarrow> bool \<Rightarrow> bool" where
  "flag_after C ev b =
     (case ev of
        Callback _ \<Rightarrow> b
      | Command line \<Rightarrow>
          (case ce_parse C (str_trim line) of
             Inl _ \<Rightarrow> b
           | Inr cmd \<Rightarrow> if cmd = ''freeze'' then True else if cmd = ''unfreeze'' then False else b))"

lemma handle_command_frame:
  "snd (handle_command C line s) = s\<lparr>f_frozen := flag_after C (Command line) (f_frozen s)\<rparr>"
  by (auto simp: handle_command_def flag_after_def split: sum.split)

lemma delete_remote_frozen [simp]:
  "f_frozen (delete_remote F sha s) = f_frozen s" "f_read_only (delete_remote F sha s) = f_read_only s"
  by (auto simp: delete_remote_defs Let_def split: option.split sum.split)

lemma fs_step_frozen:
  assumes i: "fs_inv F s" and st: "fs_step F op s = Some (r, s')"
  shows "f_frozen s' = f_frozen s \<and> f_read_only s' = f_read_only s"
proof -
  have rd: "f_frozen s1 = f_frozen s \<and> f_read_only s1 = f_read_only s" if "read_content F ino off sz s = Some (q, s1)" for ino off sz q s1
    using read_content_stage [of F s ino off sz] i that by (auto simp: fs_inv_def read_frame_def)
  have up: "f_frozen s2 = f_frozen s1 \<and> f_read_only s2 = f_read_only s1" if "fs_upload F ino data hashed s1 = Some (ok, s2)"
    for ino data hashed and s1 s2 :: "'a fs" and ok
    using fs_upload_frame [OF that] by auto
  show ?thesis
    using st
    by (cases op)
      (auto simp: fs_step_def op_lookup_def op_readdir_def op_getattr_def op_statfs_def op_refused_def
      op_rename_def op_link_def op_fsync_def op_getxattr_def op_listxattr_def op_setattr_def op_mkdir_def
      op_unlink_def op_rmdir_def op_write_def op_create_def op_open_def op_flush_def op_release_def
      op_read_def cleanup_failed_write_def Let_def
      split: option.splits sum.splits if_splits prod.splits tree_node.splits file_content.splits bool.splits
      dest: rd up)
qed

interpretation controlled: invariant_machine "event_step F C" "fs_inv F" for F C
proof
  fix s ev
  assume i: "fs_inv F s"
  show "fs_inv F (event_step F C ev s)"
  proof (cases ev)
    case (Callback op)
    then show ?thesis using mount.step_inv [OF i] by (simp add: event_step_def)
  next
    case (Command line)
    then show ?thesis
      using i by (simp add: event_step_def handle_command_frame fs_inv_def cache_ok_def)
  qed
qed

lemma event_step_frozen: "fs_inv F s \<Longrightarrow> f_frozen (event_step F C ev s) = flag_after C ev (f_frozen s)"
  by (auto simp: event_step_def handle_command_frame fs_exec_def flag_after_def dest: fs_step_frozen
      split: mount_event.split option.split)

lemma event_step_read_only: "fs_inv F s \<Longrightarrow> f_read_only (event_step F C ev s) = f_read_only s"
  by (auto simp: event_step_def handle_command_frame fs_exec_def dest: fs_step_frozen
      split: mount_event.split option.split)

lemma run_read_only:
  "fs_inv F s \<Longrightarrow> f_read_only (fold (event_step F C) evs s) = f_read_only s"
  by (induction evs arbitrary: s) (simp_all add: event_step_read_only controlled.step_inv)

lemma run_frozen:
  "fs_inv F s \<Longrightarrow> f_frozen (fold (event_step F C) evs s) = fold (flag_after C) evs (f_frozen s)"
  by (induction evs arbitrary: s) (simp_all add: event_step_frozen controlled.step_inv)


definition demo_control :: control_env where
  "demo_control = \<lparr>ce_parse = (\<lambda>l. Inr l), ce_listing = (\<lambda>_ _. Some [ListedFile (Some 3)]),
     ce_print = (\<lambda>_. None)\<rparr>"


end
