(* ===== verification/Bfs_Concurrent.thy ===== *)
theory Bfs_Concurrent
  imports Bfs_Readback Bfs_Readers Bfs_Control
begin

text \<open>
  The whole mount under concurrency: remote reads in threads of their own, arriving at any time
  and cut at their lock operations as in \<open>Bfs_Readers\<close>, interleaved with every other FUSE callback
  and with the commands of the control socket.  The other callbacks do not touch the set of fetch
  claims, but they do change what the threads look at: they create, upload and unlink files,
  remove objects from the cache and freeze the mount.
\<close>

section \<open>The interleaved system\<close>

definition other_event :: "mount_event \<Rightarrow> bool" where
  "other_event ev = (case ev of Callback (Read _ _ _) \<Rightarrow> False | _ \<Rightarrow> True)"

datatype move = Arrive | ReadMove | Other mount_event

text \<open>A read of a remote file starts from the node as it is when the read arrives.\<close>

inductive sys_step ::
  "'w fs_env \<Rightarrow> control_env \<Rightarrow> fs_path \<Rightarrow> move \<Rightarrow> reader list \<times> 'w fs \<Rightarrow> reader list \<times> 'w fs \<Rightarrow> bool"
  for F C base where
  arrive: "get (f_tree s) ino = Some (File i nm p n (Remote url sha mime e) up) \<Longrightarrow>
    sys_step F C base Arrive (ts, s)
      (ts @ [\<lparr>rd_ino = ino, rd_url = url, rd_sha = sha, rd_offset = off, rd_size = sz, rd_phase = RStart\<rparr>], s)"
| read_move: "conc_step F base c c' \<Longrightarrow> sys_step F C base ReadMove c c'"
| other: "other_event ev \<Longrightarrow> sys_step F C base (Other ev) (ts, s) (ts, event_step F C ev s)"

section \<open>Other callbacks leave the claims alone\<close>

abbreviation with_claims :: "string set \<Rightarrow> 'w fs \<Rightarrow> 'w fs" where
  "with_claims X s \<equiv> s\<lparr>f_fetching := X\<rparr>"

lemma with_claims_commute:
  "(with_claims X s)\<lparr>f_buffers := bs\<rparr> = with_claims X (s\<lparr>f_buffers := bs\<rparr>)"
  "(with_claims X s)\<lparr>f_tree := t\<rparr> = with_claims X (s\<lparr>f_tree := t\<rparr>)"
  "(with_claims X s)\<lparr>f_next_fh := k\<rparr> = with_claims X (s\<lparr>f_next_fh := k\<rparr>)"
  by simp_all

lemma populate_claims: "populate_if_lazy F ino (with_claims X s) = with_claims X (populate_if_lazy F ino s)"
  by (auto simp: populate_if_lazy_def split: prod.split option.split lazy_dir.split sum.split)

lemma delete_on_server_claims: "delete_on_server F sha (with_claims X s) = with_claims X (delete_on_server F sha s)"
  by (simp add: delete_on_server_def split: option.split)

lemma delete_cached_claims: "delete_cached F sha (with_claims X s) = with_claims X (delete_cached F sha s)"
  by (simp add: delete_cached_def split: option.split sum.split)

lemma delete_remote_claims: "delete_remote F sha (with_claims X s) = with_claims X (delete_remote F sha s)"
  by (simp add: delete_remote_def delete_on_server_claims delete_cached_claims)

lemma cleanup_claims: "cleanup_failed_write b (with_claims X s) = with_claims X (cleanup_failed_write b s)"
  by (simp add: cleanup_failed_write_def)

lemma upload_cfg_claims: "upload_cfg (with_claims X s) = upload_cfg s"
  by (cases "f_server_url s") (simp_all add: upload_cfg_def)

lemma fs_upload_claims:
  "fs_upload F ino data hashed (with_claims X s)
    = map_option (\<lambda>(ok, t). (ok, with_claims X t)) (fs_upload F ino data hashed s)"
  by (auto simp: fs_upload_def upload_cfg_claims split: option.split)

lemma locked_claims: "locked (with_claims X s) = locked s"
  by (simp add: locked_def)

lemma fs_step_claims:
  assumes "other_event (Callback op)"
  shows "fs_step F op (with_claims X s) = map_option (\<lambda>(r, t). (r, with_claims X t)) (fs_step F op s)"
  using assms
  by (cases op)
    (auto simp: other_event_def fs_step_def op_lookup_def op_readdir_def op_getattr_def op_statfs_def op_refused_def
      op_rename_def op_link_def op_fsync_def op_getxattr_def op_listxattr_def op_setattr_def op_mkdir_def
      op_unlink_def op_rmdir_def op_write_def op_create_def op_open_def op_flush_def op_release_def
      compute_effective_expiry_def
      Let_def case_prod_beta with_claims_commute populate_claims delete_remote_claims cleanup_claims fs_upload_claims locked_claims
      split: option.split sum.split prod.split tree_node.split file_content.split bool.split)

lemma event_step_claims:
  assumes "other_event ev"
  shows "event_step F C ev (with_claims X s) = with_claims X (event_step F C ev s)"
proof (cases ev)
  case (Callback op)
  then show ?thesis
    using fs_step_claims [of op F X s] assms by (auto simp: event_step_def fs_exec_def split: option.split)
next
  case (Command line)
  then show ?thesis by (simp add: event_step_def handle_command_frame)
qed

lemma event_step_fetching: "other_event ev \<Longrightarrow> f_fetching (event_step F C ev s) = f_fetching s"
proof -
  assume "other_event ev"
  from event_step_claims [OF this, of F C "f_fetching s" s] have
    "event_step F C ev s = with_claims (f_fetching s) (event_step F C ev s)" by simp
  then have "f_fetching (event_step F C ev s) = f_fetching (with_claims (f_fetching s) (event_step F C ev s))"
    by (rule arg_cong)
  then show ?thesis by simp
qed

lemma event_step_base: "f_cache_base (event_step F C ev s) = f_cache_base s"
  by (auto simp: event_step_def fs_exec_def handle_command_frame config_of_def dest: fs_step_config
      split: mount_event.split option.split)

section \<open>The invariant of the interleaved system\<close>

text \<open>Where the bytes of an answered read come from.\<close>

definition reader_bytes :: "'w fs_env \<Rightarrow> reader \<Rightarrow> bytes \<Rightarrow> bool" where
  "reader_bytes F th data \<longleftrightarrow>
     (rd_size th = 0 \<and> data = [])
     \<or> (\<exists>full. good_data F (rd_sha th) full \<and> data = read_slice (rd_offset th) (rd_size th) full)
     \<or> (\<exists>h h'. fetch_range (fe_fetch F) (rd_url th) (rd_offset th) (rd_offset th + rd_size th - 1) h
          = (Inr (data, None), h'))"

definition answer_ok :: "'w fs_env \<Rightarrow> reader \<Rightarrow> bool" where
  "answer_ok F th = (case rd_phase th of RDone (Inr data) \<Rightarrow> reader_bytes F th data | _ \<Rightarrow> True)"

definition sys_inv :: "'w fs_env \<Rightarrow> fs_path \<Rightarrow> reader list \<times> 'w fs \<Rightarrow> bool" where
  "sys_inv F base c \<longleftrightarrow> fs_inv F (with_claims {} (snd c)) \<and> f_cache_base (snd c) = Some base
     \<and> claims_owned c \<and> list_all (answer_ok F) (fst c)"

lemma cached_reader_bytes:
  "good_data F (rd_sha th) c \<Longrightarrow>
     reader_bytes F (th\<lparr>rd_phase := ph\<rparr>) (read_slice (rd_offset th) (rd_size th) c)"
  by (auto simp: reader_bytes_def)

lemma reader_step_stage:
  assumes cs: "cache_sound (fe_fetch F) base (f_disk s)" and st: "reader_step F base th s = Some (ph, s')"
  shows "read_frame s s' \<and> cache_sound (fe_fetch F) base (f_disk s') \<and> answer_ok F (th\<lparr>rd_phase := ph\<rparr>)"
proof (cases "rd_phase th")
  case RFetch
  obtain r t where f: "fetch_remote F (rd_ino th) (rd_url th) (rd_sha th) base (rd_offset th) (rd_size th) s = (r, t)"
    by (rule prod.exhaust)
  with RFetch st have "ph = RDone r" "s' = t" by (simp_all add: reader_step_def)
  then show ?thesis
    using fetch_remote_stage [OF cs f] by (cases r) (auto simp: answer_ok_def reader_bytes_def)
next
  case RStart
  then show ?thesis
    using st cs try_cache_good [OF cs]
    by (auto simp: reader_step_def answer_ok_def intro!: cached_reader_bytes split: if_splits option.splits)
      (simp add: reader_bytes_def)
next
  case RReread
  then show ?thesis
    using st cs read_cached_sound [OF cs]
    by (auto simp: reader_step_def answer_ok_def good_data_def intro!: cached_reader_bytes split: sum.splits)
qed (use st cs in \<open>auto simp: reader_step_def answer_ok_def read_frame_def unclaim_def split: if_splits\<close>)

lemma fs_inv_reader_frame:
  assumes i: "fs_inv F (with_claims {} s)" and b: "f_cache_base s = Some base" and fr: "read_frame s s'"
    and cs: "cache_sound (fe_fetch F) base (f_disk s')"
  shows "fs_inv F (with_claims {} s')"
proof (rule fs_inv_read_frame [OF i])
  show fr': "read_frame (with_claims {} s) (with_claims {} s')" using fr by (simp add: read_frame_def)
  show "cache_ok F (with_claims {} s')" using b cs fr by (simp add: cache_ok_def read_frame_def)
qed simp

lemma sys_inv_step:
  assumes "sys_step F C base m c c'" and "sys_inv F base c"
  shows "sys_inv F base c'"
  using assms
proof (induction rule: sys_step.induct)
  case (arrive s ino i nm p n url sha mime e up ts off sz)
  then have "claims_owned (ts @ [\<lparr>rd_ino = ino, rd_url = url, rd_sha = sha, rd_offset = off, rd_size = sz, rd_phase = RStart\<rparr>], s)"
    by (fastforce simp: sys_inv_def claims_owned_def nth_append)
  with arrive show ?case by (simp add: sys_inv_def answer_ok_def)
next
  case (read_move c c')
  from read_move(1) show ?case
  proof (cases rule: conc_step.cases)
    case (one k ts s ph s')
    have cs: "cache_sound (fe_fetch F) base (f_disk s)"
      using read_move(2) one(1) by (simp add: sys_inv_def fs_inv_def cache_ok_def)
    note S = reader_step_stage [OF cs one(4)]
    have "list_all (answer_ok F) (ts[k := (ts ! k)\<lparr>rd_phase := ph\<rparr>])"
      using read_move(2) one(1) S set_update_subset_insert by (fastforce simp: sys_inv_def list_all_iff)
    moreover have "claims_owned (ts[k := (ts ! k)\<lparr>rd_phase := ph\<rparr>], s')"
      using read_move(2) one by (intro claims_owned_step) (simp_all add: sys_inv_def)
    ultimately show ?thesis
      using read_move(2) one(1,2) S fs_inv_reader_frame [of F s base s'] by (simp add: sys_inv_def read_frame_def)
  qed
next
  case (other ev ts s)
  have "fs_inv F (event_step F C ev (with_claims {} s))"
    using other(2) by (intro controlled.step_inv) (simp add: sys_inv_def)
  with other show ?case
    by (simp add: sys_inv_def event_step_claims event_step_base claims_owned_def event_step_fetching)
qed

interpretation mixed: labelled_machine "sys_step F C base" "sys_inv F base" for F C base
  by unfold_locales (rule sys_inv_step)

section \<open>Work\<close>

definition read_moves :: "move list \<Rightarrow> nat" where
  "read_moves ms = length (filter (\<lambda>m. m = ReadMove) ms)"

lemma conc_step_length: "conc_step F base c c' \<Longrightarrow> length (fst c') = length (fst c)"
  by (auto elim: conc_step.cases)

lemma sys_step_work:
  assumes "sys_step F C base m c c'"
  shows "work_left c' + (if m = ReadMove then 1 else 0) + 5 * length (fst c) \<le> work_left c + 5 * length (fst c')"
  using assms
proof (induction rule: sys_step.induct)
  case (read_move c c')
  with conc_step_work [OF read_move] conc_step_length [OF read_move] show ?case by simp
qed (auto simp: work_left_def steps_left_def)

lemma sys_run_work:
  "runs (sys_step F C base) ms c c' \<Longrightarrow>
     work_left c' + read_moves ms + 5 * length (fst c) \<le> work_left c + 5 * length (fst c')"
proof (induction rule: runs.induct)
  case (runs_snoc ms c d m e)
  with sys_step_work [OF runs_snoc(2)] show ?case by (auto simp: read_moves_def split: if_splits)
qed (simp add: read_moves_def)

lemma answered_no_claims: "claims_owned c \<Longrightarrow> answered c \<Longrightarrow> f_fetching (snd c) = {}"
  by (fastforce simp: claims_owned_def answered_def list_all_length claiming_def)

text \<open>Reads and all other callbacks.  Remote reads arrive at any time and run in threads of
  their own, interleaved in any way with every other callback (creating, writing, uploading,
  unlinking, listing) and with control commands.  Throughout, the mount stays well formed and
  its cache sound; every answer a read has given is a slice of data with the hash its file had,
  or a partial answer of the server for its range; the reads take at most five steps each; as
  long as one is unanswered some read can go on, whatever the other callbacks did; and when all
  are answered no fetch claim is left.\<close>

theorem interleaved_mount:
  assumes "fs_inv F s0" and "f_cache_base s0 = Some base" and run: "runs (sys_step F C base) ms ([], s0) (ts, s)"
  shows "fs_inv F (with_claims {} s) \<and> list_all (answer_ok F) ts
    \<and> read_moves ms \<le> 5 * length ts
    \<and> (if answered (ts, s) then f_fetching s = {} else \<exists>c. sys_step F C base ReadMove (ts, s) c)"
proof -
  have "f_fetching s0 = {}" using assms(1) by (simp add: fs_inv_def)
  moreover from this have "with_claims {} s0 = s0" by simp
  ultimately have "sys_inv F base ([], s0)"
    using assms(1,2) by (simp only: sys_inv_def claims_owned_def fst_conv snd_conv) simp
  from mixed.runs_keep [OF run this] have i: "sys_inv F base (ts, s)" .
  then have c: "claims_owned (ts, s)" by (simp add: sys_inv_def)
  have "\<exists>c'. sys_step F C base ReadMove (ts, s) c'" if "\<not> answered (ts, s)"
    using conc_step_progress [OF c that, of F base] read_move by blast
  then have "if answered (ts, s) then f_fetching s = {} else \<exists>c. sys_step F C base ReadMove (ts, s) c"
    using answered_no_claims [OF c] by simp
  then show ?thesis
    using i sys_run_work [OF run] by (simp add: sys_inv_def work_left_def)
qed

text \<open>A remote file is being read while a directory is made.\<close>

definition demo_remote :: "request list fs" where
  "demo_remote = demo_mount\<lparr>f_tree := snd (add_remote_file new_tree 1 ''x'' ''http://s/x'' demo_sha 2 None 0 None)\<rparr>"

lemma demo_remote_file: "get (f_tree demo_remote) 2 = Some (File 2 (sanitize_path_component ''x'') 1 2
    (Remote ''http://s/x'' demo_sha None None) 0)"
  by (simp add: demo_remote_def add_remote_file_def Let_def add_node_def next_inode_def new_tree_def get_def
      update_node_def)

lemma demo_remote_inv: "fs_inv demo_fs_env demo_remote" "f_cache_base demo_remote = Some [''c'']"
proof -
  have "tree_wf (snd (add_remote_file new_tree 1 ''x'' ''http://s/x'' demo_sha 2 None 0 None))"
    by (intro inv_intros) (simp_all add: valid_ino_def node_count_def new_tree_def)
  then show "fs_inv demo_fs_env demo_remote"
    unfolding demo_remote_def by (rule fs_inv_tree [OF demo_mount_inv])
  show "f_cache_base demo_remote = Some [''c'']" by (simp add: demo_remote_def demo_mount_def fs_new_rw_def)
qed

theorem interleaved_mount_witness:
  "\<exists>ts s. runs (sys_step demo_fs_env demo_control [''c'']) [Arrive, Other (Callback (Mkdir 1 (Some ''d'')))] ([], demo_remote) (ts, s)
    \<and> ts \<noteq> [] \<and> fs_inv demo_fs_env (with_claims {} s) \<and> (\<exists>c. sys_step demo_fs_env demo_control [''c''] ReadMove (ts, s) c)"
proof -
  let ?th = "\<lparr>rd_ino = 2, rd_url = ''http://s/x'', rd_sha = demo_sha, rd_offset = 0, rd_size = 2, rd_phase = RStart\<rparr>"
  let ?ev = "Callback (Mkdir 1 (Some ''d''))"
  let ?s = "event_step demo_fs_env demo_control ?ev demo_remote"
  let ?step = "sys_step demo_fs_env demo_control [''c'']"
  have 1: "?step Arrive ([], demo_remote) ([?th], demo_remote)"
    using arrive [OF demo_remote_file, of demo_fs_env demo_control "[''c'']" "[]" 0 2] by simp
  have 2: "?step (Other ?ev) ([?th], demo_remote) ([?th], ?s)"
    by (rule other) (simp add: other_event_def)
  have r: "runs ?step [Arrive, Other ?ev] ([], demo_remote) ([?th], ?s)"
    using runs_snoc [of ?step, OF runs_snoc [of ?step, OF runs_nil 1] 2] by simp
  have "\<not> answered ([?th], ?s)" by (simp add: answered_def)
  with interleaved_mount [OF demo_remote_inv r] show ?thesis
    using r by (intro exI [of _ "[?th]"] exI [of _ ?s]) auto
qed

end
