(* ===== verification/Bfs_Uploads.thy ===== *)
theory Bfs_Uploads
  imports Bfs_Concurrent
begin

text \<open>
  Concurrent uploads (\<open>do_upload\<close>, called from \<open>flush\<close> and \<open>release\<close> of \<open>src/fuse/fs.rs\<close>).
  A callback that finds unsent data marks or removes its write buffer under the lock of the write
  state and uploads outside it, so uploads of several handles run at once, next to reads and
  every other callback.  A semaphore bounds how many talk to the server; its number of permits is
  \<open>max_concurrent_uploads\<close>.  An upload is cut at the points where it touches shared
  state: raising the gauge, taking a permit, talking to the server (which takes effect when it
  ends), writing the tree, returning permit and gauge, cleaning up.  The semaphore is taken to
  hand a free permit to any waiting thread; tokio's hands them out in order, which is one of the
  schedules.  It is never closed, so acquiring does not fail.
\<close>

section \<open>Upload threads\<close>

text \<open>The result in \<open>UFree\<close> is none when the upload panicked; \<open>UDone\<close> holds the reply.\<close>

datatype up_phase =
    UBegin | UWait upload_config | UHold upload_config | UStore stored_blob
  | UFree "bool option" | UEnd bool | UDone "reply option"

record uploader =
  ul_release :: bool
  ul_buf :: write_buffer
  ul_phase :: up_phase

text \<open>The part of \<open>flush\<close> and \<open>release\<close> under the lock, when there is something to upload.\<close>

definition unsent :: "write_buffer \<Rightarrow> bool" where
  "unsent buf \<longleftrightarrow> \<not> wb_flushed buf \<and> storage_len (wb_storage buf) > 0"

definition start_upload :: "fs_op \<Rightarrow> 'w fs \<Rightarrow> (uploader \<times> 'w fs) option" where
  "start_upload op s =
     (case op of
        Flush fh \<Rightarrow>
          (case f_buffers s fh of
             None \<Rightarrow> None
           | Some buf \<Rightarrow>
               if unsent buf
               then Some (\<lparr>ul_release = False, ul_buf = buf, ul_phase = UBegin\<rparr>,
                          s\<lparr>f_buffers := (f_buffers s)(fh \<mapsto> buf\<lparr>wb_flushed := True\<rparr>)\<rparr>)
               else None)
      | Release fh \<Rightarrow>
          (case f_buffers s fh of
             None \<Rightarrow> None
           | Some buf \<Rightarrow>
               if unsent buf
               then Some (\<lparr>ul_release = True, ul_buf = buf, ul_phase = UBegin\<rparr>,
                          s\<lparr>f_buffers := (f_buffers s)(fh := None)\<rparr>)
               else None)
      | _ \<Rightarrow> None)"

definition up_view :: "'w fs \<Rightarrow> 'w upload_state" where
  "up_view s = \<lparr>us_world = f_world s, us_files = f_files s, us_metrics = f_metrics s, us_tree = f_tree s\<rparr>"

definition put_up :: "'w upload_state \<Rightarrow> 'w fs \<Rightarrow> 'w fs" where
  "put_up u s = s\<lparr>f_world := us_world u, f_files := us_files u, f_metrics := us_metrics u\<rparr>"

text \<open>One step of a thread, with the number of free permits; \<open>None\<close>: it waits for a permit, or
  is done.\<close>

definition uploader_step ::
  "'w fs_env \<Rightarrow> uploader \<Rightarrow> nat \<Rightarrow> 'w fs \<Rightarrow> (up_phase \<times> nat \<times> 'w fs) option" where
  "uploader_step F th permits s =
     (let buf = ul_buf th in
      case ul_phase th of
        UBegin \<Rightarrow>
          (case upload_cfg s of
             None \<Rightarrow> Some (UEnd False, permits, s\<lparr>f_metrics := guard_drop (guard_new (f_metrics s))\<rparr>)
           | Some C \<Rightarrow> Some (UWait C, permits, s\<lparr>f_metrics := guard_new (f_metrics s)\<rparr>))
      | UWait C \<Rightarrow> if permits = 0 then None else Some (UHold C, permits - 1, s)
      | UHold C \<Rightarrow>
          (case upload_client (fe_upload F) C (upload_data F buf)
                  (env_hash (fe_fetch F) (wb_hashed buf)) (up_view s) of
             None \<Rightarrow> Some (UFree None, permits, s)
           | Some (None, u) \<Rightarrow> Some (UFree (Some False), permits, put_up u s)
           | Some (Some b, u) \<Rightarrow> Some (UStore b, permits, put_up u s))
      | UStore (url, sha256, mime, e, sz, up) \<Rightarrow>
          Some (UFree (Some True), permits,
            s\<lparr>f_tree := snd (update_file_node (f_tree s) (wb_ino buf) (Remote url sha256 mime e) sz up)\<rparr>)
      | UFree r \<Rightarrow>
          Some (case r of None \<Rightarrow> UDone None | Some ok \<Rightarrow> UEnd ok, permits + 1,
            s\<lparr>f_metrics := guard_drop (f_metrics s)\<rparr>)
      | UEnd ok \<Rightarrow>
          Some (UDone (Some (if ok \<or> ul_release th then RpOk else RpError EIO)), permits,
            if ul_release th \<and> \<not> ok then cleanup_failed_write buf s else s)
      | UDone _ \<Rightarrow> None)"

section \<open>One thread alone is the sequential callback\<close>

fun uploader_run ::
  "nat \<Rightarrow> 'w fs_env \<Rightarrow> uploader \<Rightarrow> nat \<Rightarrow> 'w fs \<Rightarrow> (reply option \<times> nat \<times> 'w fs) option" where
  "uploader_run 0 F th k s = None"
| "uploader_run (Suc n) F th k s =
     (case uploader_step F th k s of
        None \<Rightarrow> None
      | Some (UDone r, k', s') \<Rightarrow> Some (r, k', s')
      | Some (ph, k', s') \<Rightarrow> uploader_run n F (th\<lparr>ul_phase := ph\<rparr>) k' s')"

lemma guard_cancel [simp]: "guard_drop (guard_new m) = m"
  by (simp add: guard_new_def guard_drop_def)

lemma fs_upload_cfg_none: "upload_cfg s = None \<Longrightarrow> fs_upload F ino data hashed s = Some (False, s)"
  by (simp add: fs_upload_def do_upload_def do_upload_inner_def)

lemma up_view_guard: "up_view (s\<lparr>f_metrics := guard_new (f_metrics s)\<rparr>) = (up_view s)\<lparr>us_metrics := guard_new (f_metrics s)\<rparr>"
  by (simp add: up_view_def)

text \<open>\<open>fs_upload\<close> by its three outcomes at the server.\<close>

lemma fs_upload_cfg:
  assumes "upload_cfg s = Some C"
  shows "fs_upload F ino data hashed s =
     (case upload_client (fe_upload F) C data (env_hash (fe_fetch F) hashed)
             (up_view (s\<lparr>f_metrics := guard_new (f_metrics s)\<rparr>)) of
        None \<Rightarrow> None
      | Some (None, u) \<Rightarrow> Some (False, (put_up u s)\<lparr>f_metrics := guard_drop (us_metrics u)\<rparr>)
      | Some (Some (url, sha256, mime, e, sz, up), u) \<Rightarrow>
          Some (True, (put_up u s)\<lparr>f_metrics := guard_drop (us_metrics u),
            f_tree := snd (update_file_node (f_tree s) ino (Remote url sha256 mime e) sz up)\<rparr>))"
  using assms upload_client_frame [of "fe_upload F" C data "env_hash (fe_fetch F) hashed"
      "(up_view s)\<lparr>us_metrics := guard_new (f_metrics s)\<rparr>"]
  by (auto simp: fs_upload_def do_upload_def do_upload_inner_def up_view_def put_up_def set_remote_def
      split: option.split prod.split)

text \<open>A thread from its first step on.\<close>

lemma uploader_run_upload:
  assumes "ul_phase th = UBegin" and k: "0 < k"
  shows "uploader_run 6 F th k s = Some
     (case fs_upload F (wb_ino (ul_buf th)) (upload_data F (ul_buf th)) (wb_hashed (ul_buf th)) s of
        None \<Rightarrow> (None, k, s)
      | Some (ok, s') \<Rightarrow> (Some (if ok \<or> ul_release th then RpOk else RpError EIO), k,
          if ul_release th \<and> \<not> ok then cleanup_failed_write (ul_buf th) s' else s'))"
proof (cases "upload_cfg s")
  case None
  then show ?thesis
    using assms by (simp add: eval_nat_numeral uploader_step_def fs_upload_cfg_none Let_def)
next
  case (Some C)
  let ?c = "upload_client (fe_upload F) C (upload_data F (ul_buf th))
      (env_hash (fe_fetch F) (wb_hashed (ul_buf th))) (up_view (s\<lparr>f_metrics := guard_new (f_metrics s)\<rparr>))"
  show ?thesis
  proof (cases ?c)
    case None
    then show ?thesis
      using assms Some by (simp add: eval_nat_numeral uploader_step_def fs_upload_cfg Let_def)
  next
    case c: (Some ru)
    obtain r u where ru: "ru = (r, u)" by (rule prod.exhaust)
    show ?thesis
    proof (cases r)
      case None
      then show ?thesis
        using assms Some c ru
        by (simp add: eval_nat_numeral uploader_step_def fs_upload_cfg Let_def put_up_def)
    next
      case b: (Some b)
      obtain url sha mime e sz up where "b = (url, sha, mime, e, sz, up)" by (metis prod_cases6)
      then show ?thesis
        using assms Some c ru b
        by (simp add: eval_nat_numeral uploader_step_def fs_upload_cfg Let_def put_up_def)
    qed
  qed
qed


section \<open>The system\<close>

text \<open>The upload threads, the free permits, and the rest of the mount: readers, other callbacks,
  control commands.  Callbacks that would upload only enter as threads.\<close>

type_synonym 'w system = "(uploader list \<times> nat) \<times> (reader list \<times> 'w fs)"

datatype up_move = Submit fs_op | Advance nat | Base move

definition quiet :: "move \<Rightarrow> 'w fs \<Rightarrow> bool" where
  "quiet m s = (case m of Other (Callback op) \<Rightarrow> start_upload op s = None | _ \<Rightarrow> True)"

inductive up_step ::
  "'w fs_env \<Rightarrow> control_env \<Rightarrow> fs_path \<Rightarrow> up_move \<Rightarrow> 'w system \<Rightarrow> 'w system \<Rightarrow> bool" for F C base where
  submit: "start_upload op s = Some (th, s') \<Longrightarrow>
    up_step F C base (Submit op) ((us, k), (ts, s)) ((us @ [th], k), (ts, s'))"
| advance: "i < length us \<Longrightarrow> uploader_step F (us ! i) k s = Some (ph, k', s') \<Longrightarrow>
    up_step F C base (Advance i) ((us, k), (ts, s)) ((us[i := (us ! i)\<lparr>ul_phase := ph\<rparr>], k'), (ts, s'))"
| base_move: "sys_step F C base m c c' \<Longrightarrow> quiet m (snd c) \<Longrightarrow>
    up_step F C base (Base m) (u, c) (u, c')"

section \<open>Permits and the gauge\<close>

definition holds :: "up_phase \<Rightarrow> bool" where
  "holds ph = (case ph of UHold _ \<Rightarrow> True | UStore _ \<Rightarrow> True | UFree _ \<Rightarrow> True | _ \<Rightarrow> False)"

definition active :: "up_phase \<Rightarrow> bool" where
  "active ph = (case ph of UWait _ \<Rightarrow> True | _ \<Rightarrow> holds ph)"

text \<open>How many threads are in a phase of a kind.\<close>

definition in_phase :: "(up_phase \<Rightarrow> bool) \<Rightarrow> uploader list \<Rightarrow> nat" where
  "in_phase P us = length (filter (\<lambda>th. P (ul_phase th)) us)"

lemma in_phase_snoc: "in_phase P (us @ [th]) = in_phase P us + of_bool (P (ul_phase th))"
  by (simp add: in_phase_def)

lemma in_phase_update:
  "i < length us \<Longrightarrow>
     in_phase P (us[i := th]) + of_bool (P (ul_phase (us ! i))) = in_phase P us + of_bool (P (ul_phase th))"
proof (induction us arbitrary: i)
  case (Cons u us)
  then show ?case
    by (cases i) (use Cons.IH [of "i - 1"] in \<open>auto simp: in_phase_def\<close>)
qed simp

text \<open>Each step takes and gives permits, and raises and lowers the gauge, as its phases say.\<close>

lemma uploader_step_permits:
  assumes "uploader_step F th k s = Some (ph, k', s')"
  shows "k' + of_bool (holds ph) = k + of_bool (holds (ul_phase th))"
  using assms
  by (cases "ul_phase th")
    (auto simp: uploader_step_def holds_def Let_def split: option.splits if_splits prod.splits)

lemma uploader_step_gauge:
  assumes "uploader_step F th k s = Some (ph, k', s')"
  shows "active_uploads (f_metrics s') + of_bool (active (ul_phase th))
    = active_uploads (f_metrics s) + of_bool (active ph)"
  using assms
  by (cases "ul_phase th")
    (auto simp: uploader_step_def active_def holds_def Let_def guard_new_def guard_drop_def put_up_def up_view_def
      cleanup_failed_write_def dest!: upload_client_frame split: option.splits if_splits prod.splits)

section \<open>What the other steps keep\<close>

text \<open>No read touches the gauge.\<close>

lemma gauge_counters [simp]:
  "active_uploads (inc_hits m) = active_uploads m"
  "active_uploads (inc_misses m) = active_uploads m"
  "active_uploads (count_download n m) = active_uploads m"
  "active_uploads (cache_gauges b f m) = active_uploads m"
  "active_uploads (record_error c m) = active_uploads m"
  "active_uploads (count_error r m) = active_uploads m"
  by (simp_all add: metrics_defs count_error_def split: sum.split fetch_error.split)

lemma gauge_verify_and_cache:
  "verify_and_cache E bytes expected base (d, m) = (r, d', m') \<Longrightarrow> active_uploads m' = active_uploads m"
  by (drule verify_and_cache_cases) auto

lemma gauge_fetch_and_cache:
  "fetch_and_cache E url expected base h = (r, h') \<Longrightarrow> active_uploads (hs_metrics h') = active_uploads (hs_metrics h)"
  by (auto simp: fetch_and_cache_def fetch_and_cache_inner_def finish_fetch_def Let_def
      dest!: gauge_verify_and_cache split: if_splits prod.splits sum.splits option.splits)

lemma gauge_fetch_range:
  "fetch_range E url start e h = (r, h') \<Longrightarrow> active_uploads (hs_metrics h') = active_uploads (hs_metrics h)"
  by (auto simp: fetch_range_def fetch_range_inner_def Let_def
      split: if_splits prod.splits sum.splits option.splits)

lemma gauge_evict_oldest:
  "evict_oldest io walk base n keep (d, m) = (d', m') \<Longrightarrow> active_uploads m' = active_uploads m"
  by (auto simp: evict_oldest_def Let_def split: if_splits)

lemma gauge_full_fetch:
  "full_fetch F url sha base s = (r, s') \<Longrightarrow> active_uploads (f_metrics s') = active_uploads (f_metrics s)"
  by (auto simp: full_fetch_def Let_def put_host_def host_of_def
      dest!: gauge_fetch_and_cache split: prod.splits sum.splits)

lemma gauge_finish_read:
  "finish_read F ino sha base off sz d s = (r, s') \<Longrightarrow> active_uploads (f_metrics s') = active_uploads (f_metrics s)"
  by (auto simp: finish_read_def Let_def unclaim_def
      dest!: gauge_evict_oldest split: prod.splits option.splits if_splits)

lemma gauge_fetch_remote:
  "fetch_remote F ino url sha base off sz s = (r, s') \<Longrightarrow> active_uploads (f_metrics s') = active_uploads (f_metrics s)"
  by (auto simp: fetch_remote_def Let_def put_host_def host_of_def unclaim_def
      dest!: gauge_fetch_range gauge_full_fetch gauge_finish_read gauge_verify_and_cache
      split: prod.splits sum.splits option.splits)

lemma gauge_reader_step:
  "reader_step F base th s = Some (ph, s') \<Longrightarrow> active_uploads (f_metrics s') = active_uploads (f_metrics s)"
  by (cases "rd_phase th")
    (auto simp: reader_step_def unclaim_def dest!: gauge_fetch_remote
      split: if_splits option.splits sum.splits prod.splits)

lemma metrics_delete_remote [simp]: "f_metrics (delete_remote F sha s) = f_metrics s"
  by (auto simp: delete_remote_defs Let_def split: option.split sum.split)

lemma metrics_populate [simp]: "f_metrics (populate_if_lazy F ino s) = f_metrics s"
  by (auto simp: populate_if_lazy_def split: prod.split option.split lazy_dir.split sum.split)

text \<open>A callback that is no read and uploads nothing touches no counter.\<close>

lemma fs_step_metrics:
  assumes "other_event (Callback op)" and "start_upload op s = None" and "fs_step F op s = Some (r, s')"
  shows "f_metrics s' = f_metrics s"
  using assms
  by (cases op)
    (auto simp: other_event_def start_upload_def unsent_def fs_step_def op_lookup_def op_readdir_def op_getattr_def
      op_statfs_def op_refused_def op_rename_def op_link_def op_fsync_def op_getxattr_def op_listxattr_def
      op_setattr_def op_mkdir_def op_unlink_def op_rmdir_def op_write_def op_create_def op_open_def op_flush_def
      op_release_def Let_def case_prod_beta
      split: option.splits sum.splits prod.splits tree_node.splits file_content.splits bool.splits if_splits)

lemma gauge_event_step:
  assumes "other_event ev" and "quiet (Other ev) s"
  shows "active_uploads (f_metrics (event_step F C ev s)) = active_uploads (f_metrics s)"
proof (cases ev)
  case (Callback op)
  then show ?thesis
    using assms fs_step_metrics [of op s F]
    by (auto simp: quiet_def event_step_def fs_exec_def split: option.split)
next
  case (Command line)
  then show ?thesis by (simp add: event_step_def handle_command_frame)
qed

lemma gauge_sys_step:
  assumes "sys_step F C base m c c'" and "quiet m (snd c)"
  shows "active_uploads (f_metrics (snd c')) = active_uploads (f_metrics (snd c))"
  using assms
  by (induction rule: sys_step.induct)
    (auto simp: gauge_event_step elim!: conc_step.cases dest: gauge_reader_step)

section \<open>The invariant\<close>

lemma uploader_step_frame:
  assumes "uploader_step F th k s = Some (ph, k', s')"
  shows "\<exists>w fls m t. s' = s\<lparr>f_world := w, f_files := fls, f_metrics := m, f_tree := t\<rparr>
    \<and> (tree_wf (f_tree s) \<longrightarrow> tree_wf t)"
proof -
  have "s' = s\<lparr>f_world := f_world s', f_files := f_files s', f_metrics := f_metrics s', f_tree := f_tree s'\<rparr>
    \<and> (tree_wf (f_tree s) \<longrightarrow> tree_wf (f_tree s'))"
    using assms
    by (cases "ul_phase th"; cases s)
      (auto simp: uploader_step_def put_up_def cleanup_failed_write_def Let_def
        intro: tree_wf_update_file_node tree_wf_remove_file
        split: option.splits if_splits prod.splits)
  then show ?thesis by blast
qed

lemma start_upload_frame:
  assumes "start_upload op s = Some (th, s')"
  shows "\<exists>fh b. f_buffers s fh = Some b \<and> unsent b \<and> uploads_handle op s = Some fh \<and> ul_phase th = UBegin
    \<and> (s' = s\<lparr>f_buffers := (f_buffers s)(fh \<mapsto> b\<lparr>wb_flushed := True\<rparr>)\<rparr>
      \<or> s' = s\<lparr>f_buffers := (f_buffers s)(fh := None)\<rparr>)"
  using assms
  by (auto simp: start_upload_def uploads_handle_def unsent_def pending_def
      split: fs_op.splits option.splits if_splits)

lemma sys_inv_frame:
  "sys_inv F base (ts, s) \<Longrightarrow> f_cache_base s' = f_cache_base s \<Longrightarrow> f_fetching s' = f_fetching s
    \<Longrightarrow> fs_inv F (with_claims {} s') \<Longrightarrow> sys_inv F base (ts, s')"
  by (simp add: sys_inv_def claims_owned_def)

lemma sys_inv_uploader:
  assumes i: "sys_inv F base (ts, s)" and st: "uploader_step F th k s = Some (ph, k', s')"
  shows "sys_inv F base (ts, s')"
proof -
  obtain w fls m t where s': "s' = s\<lparr>f_world := w, f_files := fls, f_metrics := m, f_tree := t\<rparr>"
    and t: "tree_wf (f_tree s) \<longrightarrow> tree_wf t"
    using uploader_step_frame [OF st] by blast
  have "fs_inv F (with_claims {} s')"
    using i t by (auto simp: s' sys_inv_def fs_inv_def cache_ok_def)
  then show ?thesis using i by (intro sys_inv_frame [OF i]) (simp_all add: s')
qed

lemma sys_inv_submit:
  assumes i: "sys_inv F base (ts, s)" and st: "start_upload op s = Some (th, s')"
  shows "sys_inv F base (ts, s')"
proof -
  have "fs_inv F (with_claims {} s')" "f_cache_base s' = f_cache_base s" "f_fetching s' = f_fetching s"
    using i start_upload_frame [OF st]
    by (auto simp: sys_inv_def fs_inv_def cache_ok_def split: if_splits)
  then show ?thesis by (intro sys_inv_frame [OF i])
qed

definition up_inv :: "'w fs_env \<Rightarrow> fs_path \<Rightarrow> nat \<Rightarrow> int \<Rightarrow> 'w system \<Rightarrow> bool" where
  "up_inv F base cap g c = (case c of ((us, k), (ts, s)) \<Rightarrow>
     sys_inv F base (ts, s) \<and> k + in_phase holds us = cap
     \<and> active_uploads (f_metrics s) = g + int (in_phase active us))"

lemma up_inv_step:
  assumes "up_step F C base m c c'" and "up_inv F base cap g c"
  shows "up_inv F base cap g c'"
  using assms
proof (induction rule: up_step.induct)
  case (submit op s th s' us k ts)
  have "\<not> holds (ul_phase th) \<and> \<not> active (ul_phase th) \<and> f_metrics s' = f_metrics s"
    using start_upload_frame [OF submit(1)] by (auto simp: holds_def active_def)
  with submit sys_inv_submit show ?case by (fastforce simp: up_inv_def in_phase_snoc)
next
  case (advance i us k s ph k' s' ts)
  let ?th = "(us ! i)\<lparr>ul_phase := ph\<rparr>"
  have "k' + in_phase holds (us[i := ?th]) = cap"
    using in_phase_update [OF advance(1), of holds ?th] uploader_step_permits [OF advance(2)] advance(3)
    by (simp add: up_inv_def)
  moreover have "active_uploads (f_metrics s') = g + int (in_phase active (us[i := ?th]))"
    using in_phase_update [OF advance(1), of active ?th] uploader_step_gauge [OF advance(2)] advance(3)
    by (cases "active ph"; cases "active (ul_phase (us ! i))") (simp_all add: up_inv_def)
  ultimately show ?case
    using advance sys_inv_uploader [OF _ advance(2)] by (simp add: up_inv_def)
next
  case (base_move m c c' u)
  then show ?case
    using sys_inv_step [OF base_move(1)] gauge_sys_step [OF base_move(1,2)]
    by (auto simp: up_inv_def split: prod.splits)
qed

interpretation uploading: labelled_machine "up_step F C base" "up_inv F base cap g" for F C base cap g
  by unfold_locales (rule up_inv_step)

section \<open>No handle twice\<close>

definition submitted :: "up_move list \<Rightarrow> nat list" where
  "submitted ms = List.map_filter (\<lambda>m. case m of Submit (Flush fh) \<Rightarrow> Some fh
     | Submit (Release fh) \<Rightarrow> Some fh | _ \<Rightarrow> None) ms"

lemma handle_done_claims [simp]: "handle_done (with_claims X s) fh = handle_done s fh"
  by (simp add: handle_done_def)

lemma event_step_done:
  assumes i: "fs_inv F (with_claims {} s)" and o: "other_event ev" and d: "handle_done s fh"
  shows "handle_done (event_step F C ev s) fh"
proof -
  have "handle_done (event_step F C ev (with_claims {} s)) fh"
  proof (cases ev)
    case (Callback op)
    then show ?thesis
      using step_done [OF i] d by (auto simp: event_step_def fs_exec_def split: option.split)
  next
    case (Command line)
    then show ?thesis using d by (simp add: event_step_def handle_command_frame handle_done_def)
  qed
  then show ?thesis by (simp add: event_step_claims [OF o])
qed

lemma sys_step_done:
  assumes "sys_step F C base m c c'" and "sys_inv F base c" and "handle_done (snd c) fh"
  shows "handle_done (snd c') fh"
  using assms
proof (induction rule: sys_step.induct)
  case (read_move c c')
  from read_move(1) show ?case
  proof (cases rule: conc_step.cases)
    case (one i ts s ph s')
    have "cache_sound (fe_fetch F) base (f_disk s)"
      using read_move(2) one(1) by (simp add: sys_inv_def fs_inv_def cache_ok_def)
    from reader_step_stage [OF this one(4)] show ?thesis
      using read_move(3) one(1,2) by (simp add: read_frame_def handle_done_def)
  qed
qed (auto simp: sys_inv_def event_step_done)

lemma up_step_done:
  assumes "up_step F C base m c c'" and "up_inv F base cap g c" and "handle_done (snd (snd c)) fh"
  shows "handle_done (snd (snd c')) fh"
  using assms
proof (induction rule: up_step.induct)
  case (submit op s th s' us k ts)
  then show ?case using start_upload_frame [OF submit(1)] by (auto simp: handle_done_def split: if_splits)
next
  case (advance i us k s ph k' s' ts)
  then show ?case using uploader_step_frame [OF advance(2)] by (auto simp: handle_done_def)
next
  case (base_move m c c' u)
  then show ?case using sys_step_done [OF base_move(1)] by (simp add: up_inv_def split: prod.splits)
qed

lemma up_step_submitted:
  assumes "up_step F C base m c c'" and "up_inv F base cap g c" and "fh \<in> set (submitted [m])"
  shows "\<not> handle_done (snd (snd c)) fh \<and> handle_done (snd (snd c')) fh"
  using assms
proof (induction rule: up_step.induct)
  case (submit op s th s' us k ts)
  obtain h b where h: "f_buffers s h = Some b" "unsent b" "uploads_handle op s = Some h"
    and s': "s' = s\<lparr>f_buffers := (f_buffers s)(h \<mapsto> b\<lparr>wb_flushed := True\<rparr>)\<rparr>
      \<or> s' = s\<lparr>f_buffers := (f_buffers s)(h := None)\<rparr>"
    using start_upload_frame [OF submit(1)] by blast
  have "fh = h"
    using submit(3) h(3) by (auto simp: submitted_def uploads_handle_def List.map_filter_simps
        split: fs_op.splits option.splits if_splits)
  moreover have "h < f_next_fh s" using submit(2) h(1) by (auto simp: up_inv_def sys_inv_def fs_inv_def)
  ultimately show ?case using h s' by (auto simp: handle_done_def unsent_def)
qed (simp_all add: submitted_def List.map_filter_simps)

lemma submitted_snoc: "submitted (ms @ [m]) = submitted ms @ submitted [m]"
  by (simp add: submitted_def List.map_filter_def)

lemma submitted_one: "distinct (submitted [m])"
  by (auto simp: submitted_def List.map_filter_simps split: up_move.split fs_op.split option.split)

lemma run_submitted:
  assumes "runs (up_step F C base) ms c d" and "up_inv F base cap g c"
  shows "distinct (submitted ms) \<and> (\<forall>fh \<in> set (submitted ms). handle_done (snd (snd d)) fh)"
  using assms
proof (induction rule: runs.induct)
  case (runs_snoc ms c d m e)
  have i: "up_inv F base cap g d" using uploading.runs_keep runs_snoc by blast
  have "\<forall>fh \<in> set (submitted [m]). \<not> handle_done (snd (snd d)) fh \<and> handle_done (snd (snd e)) fh"
    using up_step_submitted [OF runs_snoc(2) i] by blast
  moreover have "\<forall>fh \<in> set (submitted ms). handle_done (snd (snd d)) fh \<and> handle_done (snd (snd e)) fh"
    using runs_snoc up_step_done [OF runs_snoc(2) i] by blast
  ultimately show ?case using runs_snoc by (auto simp: submitted_snoc submitted_one)
qed (simp add: submitted_def List.map_filter_simps)

section \<open>Work and progress\<close>

definition thread_move :: "up_move \<Rightarrow> bool" where
  "thread_move m = (case m of Submit _ \<Rightarrow> False | Advance _ \<Rightarrow> True | Base b \<Rightarrow> b = ReadMove)"

definition up_left :: "uploader \<Rightarrow> nat" where
  "up_left th = (case ul_phase th of UBegin \<Rightarrow> 6 | UWait _ \<Rightarrow> 5 | UHold _ \<Rightarrow> 4 | UStore _ \<Rightarrow> 3
     | UFree _ \<Rightarrow> 2 | UEnd _ \<Rightarrow> 1 | UDone _ \<Rightarrow> 0)"

text \<open>Steps the threads still have, against those all of them ever had.\<close>

definition todo :: "'w system \<Rightarrow> nat" where
  "todo c = sum_list (map up_left (fst (fst c))) + work_left (snd c)"

definition budget :: "'w system \<Rightarrow> nat" where
  "budget c = 6 * length (fst (fst c)) + 5 * length (fst (snd c))"

lemma uploader_step_left:
  "uploader_step F th k s = Some (ph, k', s') \<Longrightarrow> up_left (th\<lparr>ul_phase := ph\<rparr>) < up_left th"
  by (cases "ul_phase th")
    (auto simp: uploader_step_def up_left_def Let_def split: option.splits if_splits prod.splits)

lemma up_step_todo:
  assumes "up_step F C base m c c'"
  shows "todo c' + of_bool (thread_move m) + budget c \<le> todo c + budget c'"
  using assms
proof (induction rule: up_step.induct)
  case (submit op s th s' us k ts)
  then show ?case
    using start_upload_frame [OF submit] by (auto simp: todo_def budget_def thread_move_def up_left_def work_left_def)
next
  case (advance i us k s ph k' s' ts)
  let ?th = "(us ! i)\<lparr>ul_phase := ph\<rparr>"
  have "map up_left (us[i := ?th]) = (map up_left us)[i := up_left ?th]" by (simp add: map_update)
  moreover have "up_left (us ! i) \<le> sum_list (map up_left us)"
    using advance(1) by (intro member_le_sum_list) auto
  ultimately have "sum_list (map up_left (us[i := ?th])) < sum_list (map up_left us)"
    using advance(1) uploader_step_left [OF advance(2)] by (simp add: sum_list_update)
  then show ?case by (simp add: todo_def budget_def thread_move_def work_left_def)
next
  case (base_move m c c' u)
  then show ?case
    using sys_step_work [OF base_move(1)] by (auto simp: todo_def budget_def thread_move_def)
qed

lemma up_run_todo:
  "runs (up_step F C base) ms c d \<Longrightarrow>
     todo d + length (filter thread_move ms) + budget c \<le> todo c + budget d"
proof (induction rule: runs.induct)
  case (runs_snoc ms c d m e)
  with up_step_todo [OF runs_snoc(2)] show ?case by auto
qed simp

definition idle :: "'w system \<Rightarrow> bool" where
  "idle c \<longleftrightarrow> list_all (\<lambda>th. \<exists>r. ul_phase th = UDone r) (fst (fst c)) \<and> answered (snd c)"

lemma in_phase_0: "in_phase P us = 0 \<longleftrightarrow> list_all (\<lambda>th. \<not> P (ul_phase th)) us"
  by (simp add: in_phase_def filter_empty_conv list_all_iff)

text \<open>Only a thread that waits for a permit while there is none cannot go on.\<close>

lemma uploader_step_none:
  "uploader_step F th k s = None \<longleftrightarrow> (\<exists>r. ul_phase th = UDone r) \<or> (k = 0 \<and> (\<exists>C. ul_phase th = UWait C))"
  by (cases "ul_phase th") (auto simp: uploader_step_def Let_def split: option.splits prod.splits)

lemma up_step_progress:
  assumes i: "up_inv F base cap g ((us, k), (ts, s))" and cap: "0 < cap" and n: "\<not> idle ((us, k), (ts, s))"
  shows "\<exists>m c. thread_move m \<and> up_step F C base m ((us, k), (ts, s)) c"
proof (cases "\<exists>j < length us. uploader_step F (us ! j) k s \<noteq> None")
  case True
  then obtain j ph k' s' where "j < length us" "uploader_step F (us ! j) k s = Some (ph, k', s')" by auto
  from advance [OF this, of C base ts] show ?thesis
    by (intro exI [of _ "Advance j"] exI [of _ "((us[j := (us ! j)\<lparr>ul_phase := ph\<rparr>], k'), (ts, s'))"])
      (simp add: thread_move_def)
next
  case False
  then have blocked: "(\<exists>r. ul_phase th = UDone r) \<or> (k = 0 \<and> (\<exists>C. ul_phase th = UWait C))"
    if "th \<in> set us" for th
    using that False uploader_step_none [of F th k s] by (metis in_set_conv_nth)
  then have "in_phase holds us = 0" by (fastforce simp: in_phase_0 list_all_iff holds_def)
  then have "k \<noteq> 0" using i cap by (simp add: up_inv_def)
  then have "list_all (\<lambda>th. \<exists>r. ul_phase th = UDone r) us" using blocked by (auto simp: list_all_iff)
  then have "\<not> answered (ts, s)" using n by (simp add: idle_def)
  moreover have "claims_owned (ts, s)" using i by (simp add: up_inv_def sys_inv_def)
  ultimately obtain c' where "conc_step F base (ts, s) c'" using conc_step_progress by blast
  then have "sys_step F C base ReadMove (ts, s) c'" by (rule read_move)
  from base_move [OF this, of "(us, k)"] show ?thesis
    by (intro exI [of _ "Base ReadMove"] exI [of _ "((us, k), c')"]) (simp add: thread_move_def quiet_def)
qed

lemma up_inv_start:
  assumes "fs_inv F s0" and "f_cache_base s0 = Some base"
  shows "up_inv F base cap (active_uploads (f_metrics s0)) (([], cap), ([], s0))"
proof -
  have "f_fetching s0 = {}" using assms(1) by (simp add: fs_inv_def)
  moreover from this have "with_claims {} s0 = s0" by simp
  ultimately have "sys_inv F base ([], s0)"
    using assms by (simp only: sys_inv_def claims_owned_def fst_conv snd_conv) simp
  then show ?thesis by (simp add: up_inv_def in_phase_def)
qed

lemma idle_restores:
  assumes "up_inv F base cap g ((us, k), (ts, s))" and "idle ((us, k), (ts, s))"
  shows "k = cap \<and> active_uploads (f_metrics s) = g \<and> f_fetching s = {}"
proof -
  have "in_phase holds us = 0 \<and> in_phase active us = 0 \<and> f_fetching s = {}"
    using assms answered_no_claims [of "(ts, s)"]
    by (fastforce simp: idle_def in_phase_0 list_all_iff holds_def active_def up_inv_def sys_inv_def)
  then show ?thesis using assms(1) by (simp add: up_inv_def)
qed

text \<open>The system with uploads and reads cut, every other callback one step.  Uploads and remote reads run in threads of their own,
  arriving at any time and interleaved in any way with each other, with every other callback
  (creating, writing, unlinking, listing) and with control commands.  Throughout, the mount stays
  well formed and its cache sound; every answer a read has given is a slice of data with the hash
  its file had, or a partial answer of the server for its range; at most as many uploads as the
  semaphore has permits talk to the server at once, and the gauge counts the uploads in flight;
  no handle is uploaded twice; uploads take at most six steps each and reads five; as long as one
  of them is unfinished some thread can go on; and when all are done every permit is back, the
  gauge is where it was and no fetch claim is left.\<close>

theorem interleaved_uploads:
  assumes "fs_inv F s0" and "f_cache_base s0 = Some base" and cap: "0 < cap"
    and run: "runs (up_step F C base) ms (([], cap), ([], s0)) ((us, k), (ts, s))"
  shows "fs_inv F (with_claims {} s) \<and> list_all (answer_ok F) ts
    \<and> in_phase holds us \<le> cap
    \<and> active_uploads (f_metrics s) = active_uploads (f_metrics s0) + int (in_phase active us)
    \<and> distinct (submitted ms)
    \<and> length (filter thread_move ms) \<le> 6 * length us + 5 * length ts
    \<and> (if idle ((us, k), (ts, s))
       then k = cap \<and> active_uploads (f_metrics s) = active_uploads (f_metrics s0) \<and> f_fetching s = {}
       else \<exists>m c. thread_move m \<and> up_step F C base m ((us, k), (ts, s)) c)"
proof -
  let ?g = "active_uploads (f_metrics s0)" and ?c = "((us, k), (ts, s))"
  note 0 = up_inv_start [OF assms(1,2), of cap]
  from uploading.runs_keep [OF run 0] have i: "up_inv F base cap ?g ?c" .
  show ?thesis
    using i idle_restores [OF i] up_step_progress [OF i cap, of C] run_submitted [OF run 0] up_run_todo [OF run]
    by (auto simp: up_inv_def sys_inv_def todo_def budget_def work_left_def)
qed

text \<open>A mount with one open file that has unsent data.\<close>

definition demo_buffer :: write_buffer where
  "demo_buffer = \<lparr>wb_ino = 2, wb_parent = 1, wb_name = ''f'', wb_storage = Memory ''ab'', wb_hashed = ''ab'',
     wb_flushed = False, wb_append = False\<rparr>"

definition demo_unsent :: "request list fs" where
  "demo_unsent = demo_mount\<lparr>f_buffers := [1 \<mapsto> demo_buffer], f_next_fh := 2\<rparr>"

lemma demo_unsent_inv: "fs_inv demo_fs_env demo_unsent" "f_cache_base demo_unsent = Some [''c'']"
proof -
  have "\<not> f_read_only demo_mount" "f_cache_base demo_mount = Some [''c'']"
    by (simp_all add: demo_mount_def fs_new_rw_def fs_new_def)
  then show "fs_inv demo_fs_env demo_unsent" "f_cache_base demo_unsent = Some [''c'']"
    using demo_mount_inv by (auto simp: demo_unsent_def fs_inv_def cache_ok_def)
qed

lemma demo_unsent_start:
  "start_upload (Flush 1) demo_unsent = Some (\<lparr>ul_release = False, ul_buf = demo_buffer, ul_phase = UBegin\<rparr>,
     demo_unsent\<lparr>f_buffers := [1 \<mapsto> demo_buffer\<lparr>wb_flushed := True\<rparr>]\<rparr>)"
  by (simp add: start_upload_def demo_unsent_def unsent_def demo_buffer_def storage_len_def)


theorem interleaved_uploads_witness:
  "\<exists>us k ts s. runs (up_step demo_fs_env demo_control [''c'']) [Submit (Flush 1)]
      (([], 1), ([], demo_unsent)) ((us, k), (ts, s))
    \<and> \<not> idle ((us, k), (ts, s)) \<and> in_phase holds us \<le> 1
    \<and> (\<exists>m c. thread_move m \<and> up_step demo_fs_env demo_control [''c''] m ((us, k), (ts, s)) c)"
proof -
  let ?th = "\<lparr>ul_release = False, ul_buf = demo_buffer, ul_phase = UBegin\<rparr>"
  let ?s = "demo_unsent\<lparr>f_buffers := [1 \<mapsto> demo_buffer\<lparr>wb_flushed := True\<rparr>]\<rparr>"
  let ?step = "up_step demo_fs_env demo_control [''c'']"
  have "?step (Submit (Flush 1)) (([], 1), ([], demo_unsent)) (([?th], 1), ([], ?s))"
    using submit [OF demo_unsent_start, of demo_fs_env demo_control "[''c'']" "[]" 1 "[]"] by simp
  from runs_snoc [of ?step, OF runs_nil this]
  have r: "runs ?step [Submit (Flush 1)] (([], 1), ([], demo_unsent)) (([?th], 1), ([], ?s))" by simp
  have "\<not> idle (([?th], 1), ([], ?s))" by (simp add: idle_def)
  with interleaved_uploads [OF demo_unsent_inv zero_less_one r] show ?thesis
    using r by (intro exI [of _ "[?th]"] exI [of _ 1] exI [of _ "[]"] exI [of _ ?s]) simp
qed

section \<open>Two defects\<close>

text \<open>\<open>--max-concurrent-uploads 0\<close> passes validation.  Without permits a thread that has come to
  wait for one stays there, whatever the rest of the mount does: its flush never returns.\<close>

lemma no_permits_no_upload:
  assumes "runs (up_step F C base) ms c d" and "snd (fst c) = 0" and "in_phase holds (fst (fst c)) = 0"
    and "i < length (fst (fst c))" and "ul_phase (fst (fst c) ! i) = UWait C'"
  shows "snd (fst d) = 0 \<and> in_phase holds (fst (fst d)) = 0
    \<and> i < length (fst (fst d)) \<and> ul_phase (fst (fst d) ! i) = UWait C'"
  using assms
proof (induction rule: runs.induct)
  case (runs_snoc ms c d m e)
  then have IH: "snd (fst d) = 0" "in_phase holds (fst (fst d)) = 0" "i < length (fst (fst d))"
    "ul_phase (fst (fst d) ! i) = UWait C'" by simp_all
  from runs_snoc(2) IH show ?case
  proof (induction rule: up_step.induct)
    case (submit op s th s' us k ts)
    then show ?case using start_upload_frame [OF submit(1)] by (auto simp: in_phase_snoc holds_def nth_append)
  next
    case (advance j us k s ph k' s' ts)
    have "\<not> holds (ul_phase (us ! j))" using advance by (auto simp: in_phase_0 list_all_length)
    moreover have "j \<noteq> i" using advance by (auto simp: uploader_step_def)
    ultimately show ?case
      using advance uploader_step_permits [OF advance(2)] in_phase_update [OF advance(1), of holds "(us ! j)\<lparr>ul_phase := ph\<rparr>"]
      by simp
  qed simp
qed simp

text \<open>Cleaning up after a failed upload removes whatever file now has the name.  A file was
  created and written through handle 1 and unlinked while open, and a second one was created under
  its name.  The release of the first handle fails to upload and takes the second file out of the
  directory.\<close>

definition demo_recreated :: tree where
  "demo_recreated = snd (add_file_to_dir (snd (remove_file_from_dir
     (snd (add_file_to_dir new_tree 1 ''f'' (Static []) 0 0)) 1 ''f'')) 1 ''f'' (Static []) 0 0)"

lemma cleanup_removes_other_file:
  "lookup demo_recreated 1 ''f'' = Some 3 \<and> wb_ino demo_buffer = 2
   \<and> (\<exists>s'. op_release demo_fs_env 1 (demo_unsent\<lparr>f_tree := demo_recreated, f_keys := False\<rparr>) = Some (RpOk, s')
        \<and> lookup (f_tree s') 1 ''f'' = None)"
proof -
  have t: "lookup demo_recreated 1 ''f'' = Some 3"
    "lookup (snd (remove_file_from_dir demo_recreated 1 ''f'')) 1 ''f'' = None"
    by code_simp+
  let ?s = "demo_unsent\<lparr>f_tree := demo_recreated, f_keys := False\<rparr>"
  have "upload_cfg (?s\<lparr>f_buffers := B\<rparr>) = None" for B
    by (simp add: upload_cfg_def split: option.split)
  then have "op_release demo_fs_env 1 ?s = Some (RpOk, cleanup_failed_write demo_buffer
      (?s\<lparr>f_buffers := (f_buffers ?s)(1 := None)\<rparr>))"
    by (simp add: op_release_def demo_unsent_def demo_buffer_def storage_len_def fs_upload_cfg_none)
  then show ?thesis using t by (simp add: cleanup_failed_write_def demo_buffer_def)
qed

end
