(* ===== verification/Bfs_Calls.thy ===== *)
theory Bfs_Calls
  imports Bfs_Fs_Run
begin

text \<open>
  The callbacks of \<open>src/fuse/fs.rs\<close> that enter shared state more than once, cut there: each step is
  one region under the lock of the tree or of the write state, one atomic operation (the freeze
  flag, the handle counter), or one stretch of I/O outside the locks (cloning, deleting on the
  server, removing a cached file).  Between two steps other callbacks and control commands may
  move.  A callback that enters shared state once is one step already; remote reads and uploads
  are cut in \<open>Bfs_Readers\<close> and \<open>Bfs_Uploads\<close>.
\<close>

section \<open>Phases\<close>

text \<open>What a callback does next, with what it remembers from its earlier regions.  A callback
  only enters the phases of its own steps; in any other it would end without a reply.\<close>

datatype call_phase =
    PStart
  | PClone string fs_path          \<comment> \<open>a lazy directory was taken: clone it\<close>
  | PFailed bytes                  \<comment> \<open>add the file that says why it failed\<close>
  | PWalk fs_path                  \<comment> \<open>add the files of the clone\<close>
  | PFind                          \<comment> \<open>look into the tree\<close>
  | PParent "(nat \<times> string \<times> file_type) list"
  | PAttr nat                      \<comment> \<open>read the attributes of an inode\<close>
  | PPeek string                   \<comment> \<open>look into the tree before changing it\<close>
  | PDelete string string          \<comment> \<open>name and hash: delete on the server\<close>
  | PUncache string string         \<comment> \<open>name and hash: remove the cached file\<close>
  | PEdit string                   \<comment> \<open>change the directory entry of a name\<close>
  | PFresh string bytes            \<comment> \<open>take a file handle\<close>
  | PMake nat string               \<comment> \<open>make the file of a handle\<close>
  | PInsert nat write_buffer       \<comment> \<open>store the buffer of a handle\<close>
  | PTrunc nat
  | PCreated nat nat               \<comment> \<open>handle and inode: read the attributes\<close>
  | PBuffer                        \<comment> \<open>write into the buffer\<close>
  | PSize nat nat                  \<comment> \<open>inode and size: record the size\<close>
  | PDone "reply option"           \<comment> \<open>the reply, none after a panic\<close>

record call =
  ca_op :: fs_op
  ca_phase :: call_phase

abbreviation answer :: "reply \<Rightarrow> 'w fs \<Rightarrow> call_phase \<times> 'w fs" where
  "answer r s \<equiv> (PDone (Some r), s)"

section \<open>Steps\<close>

text \<open>\<open>populate_if_lazy\<close>, from taking the lazy content to the look into the tree.\<close>

definition populate_step :: "'w fs_env \<Rightarrow> nat \<Rightarrow> call_phase \<Rightarrow> 'w fs \<Rightarrow> call_phase \<times> 'w fs" where
  "populate_step F ino ph s =
     (case ph of
        PClone url path \<Rightarrow>
          (case clone_repo (fe_exists F) (fe_clone F) url path of
             Inl e \<Rightarrow> (PFailed (clone_failed_text url (clone_error_text e)), s)
           | Inr _ \<Rightarrow> (PWalk path, s))
      | PFailed text \<Rightarrow>
          (PFind, s\<lparr>f_tree := snd (add_static_file (fe_now F) (f_tree s) ino ''CLONE_FAILED.txt'' text)\<rparr>)
      | PWalk path \<Rightarrow>
          (PFind, s\<lparr>f_tree := snd (walk_repo_tree (fe_now F) (fe_listing F path) path (f_tree s) ino)\<rparr>)
      | PStart \<Rightarrow>
          (case take_lazy (f_tree s) ino of
             (None, t) \<Rightarrow> (PFind, s\<lparr>f_tree := t\<rparr>)
           | (Some (GitRepo url path), t) \<Rightarrow> (PClone url path, s\<lparr>f_tree := t\<rparr>))
      | _ \<Rightarrow> (PDone None, s))"

definition lookup_step ::
  "'w fs_env \<Rightarrow> nat \<Rightarrow> string option \<Rightarrow> call_phase \<Rightarrow> 'w fs \<Rightarrow> call_phase \<times> 'w fs" where
  "lookup_step F parent name ph s =
     (case ph of
        PFind \<Rightarrow>
          (case name of
             None \<Rightarrow> answer (RpError ENOENT) s
           | Some nm \<Rightarrow>
               (case lookup (f_tree s) parent nm of
                  None \<Rightarrow> answer (RpError ENOENT) s
                | Some ino \<Rightarrow> (PAttr ino, s)))
      | PAttr ino \<Rightarrow>
          answer (case make_fileattr (f_tree s) ino of None \<Rightarrow> RpError ENOENT | Some a \<Rightarrow> RpEntry a) s
      | _ \<Rightarrow> populate_step F parent ph s)"

definition readdir_step ::
  "'w fs_env \<Rightarrow> ((nat \<times> nat \<times> file_type \<times> string) list \<Rightarrow> nat \<times> nat \<times> file_type \<times> string \<Rightarrow> bool)
     \<Rightarrow> nat \<Rightarrow> nat \<Rightarrow> call_phase \<Rightarrow> 'w fs \<Rightarrow> call_phase \<times> 'w fs" where
  "readdir_step F fits ino offset ph s =
     (case ph of
        PFind \<Rightarrow>
          (case list_directory (f_tree s) ino of
             None \<Rightarrow> answer (RpError ENOTDIR) s
           | Some entries \<Rightarrow> (PParent entries, s))
      | PParent entries \<Rightarrow> answer (RpDir (dir_fill fits offset [] (dir_stream (f_tree s) ino entries))) s
      | _ \<Rightarrow> populate_step F ino ph s)"

definition setattr_step :: "nat \<Rightarrow> nat option \<Rightarrow> call_phase \<Rightarrow> 'w fs \<Rightarrow> call_phase \<times> 'w fs" where
  "setattr_step ino sz ph s =
     (case ph of
        PSize i n \<Rightarrow> (PAttr ino, s\<lparr>f_tree := snd (update_file_size (f_tree s) i n)\<rparr>)
      | PAttr i \<Rightarrow> answer (attr_reply (f_tree s) i) s
      | PStart \<Rightarrow>
          if locked s then answer (RpError EROFS) s
          else (case sz of None \<Rightarrow> (PAttr ino, s) | Some n \<Rightarrow> (PSize ino n, s))
      | _ \<Rightarrow> (PDone None, s))"

text \<open>The check that \<open>mkdir\<close>, \<open>unlink\<close>, \<open>rmdir\<close> and \<open>create\<close> begin with.\<close>

definition start_named ::
  "string option \<Rightarrow> (string \<Rightarrow> call_phase) \<Rightarrow> 'w fs \<Rightarrow> call_phase \<times> 'w fs" where
  "start_named name next_phase s =
     (if locked s then answer (RpError EROFS) s
      else (case name of None \<Rightarrow> answer (RpError EINVAL) s | Some nm \<Rightarrow> (next_phase nm, s)))"

definition mkdir_step :: "nat \<Rightarrow> string option \<Rightarrow> call_phase \<Rightarrow> 'w fs \<Rightarrow> call_phase \<times> 'w fs" where
  "mkdir_step parent name ph s =
     (case ph of
        PEdit nm \<Rightarrow>
          if \<not> is_dir (f_tree s) parent then answer (RpError ENOTDIR) s
          else if lookup (f_tree s) parent nm \<noteq> None then answer (RpError EEXIST) s
          else (case add_directory (f_tree s) parent nm of (ino, t) \<Rightarrow> (PAttr ino, s\<lparr>f_tree := t\<rparr>))
      | PAttr ino \<Rightarrow> answer (entry_reply (f_tree s) ino) s
      | PStart \<Rightarrow> start_named name PEdit s
      | _ \<Rightarrow> (PDone None, s))"

definition unlink_step ::
  "'w fs_env \<Rightarrow> nat \<Rightarrow> string option \<Rightarrow> call_phase \<Rightarrow> 'w fs \<Rightarrow> call_phase \<times> 'w fs" where
  "unlink_step F parent name ph s =
     (case ph of
        PPeek nm \<Rightarrow>
          (case lookup (f_tree s) parent nm of
             None \<Rightarrow> answer (RpError ENOENT) s
           | Some child \<Rightarrow>
               (case remote_sha (f_tree s) child of
                  None \<Rightarrow> (PEdit nm, s)
                | Some sha256 \<Rightarrow> (PDelete nm sha256, s)))
      | PDelete nm sha256 \<Rightarrow> (PUncache nm sha256, delete_on_server F sha256 s)
      | PUncache nm sha256 \<Rightarrow> (PEdit nm, delete_cached F sha256 s)
      | PEdit nm \<Rightarrow>
          (case remove_file_from_dir (f_tree s) parent nm of
             (ok, t) \<Rightarrow> answer (if ok then RpOk else RpError ENOENT) (s\<lparr>f_tree := t\<rparr>))
      | PStart \<Rightarrow> start_named name PPeek s
      | _ \<Rightarrow> (PDone None, s))"

definition rmdir_step :: "nat \<Rightarrow> string option \<Rightarrow> call_phase \<Rightarrow> 'w fs \<Rightarrow> call_phase \<times> 'w fs" where
  "rmdir_step parent name ph s =
     (case ph of
        PEdit nm \<Rightarrow>
          (case lookup (f_tree s) parent nm of
             None \<Rightarrow> answer (RpError ENOENT) s
           | Some child \<Rightarrow>
               (case get (f_tree s) child of
                  Some (Directory _ _ children _ _) \<Rightarrow>
                    if children \<noteq> [] then answer (RpError ENOTEMPTY) s
                    else answer RpOk (s\<lparr>f_tree := update_node (f_tree s) parent (unlink_child child)\<rparr>)
                | _ \<Rightarrow> answer (RpError ENOTDIR) s))
      | PStart \<Rightarrow> start_named name PEdit s
      | _ \<Rightarrow> (PDone None, s))"

definition take_handle :: "(nat \<Rightarrow> call_phase) \<Rightarrow> 'w fs \<Rightarrow> call_phase \<times> 'w fs" where
  "take_handle next_phase s = (next_phase (f_next_fh s), s\<lparr>f_next_fh := f_next_fh s + 1\<rparr>)"

definition create_step ::
  "'w fs_env \<Rightarrow> nat \<Rightarrow> string option \<Rightarrow> nat \<Rightarrow> call_phase \<Rightarrow> 'w fs \<Rightarrow> call_phase \<times> 'w fs" where
  "create_step F parent name flags ph s =
     (case ph of
        PFresh nm _ \<Rightarrow> take_handle (\<lambda>fh. PMake fh nm) s
      | PMake fh nm \<Rightarrow>
          let t = f_tree s;
              made = (\<lambda>(ino, t'). (PInsert fh (new_buffer ino parent nm [] (flag_set flags 10)), s\<lparr>f_tree := t'\<rparr>))
          in if \<not> is_dir t parent then answer (RpError ENOTDIR) s
             else
               (case lookup t parent nm of
                  Some existing \<Rightarrow>
                    if flag_set flags 9
                    then made (existing, snd (update_file_node t existing (Static []) 0 (fe_now F)))
                    else answer (RpError EEXIST) s
                | None \<Rightarrow> made (add_file_to_dir t parent nm (Static []) 0 (fe_now F)))
      | PInsert fh buf \<Rightarrow> (PCreated fh (wb_ino buf), s\<lparr>f_buffers := (f_buffers s)(fh \<mapsto> buf)\<rparr>)
      | PCreated fh ino \<Rightarrow>
          answer (case make_fileattr (f_tree s) ino of None \<Rightarrow> RpError EIO | Some a \<Rightarrow> RpCreated a fh) s
      | PStart \<Rightarrow> start_named name (\<lambda>nm. PFresh nm []) s
      | _ \<Rightarrow> (PDone None, s))"

definition open_step :: "nat \<Rightarrow> nat \<Rightarrow> call_phase \<Rightarrow> 'w fs \<Rightarrow> call_phase \<times> 'w fs" where
  "open_step ino flags ph s =
     (case ph of
        PFind \<Rightarrow> answer (if get (f_tree s) ino = None then RpError ENOENT else RpOpened 0) s
      | PPeek _ \<Rightarrow>
          (case get (f_tree s) ino of
             None \<Rightarrow> answer (RpError ENOENT) s
           | Some (Directory _ _ _ _ _) \<Rightarrow> answer (RpError EISDIR) s
           | Some (File _ _ _ _ (Static data) _) \<Rightarrow> (PFresh [] (if flag_set flags 9 then [] else data), s)
           | Some (File _ _ _ _ _ _) \<Rightarrow> answer (RpError EACCES) s)
      | PFresh _ initial \<Rightarrow>
          take_handle (\<lambda>fh. PInsert fh (new_buffer ino 0 [] initial (flag_set flags 10))) s
      | PInsert fh buf \<Rightarrow>
          (if flag_set flags 9 then PTrunc fh else PDone (Some (RpOpened fh)),
           s\<lparr>f_buffers := (f_buffers s)(fh \<mapsto> buf)\<rparr>)
      | PTrunc fh \<Rightarrow> answer (RpOpened fh) (s\<lparr>f_tree := snd (update_file_size (f_tree s) ino 0)\<rparr>)
      | PStart \<Rightarrow> (if locked s \<or> flags mod 4 = 0 then PFind else PPeek [], s)
      | _ \<Rightarrow> (PDone None, s))"

definition write_step ::
  "'w fs_env \<Rightarrow> nat \<Rightarrow> nat \<Rightarrow> bytes \<Rightarrow> call_phase \<Rightarrow> 'w fs \<Rightarrow> call_phase \<times> 'w fs" where
  "write_step F fh offset data ph s =
     (case ph of
        PBuffer \<Rightarrow>
          (case f_buffers s fh of
             None \<Rightarrow> answer (RpError EBADF) s
           | Some buf \<Rightarrow>
               (case buf_write (f_max_write_bytes s) (f_spill_threshold s) (fe_temp_ok F) offset data buf of
                  None \<Rightarrow> (PDone None, s)
                | Some (Inl e) \<Rightarrow> answer (RpError e) s
                | Some (Inr buf') \<Rightarrow>
                    (PSize (wb_ino buf') (storage_len (wb_storage buf')),
                     s\<lparr>f_buffers := (f_buffers s)(fh \<mapsto> buf')\<rparr>)))
      | PSize ino n \<Rightarrow>
          answer (RpWritten (length data)) (s\<lparr>f_tree := snd (update_file_size (f_tree s) ino n)\<rparr>)
      | PStart \<Rightarrow> if locked s then answer (RpError EROFS) s else (PBuffer, s)
      | _ \<Rightarrow> (PDone None, s))"

text \<open>The callbacks that are cut.\<close>

definition cut :: "fs_op \<Rightarrow> bool" where
  "cut op = (case op of
      Lookup _ _ \<Rightarrow> True | Readdir _ _ _ \<Rightarrow> True | Open _ _ \<Rightarrow> True | Setattr _ _ \<Rightarrow> True | Mkdir _ _ \<Rightarrow> True
    | Unlink _ _ \<Rightarrow> True | Rmdir _ _ \<Rightarrow> True | Write _ _ _ \<Rightarrow> True | Create _ _ _ \<Rightarrow> True | _ \<Rightarrow> False)"

definition op_phase_step :: "'w fs_env \<Rightarrow> fs_op \<Rightarrow> call_phase \<Rightarrow> 'w fs \<Rightarrow> call_phase \<times> 'w fs" where
  "op_phase_step F op ph s =
     (case op of
        Lookup parent name \<Rightarrow> lookup_step F parent name ph s
      | Readdir fits ino offset \<Rightarrow> readdir_step F fits ino offset ph s
      | Open ino flags \<Rightarrow> open_step ino flags ph s
      | Setattr ino sz \<Rightarrow> setattr_step ino sz ph s
      | Mkdir parent name \<Rightarrow> mkdir_step parent name ph s
      | Unlink parent name \<Rightarrow> unlink_step F parent name ph s
      | Rmdir parent name \<Rightarrow> rmdir_step parent name ph s
      | Write fh offset data \<Rightarrow> write_step F fh offset data ph s
      | Create parent name flags \<Rightarrow> create_step F parent name flags ph s
      | _ \<Rightarrow> (PDone None, s))"

definition call_step :: "'w fs_env \<Rightarrow> call \<Rightarrow> 'w fs \<Rightarrow> (call_phase \<times> 'w fs) option" where
  "call_step F th s =
     (case ca_phase th of PDone _ \<Rightarrow> None | ph \<Rightarrow> Some (op_phase_step F (ca_op th) ph s))"

lemmas op_step_defs = lookup_step_def readdir_step_def open_step_def setattr_step_def mkdir_step_def
  unlink_step_def rmdir_step_def write_step_def create_step_def populate_step_def start_named_def
  take_handle_def

section \<open>One callback alone\<close>

fun call_run :: "nat \<Rightarrow> 'w fs_env \<Rightarrow> call \<Rightarrow> 'w fs \<Rightarrow> (reply option \<times> 'w fs) option" where
  "call_run 0 F th s = None"
| "call_run (Suc n) F th s =
     (case call_step F th s of
        None \<Rightarrow> None
      | Some (PDone r, s') \<Rightarrow> Some (r, s')
      | Some (ph, s') \<Rightarrow> call_run n F (th\<lparr>ca_phase := ph\<rparr>) s')"

definition fs_result :: "'w fs \<Rightarrow> 'w handler \<Rightarrow> reply option \<times> 'w fs" where
  "fs_result s r = (case r of None \<Rightarrow> (None, s) | Some (reply, s') \<Rightarrow> (Some reply, s'))"

text \<open>What follows a step, so that the run of a callback unfolds one step at a time.\<close>

definition after_step :: "nat \<Rightarrow> 'w fs_env \<Rightarrow> fs_op \<Rightarrow> call_phase \<times> 'w fs \<Rightarrow> (reply option \<times> 'w fs) option" where
  "after_step n F op r = (case r of (PDone a, s) \<Rightarrow> Some (a, s)
     | (ph, s) \<Rightarrow> call_run n F \<lparr>ca_op = op, ca_phase = ph\<rparr> s)"

lemma after_step_done [simp]: "after_step n F op (PDone a, s) = Some (a, s)"
  by (simp add: after_step_def)

lemma after_step_Suc [simp]:
  "\<forall>a. ph \<noteq> PDone a \<Longrightarrow> after_step (Suc n) F op (ph, s) = after_step n F op (op_phase_step F op ph s)"
  by (cases ph) (simp_all add: after_step_def call_step_def split: prod.split call_phase.split)

lemma after_step_numeral [simp]:
  "\<forall>a. ph \<noteq> PDone a \<Longrightarrow>
     after_step (numeral k) F op (ph, s) = after_step (pred_numeral k) F op (op_phase_step F op ph s)"
  unfolding numeral_eq_Suc by (rule after_step_Suc)

lemma call_run_first: "call_run 5 F \<lparr>ca_op = op, ca_phase = PStart\<rparr> s = after_step 4 F op (op_phase_step F op PStart s)"
  by (simp add: numeral_eq_Suc after_step_def call_step_def split: prod.split call_phase.split)

lemmas alone_simps = call_run_first op_phase_step_def fs_step_def fs_result_def Let_def

lemma lookup_alone: "call_run 5 F \<lparr>ca_op = Lookup parent nm, ca_phase = PStart\<rparr> s
    = Some (fs_result s (fs_step F (Lookup parent nm) s))"
  by (simp add: alone_simps lookup_step_def populate_step_def populate_if_lazy_def op_lookup_def
      split: option.split prod.split lazy_dir.split sum.split)

lemma readdir_alone: "call_run 5 F \<lparr>ca_op = Readdir fits ino off, ca_phase = PStart\<rparr> s
    = Some (fs_result s (fs_step F (Readdir fits ino off) s))"
  by (simp add: alone_simps readdir_step_def populate_step_def populate_if_lazy_def op_readdir_def
      split: option.split prod.split lazy_dir.split sum.split)

lemma open_alone: "call_run 5 F \<lparr>ca_op = Open ino flags, ca_phase = PStart\<rparr> s
    = Some (fs_result s (fs_step F (Open ino flags) s))"
proof (cases "locked s \<or> flags mod 4 = 0")
  case True
  then show ?thesis by (simp add: alone_simps open_step_def op_open_def)
next
  case False
  note defs = alone_simps open_step_def take_handle_def op_open_def False
  show ?thesis
  proof (cases "get (f_tree s) ino")
    case (Some n)
    show ?thesis
    proof (cases n)
      case (File i nm p sz c up)
      then show ?thesis using Some by (cases c) (simp_all add: defs)
    qed (simp add: defs Some)
  qed (simp add: defs)
qed

lemma write_alone: "call_run 5 F \<lparr>ca_op = Write fh off data, ca_phase = PStart\<rparr> s
    = Some (fs_result s (fs_step F (Write fh off data) s))"
  by (simp add: alone_simps write_step_def op_write_def split: option.split sum.split)

lemma create_alone: "call_run 5 F \<lparr>ca_op = Create parent nm flags, ca_phase = PStart\<rparr> s
    = Some (fs_result s (fs_step F (Create parent nm flags) s))"
  by (simp add: alone_simps create_step_def start_named_def take_handle_def op_create_def new_buffer_def
      case_prod_beta split: option.split)

lemma edit_alone:
  "call_run 5 F \<lparr>ca_op = Setattr ino sz, ca_phase = PStart\<rparr> s = Some (fs_result s (fs_step F (Setattr ino sz) s))"
  "call_run 5 F \<lparr>ca_op = Mkdir parent nm, ca_phase = PStart\<rparr> s = Some (fs_result s (fs_step F (Mkdir parent nm) s))"
  "call_run 5 F \<lparr>ca_op = Unlink parent nm, ca_phase = PStart\<rparr> s = Some (fs_result s (fs_step F (Unlink parent nm) s))"
  "call_run 5 F \<lparr>ca_op = Rmdir parent nm, ca_phase = PStart\<rparr> s = Some (fs_result s (fs_step F (Rmdir parent nm) s))"
  by (simp_all add: alone_simps setattr_step_def op_setattr_def mkdir_step_def unlink_step_def rmdir_step_def
      start_named_def op_mkdir_def op_unlink_def op_rmdir_def delete_remote_def case_prod_beta
      split: option.split tree_node.split)



end
