(* ===== verification/Bfs_Call_Steps.thy ===== *)
theory Bfs_Call_Steps
  imports Bfs_Uploads Bfs_Calls
begin

text \<open>
  What one step of a cut callback (\<open>Bfs_Calls\<close>) does to the shared state: it keeps the mount well
  formed, leaves its own callback with what that relies on, and \<open>evolves\<close> the state in a way that
  keeps what the other callbacks rely on, except for the buffer it stores.
\<close>

section \<open>What a step of any thread keeps\<close>

text \<open>Directories stay directories.\<close>

definition keeps_dirs :: "tree \<Rightarrow> tree \<Rightarrow> bool" where
  "keeps_dirs t t' \<longleftrightarrow> (\<forall>i. is_dir t i \<longrightarrow> is_dir t' i)"

lemma keeps_dirs_refl [simp]: "keeps_dirs t t"
  by (simp add: keeps_dirs_def)

lemma keeps_dirs_update:
  "(\<And>n. get t i = Some n \<Longrightarrow> node_kind_of (f n) = node_kind_of n) \<Longrightarrow> keeps_dirs t (update_node t i f)"
  by (auto simp: keeps_dirs_def is_dir_kind kind_def get_update_node split: option.splits)

lemma keeps_dirs_updates [simp]:
  "keeps_dirs t (snd (update_file_node t i c sz up))"
  "keeps_dirs t (snd (update_file_size t i sz))"
  "keeps_dirs t (snd (set_expires t i e))"
  "keeps_dirs t (snd (take_lazy t i))"
  "keeps_dirs t (update_node t i (unlink_child c'))"
  "keeps_dirs t (snd (remove_file_from_dir t i nm))"
  by (auto simp: update_file_node_def update_file_size_def set_expires_def take_lazy_def
      remove_file_from_dir_def node_kind_of_def intro!: keeps_dirs_update
      split: option.split tree_node.split file_content.split)
    (simp_all add: unlink_child_def split: tree_node.split)

lemma keeps_dirs_adds [simp]:
  "keeps_dirs t (snd (add_directory t i nm))"
  "keeps_dirs t (snd (add_file_to_dir t i nm c sz up))"
  "keeps_dirs t (snd (add_static_file now t i nm data))"
  by (simp_all add: keeps_dirs_def add_directory_def add_file_to_dir_def add_static_file_def Let_def is_dir_add_node)

lemma keeps_dirs_walk: "tree_wf t \<Longrightarrow> is_dir t i \<Longrightarrow> keeps_dirs t (snd (walk_repo_tree now es repo t i))"
  using walk_repo_tree_ok(2) tree_ext_is_dir by (simp add: keeps_dirs_def) blast

text \<open>From \<open>s\<close> to \<open>s'\<close>: handles only grow, a handle outside \<open>X\<close> gets no new buffer and a flushed
  buffer stays flushed, and the configuration stays.\<close>

definition evolves :: "nat set \<Rightarrow> 'w fs \<Rightarrow> 'w fs \<Rightarrow> bool" where
  "evolves X s s' \<longleftrightarrow> f_next_fh s \<le> f_next_fh s' \<and> f_read_only s' = f_read_only s
     \<and> keeps_dirs (f_tree s) (f_tree s')
     \<and> (\<forall>fh b'. fh < f_next_fh s \<longrightarrow> fh \<notin> X \<longrightarrow> f_buffers s' fh = Some b' \<longrightarrow>
          (\<exists>b. f_buffers s fh = Some b \<and> (wb_flushed b \<longrightarrow> wb_flushed b')))"

lemma evolves_same:
  "f_buffers s' = f_buffers s \<Longrightarrow> f_next_fh s' = f_next_fh s \<Longrightarrow> f_read_only s' = f_read_only s
    \<Longrightarrow> keeps_dirs (f_tree s) (f_tree s') \<Longrightarrow> evolves X s s'"
  by (simp add: evolves_def)

lemma evolves_done: "evolves X s s' \<Longrightarrow> handle_done s fh \<Longrightarrow> fh \<notin> X \<Longrightarrow> handle_done s' fh"
  unfolding evolves_def handle_done_def by (meson le_trans less_le_trans)

section \<open>Steps of the cut callbacks\<close>

text \<open>The handle a callback has taken but not stored yet.\<close>

definition pending_handle :: "call_phase \<Rightarrow> nat option" where
  "pending_handle ph = (case ph of PMake fh _ \<Rightarrow> Some fh | PInsert fh _ \<Rightarrow> Some fh | _ \<Rightarrow> None)"

definition inserts :: "call_phase \<Rightarrow> nat set" where
  "inserts ph = (case ph of PInsert fh _ \<Rightarrow> {fh} | _ \<Rightarrow> {})"

definition populates :: "fs_op \<Rightarrow> nat option" where
  "populates op = (case op of Lookup p _ \<Rightarrow> Some p | Readdir _ i _ \<Rightarrow> Some i | _ \<Rightarrow> None)"

text \<open>What a callback relies on between its steps.\<close>

definition phase_ok :: "'w fs \<Rightarrow> fs_op \<Rightarrow> call_phase \<Rightarrow> bool" where
  "phase_ok s op ph \<longleftrightarrow>
     (case ph of
        PClone _ _ \<Rightarrow> (case populates op of Some i \<Rightarrow> is_dir (f_tree s) i | None \<Rightarrow> True)
      | PFailed _ \<Rightarrow> (case populates op of Some i \<Rightarrow> is_dir (f_tree s) i | None \<Rightarrow> True)
      | PWalk _ \<Rightarrow> (case populates op of Some i \<Rightarrow> is_dir (f_tree s) i | None \<Rightarrow> True)
      | PPeek _ \<Rightarrow> \<not> f_read_only s
      | PFresh _ _ \<Rightarrow> \<not> f_read_only s
      | PMake fh _ \<Rightarrow> \<not> f_read_only s \<and> 1 \<le> fh \<and> fh < f_next_fh s \<and> f_buffers s fh = None
      | PInsert fh _ \<Rightarrow> \<not> f_read_only s \<and> 1 \<le> fh \<and> fh < f_next_fh s \<and> f_buffers s fh = None
      | _ \<Rightarrow> True)"

lemma phase_ok_evolves:
  assumes "phase_ok s op ph" and "evolves X s s'" and "\<And>fh. pending_handle ph = Some fh \<Longrightarrow> fh \<notin> X"
  shows "phase_ok s' op ph"
proof -
  have "f_buffers s' fh = None" if "fh < f_next_fh s" "fh \<notin> X" "f_buffers s fh = None" for fh
    using assms(2) that unfolding evolves_def by (metis not_Some_eq)
  with assms show ?thesis
    by (auto simp: phase_ok_def pending_handle_def evolves_def keeps_dirs_def split: call_phase.splits option.splits)
qed

lemma take_lazy_dir: "take_lazy t i = (Some lz, t') \<Longrightarrow> is_dir t i"
  by (auto simp: take_lazy_def is_dir_def split: option.splits tree_node.splits)

lemma locked_read_only: "\<not> locked s \<Longrightarrow> \<not> f_read_only s"
  by (simp add: locked_def)

text \<open>Every step keeps the well-formedness of the mount.\<close>

lemma fs_inv_set_tree: "fs_inv F s \<Longrightarrow> (tree_wf (f_tree s) \<Longrightarrow> tree_wf t) \<Longrightarrow> fs_inv F (s\<lparr>f_tree := t\<rparr>)"
  by (rule fs_inv_tree) (simp_all add: fs_inv_def)

lemma fs_inv_fresh_buffer:
  "fs_inv F s \<Longrightarrow> \<not> f_read_only s \<Longrightarrow> 1 \<le> fh \<Longrightarrow> fh < f_next_fh s \<Longrightarrow> fs_inv F (s\<lparr>f_buffers := (f_buffers s)(fh \<mapsto> b)\<rparr>)"
  by (auto simp: fs_inv_def cache_ok_def)

lemma fs_inv_old_buffer:
  "fs_inv F s \<Longrightarrow> f_buffers s fh = Some b \<Longrightarrow> fs_inv F (s\<lparr>f_buffers := (f_buffers s)(fh \<mapsto> b')\<rparr>)"
  by (erule fs_inv_buffers) (auto split: if_splits)

lemma delete_frame:
  "f_frozen (delete_on_server F sha s) = f_frozen s" "f_cache_base (delete_on_server F sha s) = f_cache_base s"
  "f_metrics (delete_on_server F sha s) = f_metrics s" "f_fetching (delete_on_server F sha s) = f_fetching s"
  "f_frozen (delete_cached F sha s) = f_frozen s" "f_cache_base (delete_cached F sha s) = f_cache_base s"
  "f_metrics (delete_cached F sha s) = f_metrics s" "f_fetching (delete_cached F sha s) = f_fetching s"
  by (auto simp: delete_on_server_def delete_cached_def split: option.split sum.split)

text \<open>The steps of the callbacks, all but those of \<open>populate_if_lazy\<close>.\<close>

lemmas call_step_defs = lookup_step_def readdir_step_def open_step_def setattr_step_def mkdir_step_def
  unlink_step_def rmdir_step_def write_step_def create_step_def start_named_def take_handle_def

lemma populate_step_frame:
  "f_frozen (snd (populate_step F i ph s)) = f_frozen s \<and> f_cache_base (snd (populate_step F i ph s)) = f_cache_base s
    \<and> f_metrics (snd (populate_step F i ph s)) = f_metrics s
    \<and> f_fetching (snd (populate_step F i ph s)) = f_fetching s"
  by (simp add: populate_step_def split: call_phase.split prod.split option.split lazy_dir.split sum.split)

lemma op_phase_step_frame:
  "f_frozen (snd (op_phase_step F op ph s)) = f_frozen s
    \<and> f_cache_base (snd (op_phase_step F op ph s)) = f_cache_base s
    \<and> f_metrics (snd (op_phase_step F op ph s)) = f_metrics s
    \<and> f_fetching (snd (op_phase_step F op ph s)) = f_fetching s"
  by (cases op; cases ph)
    (simp_all add: op_phase_step_def call_step_defs delete_frame
      populate_step_frame Let_def case_prod_beta
      split: option.split sum.split tree_node.split file_content.split)

lemma call_frame:
  assumes "op_phase_step F op ph s = (ph', s')"
  shows "f_frozen s' = f_frozen s \<and> f_cache_base s' = f_cache_base s \<and> f_metrics s' = f_metrics s
    \<and> f_fetching s' = f_fetching s"
  using op_phase_step_frame [of F op ph s] assms by simp

lemma populate_step_pending: "pending_handle (fst (populate_step F i ph s)) = None"
  by (simp add: populate_step_def pending_handle_def split: call_phase.split prod.split option.split lazy_dir.split sum.split)

lemma call_pending:
  assumes "op_phase_step F op ph s = (ph', s')" and "pending_handle ph' = Some fh"
  shows "pending_handle ph = Some fh \<or> fh = f_next_fh s \<and> f_next_fh s' = Suc fh \<and> f_buffers s' = f_buffers s"
proof -
  have "pending_handle (fst (op_phase_step F op ph s)) = Some fh \<longrightarrow> pending_handle ph = Some fh
      \<or> fh = f_next_fh s \<and> f_next_fh (snd (op_phase_step F op ph s)) = Suc fh
        \<and> f_buffers (snd (op_phase_step F op ph s)) = f_buffers s"
    by (cases op; cases ph)
      (simp_all add: op_phase_step_def call_step_defs pending_handle_def populate_step_pending [unfolded pending_handle_def]
        Let_def case_prod_beta split: option.split sum.split tree_node.split file_content.split)
  with assms show ?thesis by simp
qed

lemma call_claims:
  "op_phase_step F op ph (with_claims X s) = apsnd (with_claims X) (op_phase_step F op ph s)"
  by (cases op)
    (simp_all add: op_phase_step_def op_step_defs delete_on_server_claims delete_cached_claims locked_claims
      with_claims_commute Let_def
      split: call_phase.split option.split prod.split lazy_dir.split sum.split tree_node.split file_content.split)

text \<open>What a single step of each kind does to what the others rely on.\<close>

lemma evolves_populate:
  assumes "populate_step F i ph s = (ph', s')" and "tree_wf (f_tree s)"
    and "\<And>path. ph = PWalk path \<Longrightarrow> is_dir (f_tree s) i"
  shows "evolves X s s'"
proof -
  have "keeps_dirs (f_tree s) t" if "take_lazy (f_tree s) i = (lz, t)" for lz t
    using that keeps_dirs_updates(4) [of "f_tree s" i] by simp
  then show ?thesis
    using assms keeps_dirs_walk [OF assms(2)]
    by (intro evolves_same)
      (auto simp: populate_step_def split: call_phase.splits prod.splits option.splits lazy_dir.splits sum.splits)
qed

lemma evolves_delete [simp]:
  "evolves X s (delete_on_server F sha s)" "evolves X s (delete_cached F sha s)"
  by (auto simp: delete_on_server_def delete_cached_def evolves_same split: option.split sum.split)

lemma call_evolves:
  assumes st: "op_phase_step F op ph s = (ph', s')" and wf: "tree_wf (f_tree s)" and ok: "phase_ok s op ph"
  shows "evolves (inserts ph) s s'"
proof -
  have pop: "evolves X s s'" if "populate_step F i ph s = (ph', s')" "populates op = Some i" for i X
    by (rule evolves_populate [OF that(1) wf]) (use ok that(2) in \<open>simp add: phase_ok_def\<close>)
  have rm: "keeps_dirs (f_tree s) t" if "remove_file_from_dir (f_tree s) p nm = (b, t)" for p nm b t
    using that keeps_dirs_updates(6) [of "f_tree s" p nm] by simp
  have mk: "keeps_dirs (f_tree s) t" if "add_directory (f_tree s) p nm = (j, t)" for p nm j t
    using that keeps_dirs_adds(1) [of "f_tree s" p nm] by simp
  have mf: "keeps_dirs (f_tree s) t" if "add_file_to_dir (f_tree s) p nm c sz up = (j, t)" for p nm c sz up j t
    using that keeps_dirs_adds(2) [of "f_tree s" p nm c sz up] by simp
  show ?thesis
  proof (cases op)
    case (Lookup p nm)
    then show ?thesis using st pop
      by (cases ph) (auto simp: op_phase_step_def lookup_step_def populates_def evolves_same split: option.splits)
  next
    case (Readdir fits i off)
    then show ?thesis using st pop
      by (cases ph) (auto simp: op_phase_step_def readdir_step_def populates_def evolves_same split: option.splits)
  next
    case (Unlink p nm)
    then show ?thesis using st rm
      by (auto simp: op_phase_step_def unlink_step_def start_named_def evolves_same
          split: call_phase.splits option.splits prod.splits if_splits)
  next
    case (Mkdir p nm)
    then show ?thesis using st mk
      by (auto simp: op_phase_step_def mkdir_step_def start_named_def evolves_same
          split: call_phase.splits option.splits prod.splits if_splits)
  next
    case (Create p nm fl)
    then show ?thesis using st mf
      by (auto simp: op_phase_step_def create_step_def start_named_def take_handle_def inserts_def Let_def
          evolves_def split: call_phase.splits option.splits prod.splits if_splits)
  next
    case (Open i fl)
    then show ?thesis using st
      by (auto simp: op_phase_step_def open_step_def take_handle_def inserts_def evolves_def
          split: call_phase.splits option.splits tree_node.splits file_content.splits if_splits)
  next
    case (Write fh off d)
    then show ?thesis using st
      by (auto simp: op_phase_step_def write_step_def evolves_def dest: buf_write_Inr(6)
          split: call_phase.splits option.splits sum.splits if_splits)
  qed (use st in \<open>auto simp: op_phase_step_def setattr_step_def rmdir_step_def start_named_def evolves_same
      split: call_phase.splits option.splits tree_node.splits if_splits\<close>)
qed

text \<open>Every step keeps the mount well formed, and leaves its callback with what it relies on.\<close>

lemma fs_inv_populate_step:
  assumes "fs_inv F s" and "populate_step F i ph s = (ph', s')" and "\<And>path. ph = PWalk path \<Longrightarrow> is_dir (f_tree s) i"
    and "\<And>text. ph = PFailed text \<Longrightarrow> is_dir (f_tree s) i"
  shows "fs_inv F s'"
proof -
  have wf: "tree_wf (f_tree s)" using assms(1) by (simp add: fs_inv_def)
  have "tree_wf t" if "take_lazy (f_tree s) i = (lz, t)" for lz t
    using that tree_wf_take_lazy [OF wf, of i] by simp
  then show ?thesis
    using assms walk_repo_tree_ok(1) [OF wf] tree_wf_add_static_file [OF wf is_dir_valid]
    by (auto simp: populate_step_def intro!: fs_inv_tree
        split: call_phase.splits prod.splits option.splits lazy_dir.splits sum.splits)
qed

lemma call_inv:
  assumes st: "op_phase_step F op ph s = (ph', s')" and i: "fs_inv F s" and ok: "phase_ok s op ph"
  shows "fs_inv F s'"
proof -
  have wf: "tree_wf (f_tree s)" using i by (simp add: fs_inv_def)
  note edit = fs_inv_tree [OF i]
  have pop: "fs_inv F s'" if "populate_step F j ph s = (ph', s')" "populates op = Some j" for j
    by (rule fs_inv_populate_step [OF i that(1)]) (use ok that(2) in \<open>simp_all add: phase_ok_def\<close>)
  have rm: "tree_wf t" if "remove_file_from_dir (f_tree s) p nm = (b, t)" for p nm b t
    using that tree_wf_remove_file [OF wf, of p nm] by simp
  have mk: "tree_wf t" if "add_directory (f_tree s) p nm = (j, t)" "is_dir (f_tree s) p" for p nm j t
    using that tree_wf_add_directory [OF wf is_dir_valid, of p nm] by simp
  have mf: "tree_wf t" if "add_file_to_dir (f_tree s) p nm c sz up = (j, t)" "is_dir (f_tree s) p" for p nm c sz up j t
    using that tree_wf_add_file_to_dir [OF wf is_dir_valid, of p nm c sz up] by simp
  show ?thesis
  proof (cases op)
    case (Lookup p nm)
    then show ?thesis using st pop i
      by (cases ph) (auto simp: op_phase_step_def lookup_step_def populates_def split: option.splits)
  next
    case (Readdir fits j off)
    then show ?thesis using st pop i
      by (cases ph) (auto simp: op_phase_step_def readdir_step_def populates_def split: option.splits)
  next
    case (Unlink p nm)
    then show ?thesis using st rm i
      by (auto simp: op_phase_step_def unlink_step_def start_named_def edit fs_inv_delete_on_server fs_inv_delete_cached
          split: call_phase.splits option.splits prod.splits if_splits)
  next
    case (Mkdir p nm)
    then show ?thesis using st mk i
      by (auto simp: op_phase_step_def mkdir_step_def start_named_def edit
          split: call_phase.splits option.splits prod.splits if_splits)
  next
    case (Create p nm fl)
    then show ?thesis using st mf i ok
      by (auto simp: op_phase_step_def create_step_def start_named_def take_handle_def phase_ok_def Let_def edit
          fs_inv_next_fh fs_inv_fresh_buffer tree_wf_update_file_node [OF wf]
          split: call_phase.splits option.splits prod.splits if_splits)
  next
    case (Open j fl)
    then show ?thesis using st i ok
      by (auto simp: op_phase_step_def open_step_def take_handle_def phase_ok_def edit fs_inv_next_fh
          fs_inv_fresh_buffer tree_wf_update_file_size [OF wf]
          split: call_phase.splits option.splits tree_node.splits file_content.splits if_splits)
  next
    case (Write fh off d)
    then show ?thesis using st i
      by (auto simp: op_phase_step_def write_step_def edit fs_inv_old_buffer tree_wf_update_file_size [OF wf]
          split: call_phase.splits option.splits sum.splits if_splits)
  qed (use st i in \<open>auto simp: op_phase_step_def setattr_step_def rmdir_step_def start_named_def edit
      tree_wf_update_file_size [OF wf] tree_wf_unlink_child [OF wf]
      split: call_phase.splits option.splits tree_node.splits if_splits\<close>)
qed

lemma call_phase_ok:
  assumes st: "op_phase_step F op ph s = (ph', s')" and i: "fs_inv F s" and ok: "phase_ok s op ph"
  shows "phase_ok s' op ph'"
proof -
  have fresh: "f_buffers s (f_next_fh s) = None" "1 \<le> f_next_fh s"
    using i by (auto simp: fs_inv_def)
  have pop: "phase_ok s' op ph'" if "populate_step F j ph s = (ph', s')" "populates op = Some j" for j
  proof -
    have "is_dir t j" if "take_lazy (f_tree s) j = (Some lz, t)" for lz t
      using take_lazy_dir [OF that] keeps_dirs_updates(4) [of "f_tree s" j] that by (simp add: keeps_dirs_def)
    then show ?thesis
      using that ok by (auto simp: populate_step_def phase_ok_def
          split: call_phase.splits prod.splits option.splits lazy_dir.splits sum.splits)
  qed
  show ?thesis
  proof (cases op)
    case (Lookup p nm)
    then show ?thesis using st pop
      by (cases ph) (auto simp: op_phase_step_def lookup_step_def populates_def phase_ok_def split: option.splits)
  next
    case (Readdir fits j off)
    then show ?thesis using st pop
      by (cases ph) (auto simp: op_phase_step_def readdir_step_def populates_def phase_ok_def split: option.splits)
  qed (use st ok fresh in \<open>auto simp: op_phase_step_def unlink_step_def mkdir_step_def create_step_def open_step_def
      write_step_def setattr_step_def rmdir_step_def start_named_def take_handle_def phase_ok_def Let_def
      locked_read_only
      split: call_phase.splits option.splits prod.splits sum.splits tree_node.splits file_content.splits if_splits\<close>)
qed

end
