(* ===== verification/Bfs_Interleave.thy ===== *)
theory Bfs_Interleave
  imports Bfs_Call_Steps
begin

text \<open>
  The whole mount under concurrency, with every callback cut at its locks: the callbacks of
  \<open>Bfs_Calls\<close>, the upload threads of \<open>Bfs_Uploads\<close>, the reads of \<open>Bfs_Readers\<close>, the callbacks that
  enter shared state once, and the commands of the control socket, in any order.
\<close>

section \<open>The whole system\<close>

text \<open>The cut callbacks, over the system of \<open>Bfs_Uploads\<close>, whose own callbacks are now only those
  that enter shared state once.\<close>

type_synonym 'w mount = "call list \<times> 'w system"

datatype mount_move = Call fs_op | Go nat | Under up_move

definition uncut :: "up_move \<Rightarrow> bool" where
  "uncut m = (case m of Base (Other (Callback op)) \<Rightarrow> \<not> cut op | _ \<Rightarrow> True)"

inductive mount_step ::
  "'w fs_env \<Rightarrow> control_env \<Rightarrow> fs_path \<Rightarrow> mount_move \<Rightarrow> 'w mount \<Rightarrow> 'w mount \<Rightarrow> bool" for F C base where
  call: "cut op \<Longrightarrow> mount_step F C base (Call op) (cs, c) (cs @ [\<lparr>ca_op = op, ca_phase = PStart\<rparr>], c)"
| go: "i < length cs \<Longrightarrow> call_step F (cs ! i) s = Some (ph, s') \<Longrightarrow>
    mount_step F C base (Go i) (cs, (u, (ts, s))) (cs[i := (cs ! i)\<lparr>ca_phase := ph\<rparr>], (u, (ts, s')))"
| under: "up_step F C base m c c' \<Longrightarrow> uncut m \<Longrightarrow> mount_step F C base (Under m) (cs, c) (cs, c')"

lemma call_step_iff:
  "call_step F th s = Some (ph, s') \<longleftrightarrow>
     (\<forall>r. ca_phase th \<noteq> PDone r) \<and> op_phase_step F (ca_op th) (ca_phase th) s = (ph, s')"
  by (auto simp: call_step_def split: call_phase.splits)

section \<open>What the steps underneath keep\<close>

lemma full_fetch_dirs: "full_fetch F url sha base s = (r, s') \<Longrightarrow> f_tree s' = f_tree s"
  by (auto simp: full_fetch_def Let_def put_host_def split: prod.splits sum.splits)

lemma finish_read_dirs:
  "finish_read F ino sha base off sz d s = (r, s') \<Longrightarrow> keeps_dirs (f_tree s) (f_tree s')"
  by (auto simp: finish_read_def Let_def unclaim_def split: prod.splits option.splits if_splits)

lemma fetch_remote_dirs:
  "fetch_remote F ino url sha base off sz s = (r, s') \<Longrightarrow> keeps_dirs (f_tree s) (f_tree s')"
  by (auto simp: fetch_remote_def Let_def put_host_def unclaim_def
      dest!: full_fetch_dirs finish_read_dirs split: prod.splits sum.splits option.splits)

lemma reader_step_dirs:
  "reader_step F base th s = Some (ph, s') \<Longrightarrow> keeps_dirs (f_tree s) (f_tree s')"
  by (cases "rd_phase th")
    (auto simp: reader_step_def unclaim_def dest!: fetch_remote_dirs
      split: if_splits option.splits sum.splits prod.splits)

lemma uploader_step_evolves:
  "uploader_step F th k s = Some (ph, k', s') \<Longrightarrow> evolves X s s'"
  by (cases "ul_phase th")
    (auto simp: uploader_step_def put_up_def cleanup_failed_write_def Let_def
      intro!: evolves_same split: option.splits if_splits prod.splits)

lemma event_step_evolves:
  assumes "other_event ev" and "quiet (Other ev) s" and "uncut (Base (Other ev))"
  shows "evolves X s (event_step F C ev s)"
proof (cases ev)
  case (Callback op)
  then show ?thesis
    using assms
    by (cases op)
      (auto simp: other_event_def quiet_def uncut_def cut_def event_step_def fs_exec_def fs_step_def op_getattr_def
        op_statfs_def op_refused_def op_rename_def op_link_def op_fsync_def op_getxattr_def op_listxattr_def
        op_flush_def op_release_def start_upload_def unsent_def evolves_def Let_def
        split: option.splits if_splits)
next
  case (Command line)
  then show ?thesis by (simp add: event_step_def handle_command_frame evolves_same)
qed

lemma evolves_under:
  assumes "up_step F C base m c c'" and "uncut m" and "up_inv F base cap g c"
  shows "evolves {} (snd (snd c)) (snd (snd c'))"
  using assms
proof (induction rule: up_step.induct)
  case (submit op s th s' us k ts)
  then show ?case using start_upload_frame [OF submit(1)] by (auto simp: evolves_def split: if_splits)
next
  case (advance i us k s ph k' s' ts)
  then show ?case using uploader_step_evolves [OF advance(2)] by simp
next
  case (base_move m c c' u)
  from base_move(1) show ?case
  proof (cases rule: sys_step.cases)
    case (read_move)
    from this(2) show ?thesis
    proof (cases rule: conc_step.cases)
      case (one i ts s ph s')
      have "cache_sound (fe_fetch F) base (f_disk s)"
        using base_move(4) one(1) by (auto simp: up_inv_def sys_inv_def fs_inv_def cache_ok_def split: prod.splits)
      from reader_step_stage [OF this one(4)] reader_step_dirs [OF one(4)] show ?thesis
        using one(1,2) by (simp add: read_frame_def evolves_same)
    qed
  next
    case (other ev ts s)
    then show ?thesis using base_move event_step_evolves [of ev s "{}" F C] by simp
  qed (simp add: evolves_same)
qed

section \<open>The invariant\<close>

lemma phase_ok_claims [simp]: "phase_ok (with_claims X s) op ph = phase_ok s op ph"
  by (simp add: phase_ok_def split: call_phase.split option.split)

text \<open>No two callbacks have taken the same handle.\<close>

definition handles_apart :: "call list \<Rightarrow> bool" where
  "handles_apart cs \<longleftrightarrow> (\<forall>i j fh. i < length cs \<longrightarrow> j < length cs \<longrightarrow> i \<noteq> j \<longrightarrow>
     pending_handle (ca_phase (cs ! i)) = Some fh \<longrightarrow> pending_handle (ca_phase (cs ! j)) \<noteq> Some fh)"

definition mount_inv :: "'w fs_env \<Rightarrow> fs_path \<Rightarrow> nat \<Rightarrow> int \<Rightarrow> 'w mount \<Rightarrow> bool" where
  "mount_inv F base cap g c \<longleftrightarrow> up_inv F base cap g (snd c) \<and> handles_apart (fst c)
     \<and> (\<forall>th \<in> set (fst c). phase_ok (snd (snd (snd c))) (ca_op th) (ca_phase th))"

lemma up_inv_call:
  assumes i: "up_inv F base cap g ((us, k), (ts, s))" and st: "op_phase_step F op ph s = (ph', s')"
    and ok: "phase_ok s op ph"
  shows "up_inv F base cap g ((us, k), (ts, s')) \<and> phase_ok s' op ph' \<and> evolves (inserts ph) s s'"
proof -
  have inv: "fs_inv F (with_claims {} s)" using i by (simp add: up_inv_def sys_inv_def)
  have c: "op_phase_step F op ph (with_claims {} s) = (ph', with_claims {} s')"
    by (simp add: call_claims st)
  have "fs_inv F (with_claims {} s')" by (rule call_inv [OF c inv]) (simp add: ok)
  moreover have "phase_ok (with_claims {} s') op ph'" by (rule call_phase_ok [OF c inv]) (simp add: ok)
  moreover have "evolves (inserts ph) s s'"
    using call_evolves [OF st _ ok] inv by (simp add: fs_inv_def)
  ultimately show ?thesis
    using i call_frame [OF st] sys_inv_frame [of F base ts s s'] by (simp add: up_inv_def)
qed

lemma inserts_pending: "fh \<in> inserts ph \<Longrightarrow> pending_handle ph = Some fh"
  by (auto simp: inserts_def pending_handle_def split: call_phase.splits)

lemma pending_bound: "phase_ok s op ph \<Longrightarrow> pending_handle ph = Some fh \<Longrightarrow> fh < f_next_fh s \<and> f_buffers s fh = None"
  by (auto simp: phase_ok_def pending_handle_def split: call_phase.splits)

lemma start_phase [simp]: "pending_handle PStart = None" "phase_ok s op PStart"
  by (simp_all add: pending_handle_def phase_ok_def)

lemma handles_apartD:
  "handles_apart cs \<Longrightarrow> i < length cs \<Longrightarrow> j < length cs \<Longrightarrow> i \<noteq> j \<Longrightarrow>
     pending_handle (ca_phase (cs ! i)) = Some fh \<Longrightarrow> pending_handle (ca_phase (cs ! j)) \<noteq> Some fh"
  by (simp add: handles_apart_def)

lemma handles_apart_snoc:
  assumes "handles_apart cs" and "pending_handle (ca_phase th) = None"
  shows "handles_apart (cs @ [th])"
  unfolding handles_apart_def
proof (intro allI impI)
  fix i j fh
  assume ij: "i < length (cs @ [th])" "j < length (cs @ [th])" "i \<noteq> j"
    and p: "pending_handle (ca_phase ((cs @ [th]) ! i)) = Some fh"
  have "i < length cs" using p assms(2) ij(1) by (cases "i = length cs") auto
  then show "pending_handle (ca_phase ((cs @ [th]) ! j)) \<noteq> Some fh"
    using assms ij p unfolding handles_apart_def by (cases "j = length cs") (simp_all add: nth_append)
qed

lemma mount_inv_step:
  assumes "mount_step F C base m c c'" and "mount_inv F base cap g c"
  shows "mount_inv F base cap g c'"
  using assms
proof (induction rule: mount_step.induct)
  case (call op cs c)
  then show ?case by (auto simp: mount_inv_def handles_apart_snoc)
next
  case (go i cs s ph s' u ts)
  let ?th = "cs ! i" and ?cs = "cs[i := (cs ! i)\<lparr>ca_phase := ph\<rparr>]"
  obtain us k where u: "u = (us, k)" by (rule prod.exhaust)
  have st: "op_phase_step F (ca_op ?th) (ca_phase ?th) s = (ph, s')" using go(2) by (simp add: call_step_iff)
  have ok: "phase_ok s (ca_op th) (ca_phase th)" if "th \<in> set cs" for th
    using go(3) that by (simp add: mount_inv_def)
  have up: "up_inv F base cap g ((us, k), (ts, s))" using go(3) u by (simp add: mount_inv_def)
  note K = up_inv_call [OF up st ok [OF nth_mem [OF go(1)]]]
  have ha: "handles_apart cs" using go(3) by (simp add: mount_inv_def)
  note apart = handles_apartD [OF ha]
  have "phase_ok s' (ca_op (cs ! j)) (ca_phase (cs ! j))" if "j < length cs" "j \<noteq> i" for j
  proof (rule phase_ok_evolves)
    show "phase_ok s (ca_op (cs ! j)) (ca_phase (cs ! j))" by (rule ok [OF nth_mem [OF that(1)]])
    show "evolves (inserts (ca_phase ?th)) s s'" using K by blast
    show "fh \<notin> inserts (ca_phase ?th)" if "pending_handle (ca_phase (cs ! j)) = Some fh" for fh
      using apart [OF \<open>j < length cs\<close> go(1) \<open>j \<noteq> i\<close> that] inserts_pending by blast
  qed
  then have "phase_ok s' (ca_op (?cs ! j)) (ca_phase (?cs ! j))" if "j < length cs" for j
    using K that by (cases "j = i") simp_all
  then have "phase_ok s' (ca_op th) (ca_phase th)" if "th \<in> set ?cs" for th
    using that by (metis in_set_conv_nth length_list_update)
  moreover have new: "pending_handle (ca_phase (cs ! j)) \<noteq> Some fh"
    if j: "j < length cs" "j \<noteq> i" and fh: "pending_handle ph = Some fh" for j fh
  proof
    assume p: "pending_handle (ca_phase (cs ! j)) = Some fh"
    then have "fh < f_next_fh s" using pending_bound [OF ok [OF nth_mem [OF j(1)]]] by blast
    with call_pending [OF st fh] have "pending_handle (ca_phase ?th) = Some fh" by auto
    with apart [OF j(1) go(1) j(2) p] show False by blast
  qed
  have "handles_apart ?cs"
    unfolding handles_apart_def
  proof (intro allI impI)
    fix j l fh
    assume "j < length ?cs" "l < length ?cs" "j \<noteq> l" "pending_handle (ca_phase (?cs ! j)) = Some fh"
    then show "pending_handle (ca_phase (?cs ! l)) \<noteq> Some fh"
      using new [of j fh] new [of l fh] apart [of j l fh] go(1) by (cases "j = i"; cases "l = i") auto
  qed
  ultimately show ?case using K u by (simp add: mount_inv_def)
next
  case (under m c c' cs)
  then have up: "up_inv F base cap g c" by (simp add: mount_inv_def)
  then have "evolves {} (snd (snd c)) (snd (snd c'))" using evolves_under under by blast
  then show ?case
    using under up_inv_step [OF under(1) up] phase_ok_evolves by (fastforce simp: mount_inv_def)
qed

interpretation interleaved: labelled_machine "mount_step F C base" "mount_inv F base cap g" for F C base cap g
  by unfold_locales (rule mount_inv_step)

section \<open>No handle is uploaded twice\<close>

definition under_moves :: "mount_move list \<Rightarrow> up_move list" where
  "under_moves ms = List.map_filter (\<lambda>m. case m of Under u \<Rightarrow> Some u | _ \<Rightarrow> None) ms"

definition sent :: "mount_move list \<Rightarrow> nat list" where
  "sent ms = submitted (under_moves ms)"

lemma sent_snoc: "sent (ms @ [m]) = sent ms @ (case m of Under u \<Rightarrow> submitted [u] | _ \<Rightarrow> [])"
  by (cases m) (simp_all add: sent_def under_moves_def submitted_def List.map_filter_def)

text \<open>A handle that was sent is done, and no callback is about to store a buffer for it.\<close>

definition spent :: "'w mount \<Rightarrow> nat \<Rightarrow> bool" where
  "spent c fh \<longleftrightarrow> handle_done (snd (snd (snd c))) fh
     \<and> (\<forall>th \<in> set (fst c). pending_handle (ca_phase th) \<noteq> Some fh)"

lemma spent_step:
  assumes "mount_step F C base m c c'" and "mount_inv F base cap g c" and "spent c fh"
  shows "spent c' fh"
  using assms
proof (induction rule: mount_step.induct)
  case (call op cs c)
  then show ?case by (auto simp: spent_def)
next
  case (go i cs s ph s' u ts)
  let ?th = "cs ! i"
  obtain us k where u: "u = (us, k)" by (rule prod.exhaust)
  have st: "op_phase_step F (ca_op ?th) (ca_phase ?th) s = (ph, s')" using go(2) by (simp add: call_step_iff)
  have up: "up_inv F base cap g ((us, k), (ts, s))" and ok: "phase_ok s (ca_op ?th) (ca_phase ?th)"
    using go(1,3) u by (simp_all add: mount_inv_def)
  have d: "handle_done s fh" "pending_handle (ca_phase ?th) \<noteq> Some fh" using go(1,4) by (auto simp: spent_def)
  then have "handle_done s' fh"
    using up_inv_call [OF up st ok] inserts_pending evolves_done by blast
  moreover have "pending_handle ph \<noteq> Some fh"
    using call_pending [OF st] d by (auto simp: handle_done_def)
  ultimately show ?case
    using go(4) set_update_subset_insert by (fastforce simp: spent_def)
next
  case (under m c c' cs)
  then show ?case
    using evolves_under [OF under(1,2)] evolves_done by (fastforce simp: spent_def mount_inv_def)
qed

lemma sent_step:
  assumes st: "mount_step F C base (Under u) c c'" and i: "mount_inv F base cap g c" and fh: "fh \<in> set (submitted [u])"
  shows "\<not> spent c fh \<and> spent c' fh"
  using st
proof (cases rule: mount_step.cases)
  case (under d d' cs)
  have up: "up_inv F base cap g d" using i under(1) by (simp add: mount_inv_def)
  note S = up_step_submitted [OF under(3) up fh]
  obtain op where "u = Submit op"
    using fh by (cases u) (auto simp: submitted_def List.map_filter_simps)
  with under(3) obtain us k ts s th s' where d: "d = ((us, k), (ts, s))" "start_upload op s = Some (th, s')"
    by (auto elim: up_step.cases)
  from start_upload_frame [OF d(2)] obtain h b where h: "f_buffers s h = Some b" "uploads_handle op s = Some h" by blast
  have "fh = h"
    using fh h(2) \<open>u = Submit op\<close> by (auto simp: submitted_def uploads_handle_def List.map_filter_simps
        split: fs_op.splits option.splits if_splits)
  then have "pending_handle (ca_phase th) \<noteq> Some fh" if "th \<in> set cs" for th
    using pending_bound [of s "ca_op th" "ca_phase th" fh] i that h(1) under(1) d(1) by (auto simp: mount_inv_def)
  then show ?thesis using S under(1,2) by (simp add: spent_def)
qed

lemma run_sent:
  assumes "runs (mount_step F C base) ms c d" and "mount_inv F base cap g c"
  shows "distinct (sent ms) \<and> (\<forall>fh \<in> set (sent ms). spent d fh)"
  using assms
proof (induction rule: runs.induct)
  case (runs_snoc ms c d m e)
  have i: "mount_inv F base cap g d" using interleaved.runs_keep runs_snoc by blast
  have old: "\<forall>fh \<in> set (sent ms). spent d fh \<and> spent e fh"
    using runs_snoc spent_step [OF runs_snoc(2) i] by blast
  show ?case
  proof (cases m)
    case (Under u)
    then have "\<forall>fh \<in> set (submitted [u]). \<not> spent d fh \<and> spent e fh"
      using sent_step runs_snoc(2) i by blast
    then show ?thesis using old runs_snoc Under by (auto simp: sent_snoc submitted_one)
  qed (use old runs_snoc in \<open>simp_all add: sent_snoc\<close>)
qed (simp add: sent_def under_moves_def submitted_def List.map_filter_simps)

section \<open>Work and progress\<close>

definition own_move :: "mount_move \<Rightarrow> bool" where
  "own_move m = (case m of Call _ \<Rightarrow> False | Go _ \<Rightarrow> True | Under u \<Rightarrow> thread_move u)"

definition phase_left :: "fs_op \<Rightarrow> call_phase \<Rightarrow> nat" where
  "phase_left op ph = (case ph of
     PStart \<Rightarrow> 5 | PClone _ _ \<Rightarrow> 4 | PFailed _ \<Rightarrow> 3 | PWalk _ \<Rightarrow> 3 | PFind \<Rightarrow> 2 | PParent _ \<Rightarrow> 1
   | PAttr _ \<Rightarrow> 1 | PPeek _ \<Rightarrow> 4 | PDelete _ _ \<Rightarrow> 3 | PUncache _ _ \<Rightarrow> 2
   | PEdit _ \<Rightarrow> (case op of Mkdir _ _ \<Rightarrow> 2 | _ \<Rightarrow> 1)
   | PFresh _ _ \<Rightarrow> (case op of Open _ _ \<Rightarrow> 3 | _ \<Rightarrow> 4)
   | PMake _ _ \<Rightarrow> 3 | PInsert _ _ \<Rightarrow> 2 | PTrunc _ \<Rightarrow> 1 | PCreated _ _ \<Rightarrow> 1 | PBuffer \<Rightarrow> 3 | PSize _ _ \<Rightarrow> 2
   | PDone _ \<Rightarrow> 0)"

definition call_left :: "call \<Rightarrow> nat" where
  "call_left th = phase_left (ca_op th) (ca_phase th)"

definition mount_todo :: "'w mount \<Rightarrow> nat" where
  "mount_todo c = sum_list (map call_left (fst c)) + todo (snd c)"

definition mount_budget :: "'w mount \<Rightarrow> nat" where
  "mount_budget c = 5 * length (fst c) + budget (snd c)"

lemma op_phase_step_left:
  "\<forall>r. ph \<noteq> PDone r \<Longrightarrow> phase_left op (fst (op_phase_step F op ph s)) < phase_left op ph"
  by (cases op; cases ph)
    (simp_all add: op_phase_step_def op_step_defs phase_left_def Let_def case_prod_beta
      split: option.split sum.split lazy_dir.split tree_node.split file_content.split)

lemma call_step_left:
  assumes "call_step F th s = Some (ph, s')"
  shows "call_left (th\<lparr>ca_phase := ph\<rparr>) < call_left th"
proof -
  have st: "op_phase_step F (ca_op th) (ca_phase th) s = (ph, s')" "\<forall>r. ca_phase th \<noteq> PDone r"
    using assms by (simp_all add: call_step_iff)
  then show ?thesis using op_phase_step_left [of "ca_phase th" "ca_op th" F s] by (simp add: call_left_def)
qed

lemma mount_step_todo:
  assumes "mount_step F C base m c c'"
  shows "mount_todo c' + of_bool (own_move m) + mount_budget c \<le> mount_todo c + mount_budget c'"
  using assms
proof (induction rule: mount_step.induct)
  case (call op cs c)
  then show ?case by (simp add: mount_todo_def mount_budget_def own_move_def call_left_def phase_left_def)
next
  case (go i cs s ph s' u ts)
  let ?th = "(cs ! i)\<lparr>ca_phase := ph\<rparr>"
  have "map call_left (cs[i := ?th]) = (map call_left cs)[i := call_left ?th]" by (simp add: map_update)
  moreover have "call_left (cs ! i) \<le> sum_list (map call_left cs)"
    using go(1) by (intro member_le_sum_list) auto
  ultimately have "sum_list (map call_left (cs[i := ?th])) < sum_list (map call_left cs)"
    using go(1) call_step_left [OF go(2)] by (simp add: sum_list_update)
  then show ?case
    by (simp add: mount_todo_def mount_budget_def own_move_def todo_def budget_def work_left_def)
next
  case (under m c c' cs)
  then show ?case
    using up_step_todo [OF under(1)] by (simp add: mount_todo_def mount_budget_def own_move_def)
qed

lemma mount_run_todo:
  "runs (mount_step F C base) ms c d \<Longrightarrow>
     mount_todo d + length (filter own_move ms) + mount_budget c \<le> mount_todo c + mount_budget d"
proof (induction rule: runs.induct)
  case (runs_snoc ms c d m e)
  with mount_step_todo [OF runs_snoc(2)] show ?case by auto
qed simp

definition settled :: "'w mount \<Rightarrow> bool" where
  "settled c \<longleftrightarrow> list_all (\<lambda>th. \<exists>r. ca_phase th = PDone r) (fst c) \<and> idle (snd c)"

text \<open>A callback never waits; so if nothing can go on, everything is done.\<close>

lemma mount_step_progress:
  assumes i: "mount_inv F base cap g (cs, (u, (ts, s)))" and cap: "0 < cap" and n: "\<not> settled (cs, (u, (ts, s)))"
  shows "\<exists>m c. own_move m \<and> mount_step F C base m (cs, (u, (ts, s))) c"
proof (cases "list_all (\<lambda>th. \<exists>r. ca_phase th = PDone r) cs")
  case False
  then obtain j where j: "j < length cs" "\<forall>r. ca_phase (cs ! j) \<noteq> PDone r" by (auto simp: list_all_length)
  obtain ph s' where "op_phase_step F (ca_op (cs ! j)) (ca_phase (cs ! j)) s = (ph, s')" by (rule prod.exhaust)
  with j have "call_step F (cs ! j) s = Some (ph, s')" by (simp add: call_step_iff)
  from go [OF j(1) this, of C base u ts] show ?thesis
    by (intro exI [of _ "Go j"] exI conjI [rotated], assumption) (simp add: own_move_def)
next
  case True
  then have "\<not> idle (u, (ts, s))" using n by (simp add: settled_def)
  moreover obtain us k where u: "u = (us, k)" by (rule prod.exhaust)
  ultimately obtain m c where m: "thread_move m" "up_step F C base m (u, (ts, s)) c"
    using up_step_progress [of F base cap g us k ts s C] i cap by (auto simp: mount_inv_def)
  then have "uncut m" by (cases m) (auto simp: thread_move_def uncut_def)
  from under [OF m(2) this] have "mount_step F C base (Under m) (cs, (u, (ts, s))) (cs, c)" .
  moreover have "own_move (Under m)" using m(1) by (simp add: own_move_def)
  ultimately show ?thesis by blast
qed

text \<open>C12. Concurrency of the whole mount.  Any number of callbacks, each cut at its locks,
  uploads, remote reads and control commands run at once, arriving at any time and interleaved in
  any way.  Throughout, the mount stays well formed and its cache sound; every answer a read has
  given is a slice of data with the hash its file had, or a partial answer of the server for its
  range; at most as many uploads as the semaphore has permits talk to the server at once, and the
  gauge counts the uploads in flight; no handle is uploaded twice; a callback takes at most five
  steps, an upload six, a read five; as long as one of them is unfinished some one can go on; and
  when all are done every permit is back, the gauge is where it was and no fetch claim is left.\<close>

theorem interleaved_calls:
  assumes "fs_inv F s0" and "f_cache_base s0 = Some base" and cap: "0 < cap"
    and run: "runs (mount_step F C base) ms ([], (([], cap), ([], s0))) (cs, ((us, k), (ts, s)))"
  shows "fs_inv F (with_claims {} s) \<and> list_all (answer_ok F) ts
    \<and> in_phase holds us \<le> cap
    \<and> active_uploads (f_metrics s) = active_uploads (f_metrics s0) + int (in_phase active us)
    \<and> distinct (sent ms)
    \<and> length (filter own_move ms) \<le> 5 * length cs + 6 * length us + 5 * length ts
    \<and> (if settled (cs, ((us, k), (ts, s)))
       then k = cap \<and> active_uploads (f_metrics s) = active_uploads (f_metrics s0) \<and> f_fetching s = {}
       else \<exists>m c. own_move m \<and> mount_step F C base m (cs, ((us, k), (ts, s))) c)"
proof -
  let ?g = "active_uploads (f_metrics s0)" and ?c = "(cs, ((us, k), (ts, s)))"
  have 0: "mount_inv F base cap ?g ([], (([], cap), ([], s0)))"
    using up_inv_start [OF assms(1,2)] by (simp add: mount_inv_def handles_apart_def)
  from interleaved.runs_keep [OF run 0] have i: "mount_inv F base cap ?g ?c" .
  then have up: "up_inv F base cap ?g ((us, k), (ts, s))" by (simp add: mount_inv_def)
  have "k = cap \<and> active_uploads (f_metrics s) = ?g \<and> f_fetching s = {}" if "settled ?c"
    using idle_restores [OF up] that by (simp add: settled_def)
  then show ?thesis
    using up mount_step_progress [OF i cap, of C] run_sent [OF run 0] mount_run_todo [OF run]
    by (auto simp: up_inv_def sys_inv_def mount_todo_def mount_budget_def todo_def budget_def work_left_def)
qed

end
