(* ===== verification/Bfs_Freeze.thy ===== *)
theory Bfs_Freeze
  imports Bfs_Interleave
begin

text \<open>
  Freezing a mount that is in use: what the freeze command of the control socket promises when
  callbacks are under way, and what it does not.  Concrete runs of the interleaved mount.
\<close>

section \<open>The flag\<close>

definition unfreezes :: "control_env \<Rightarrow> mount_move \<Rightarrow> bool" where
  "unfreezes C m = (case m of
     Under (Base (Other (Command line))) \<Rightarrow> ce_parse C (str_trim line) = Inr ''unfreeze'' | _ \<Rightarrow> False)"

lemma full_fetch_frozen: "full_fetch F url sha base s = (r, s') \<Longrightarrow> f_frozen s' = f_frozen s"
  by (auto simp: full_fetch_def Let_def put_host_def split: prod.splits sum.splits)

lemma finish_read_frozen:
  "finish_read F ino sha base off sz d s = (r, s') \<Longrightarrow> f_frozen s' = f_frozen s"
  by (auto simp: finish_read_def Let_def unclaim_def split: prod.splits option.splits if_splits)

lemma fetch_remote_frozen:
  "fetch_remote F ino url sha base off sz s = (r, s') \<Longrightarrow> f_frozen s' = f_frozen s"
  by (auto simp: fetch_remote_def Let_def put_host_def unclaim_def
      dest!: full_fetch_frozen finish_read_frozen split: prod.splits sum.splits option.splits)

lemma reader_step_frozen: "reader_step F base th s = Some (ph, s') \<Longrightarrow> f_frozen s' = f_frozen s"
  by (cases "rd_phase th")
    (auto simp: reader_step_def unclaim_def dest!: fetch_remote_frozen
      split: if_splits option.splits sum.splits prod.splits)

lemma uncut_event_frozen:
  assumes "other_event ev" and "quiet (Other ev) s" and "uncut (Base (Other ev))"
  shows "f_frozen (event_step F C ev s) = flag_after C ev (f_frozen s)"
proof (cases ev)
  case (Callback op)
  then show ?thesis
    using assms
    by (cases op)
      (auto simp: other_event_def quiet_def uncut_def cut_def event_step_def fs_exec_def fs_step_def op_getattr_def
        op_statfs_def op_refused_def op_rename_def op_link_def op_fsync_def op_getxattr_def op_listxattr_def
        op_flush_def op_release_def start_upload_def unsent_def flag_after_def Let_def
        split: option.splits if_splits)
next
  case (Command line)
  then show ?thesis by (simp add: event_step_def handle_command_frame)
qed

lemma up_step_frozen:
  assumes "up_step F C base m c c'" and "uncut m" and "f_frozen (snd (snd c))" and "\<not> unfreezes C (Under m)"
  shows "f_frozen (snd (snd c'))"
  using assms
proof (induction rule: up_step.induct)
  case (submit op s th s' us k ts)
  then show ?case using start_upload_frame [OF submit(1)] by auto
next
  case (advance i us k s ph k' s' ts)
  then show ?case using uploader_step_frame [OF advance(2)] by auto
next
  case (base_move m c c' u)
  from base_move(1) show ?case
  proof (cases rule: sys_step.cases)
    case read_move
    then show ?thesis
      using base_move(4) by (auto elim!: conc_step.cases dest: reader_step_frozen)
  next
    case (other ev ts s)
    then show ?thesis
      using base_move uncut_event_frozen [of ev s F C]
      by (auto simp: flag_after_def unfreezes_def split: mount_event.splits sum.splits)
  qed (use base_move in simp)
qed

lemma mount_step_frozen:
  assumes "mount_step F C base m c c'" and "f_frozen (snd (snd (snd c)))" and "\<not> unfreezes C m"
  shows "f_frozen (snd (snd (snd c')))"
  using assms
proof (induction rule: mount_step.induct)
  case (go i cs s ph s' u ts)
  then show ?case by (auto simp: call_step_iff dest: call_frame)
next
  case (under m c c' cs)
  then show ?case using up_step_frozen [OF under(1,2)] by simp
qed simp

section \<open>Callbacks that arrive after the freeze\<close>

text \<open>Not started, or refused.\<close>

definition held :: "call \<Rightarrow> bool" where
  "held th \<longleftrightarrow> (changes_content (ca_op th) \<longrightarrow>
     cut (ca_op th) \<and> (ca_phase th = PStart \<or> ca_phase th = PDone (Some (RpError EROFS))))"

lemma frozen_start:
  assumes "f_frozen s" and "cut (ca_op th)" and "changes_content (ca_op th)" and "ca_phase th = PStart"
  shows "call_step F th s = Some (PDone (Some (RpError EROFS)), s)"
  using assms
  by (cases "ca_op th")
    (simp_all add: cut_def changes_content_def call_step_def op_phase_step_def op_step_defs locked_def)

lemma held_step:
  assumes "mount_step F C base m c c'" and "f_frozen (snd (snd (snd c)))"
    and "\<forall>i. n \<le> i \<and> i < length (fst c) \<longrightarrow> held (fst c ! i)"
  shows "\<forall>i. n \<le> i \<and> i < length (fst c') \<longrightarrow> held (fst c' ! i)"
  using assms
proof (induction rule: mount_step.induct)
  case (call op cs c)
  then show ?case by (auto simp: nth_append held_def)
next
  case (go i cs s ph s' u ts)
  have "held ((cs ! i)\<lparr>ca_phase := ph\<rparr>)" if h: "held (cs ! i)"
    using h go(1,2,3) frozen_start [of s "cs ! i" F] by (auto simp: held_def call_step_iff)
  then show ?case using go(1,4) by (simp add: nth_list_update)
qed simp

section \<open>Callbacks that were under way\<close>

definition early :: "nat \<Rightarrow> mount_move \<Rightarrow> bool" where
  "early n m = (case m of Go i \<Rightarrow> i < n | _ \<Rightarrow> False)"

lemma early_step:
  assumes "mount_step F C base m c c'" and "n \<le> length (fst c)"
  shows "sum_list (map call_left (take n (fst c'))) + of_bool (early n m) \<le> sum_list (map call_left (take n (fst c)))
    \<and> n \<le> length (fst c')"
  using assms
proof (induction rule: mount_step.induct)
  case (go i cs s ph s' u ts)
  let ?th = "(cs ! i)\<lparr>ca_phase := ph\<rparr>"
  show ?case
  proof (cases "i < n")
    case True
    have "map call_left (take n (cs[i := ?th])) = (map call_left (take n cs))[i := call_left ?th]"
      by (simp add: take_update_swap map_update)
    moreover have "take n cs ! i \<in> set (take n cs)" using go(1) True by (intro nth_mem) simp
    then have "call_left (cs ! i) \<le> sum_list (map call_left (take n cs))"
      using True by (intro member_le_sum_list) simp_all
    ultimately have "sum_list (map call_left (take n (cs[i := ?th]))) < sum_list (map call_left (take n cs))"
      using go(1,3) True call_step_left [OF go(2)] by (simp add: sum_list_update)
    then show ?thesis using go(3) by (simp add: early_def)
  qed (use go(3) in \<open>simp add: early_def\<close>)
qed (simp_all add: early_def)

lemma early_run:
  assumes "runs (mount_step F C base) ms c d" and "n \<le> length (fst c)"
  shows "sum_list (map call_left (take n (fst d))) + length (filter (early n) ms)
      \<le> sum_list (map call_left (take n (fst c))) \<and> n \<le> length (fst d)"
  using assms
proof (induction rule: runs.induct)
  case (runs_snoc ms c d m e)
  with early_step [OF runs_snoc(2), of n] show ?case by (auto split: if_splits)
qed simp

lemma call_left_max: "call_left th \<le> 5"
  by (simp add: call_left_def phase_left_def split: call_phase.split fs_op.split)

lemma calls_left_max: "sum_list (map call_left cs) \<le> 5 * length cs"
  using call_left_max by (induction cs) (auto intro: add_mono)


section \<open>Concrete runs\<close>

abbreviation demo_start :: "request list mount" where
  "demo_start \<equiv> ([], (([], 1), ([], demo_mount)))"

abbreviation demo_step :: "mount_move \<Rightarrow> request list mount \<Rightarrow> request list mount \<Rightarrow> bool" where
  "demo_step \<equiv> mount_step demo_fs_env demo_control [''c'']"

lemma demo_base: "f_cache_base demo_mount = Some [''c'']" "\<not> f_read_only demo_mount" "\<not> f_frozen demo_mount"
    "f_tree demo_mount = new_tree"
  by (simp_all add: demo_mount_def fs_new_rw_def fs_new_def)

text \<open>A \<open>mkdir\<close> arrives and passes its check; then the mount is frozen.\<close>

abbreviation frozen_demo :: "request list fs" where
  "frozen_demo \<equiv> demo_mount\<lparr>f_frozen := True\<rparr>"

abbreviation checked :: "string \<Rightarrow> call" where
  "checked nm \<equiv> \<lparr>ca_op = Mkdir 1 (Some nm), ca_phase = PEdit nm\<rparr>"

lemma demo_arrives: "demo_step (Call (Mkdir 1 (Some ''d''))) demo_start
    ([\<lparr>ca_op = Mkdir 1 (Some ''d''), ca_phase = PStart\<rparr>], (([], 1), ([], demo_mount)))"
  using call [of "Mkdir 1 (Some ''d'')" demo_fs_env demo_control "[''c'']" "[]"] by (simp add: cut_def)

lemma demo_checks: "demo_step (Go 0) ([\<lparr>ca_op = Mkdir 1 (Some ''d''), ca_phase = PStart\<rparr>], (([], 1), ([], demo_mount)))
    ([checked ''d''], (([], 1), ([], demo_mount)))"
proof -
  have "call_step demo_fs_env ([\<lparr>ca_op = Mkdir 1 (Some ''d''), ca_phase = PStart\<rparr>] ! 0) demo_mount
      = Some (PEdit ''d'', demo_mount)"
    using demo_base by (simp add: call_step_def op_phase_step_def mkdir_step_def start_named_def locked_def)
  from go [OF _ this] show ?thesis by simp
qed

lemma demo_freezes: "demo_step (Under (Base (Other (Command ''freeze'')))) ([checked ''d''], (([], 1), ([], demo_mount)))
    ([checked ''d''], (([], 1), ([], frozen_demo)))"
proof -
  have t: "str_trim ''freeze'' = ''freeze''"
    by (rule str_trim_alnum) (simp add: is_ascii_alnum_def is_ascii_digit_def of_char_of)
  have "event_step demo_fs_env demo_control (Command ''freeze'') demo_mount = frozen_demo"
    by (simp add: event_step_def handle_command_def demo_control_def t)
  then have "sys_step demo_fs_env demo_control [''c''] (Other (Command ''freeze'')) ([], demo_mount) ([], frozen_demo)"
    using other [of "Command ''freeze''" demo_fs_env demo_control "[''c'']" "[]" demo_mount] by (simp add: other_event_def)
  from base_move [OF this, of "([], 1)"] show ?thesis
    by (intro under) (simp_all add: quiet_def uncut_def)
qed

lemma demo_edits: "\<exists>ino t. demo_step (Go 0) ([checked ''d''], (([], 1), ([], frozen_demo)))
      ([\<lparr>ca_op = Mkdir 1 (Some ''d''), ca_phase = PAttr ino\<rparr>], (([], 1), ([], frozen_demo\<lparr>f_tree := t\<rparr>)))
    \<and> lookup t 1 ''d'' = Some 2"
proof -
  obtain ino t where a: "add_directory new_tree 1 ''d'' = (ino, t)" by (rule prod.exhaust)
  have "lookup (snd (add_directory new_tree 1 ''d'')) 1 ''d'' = Some 2" "is_dir new_tree 1" "lookup new_tree 1 ''d'' = None"
    by code_simp+
  moreover from this have "call_step demo_fs_env ([checked ''d''] ! 0) frozen_demo = Some (PAttr ino, frozen_demo\<lparr>f_tree := t\<rparr>)"
    using demo_base a by (simp add: call_step_def op_phase_step_def mkdir_step_def)
  from go [OF _ this, of demo_control "[''c'']" "([], 1)" "[]"] a calculation show ?thesis
    by (intro exI [of _ ino] exI [of _ t]) simp
qed

theorem interleaved_calls_witness:
  "\<exists>cs us k ts s. runs demo_step [Call (Mkdir 1 (Some ''d''))] demo_start (cs, ((us, k), (ts, s)))
    \<and> \<not> settled (cs, ((us, k), (ts, s)))
    \<and> (\<exists>m c. own_move m \<and> demo_step m (cs, ((us, k), (ts, s))) c)"
proof -
  let ?c = "[\<lparr>ca_op = Mkdir 1 (Some ''d''), ca_phase = PStart\<rparr>]"
  from runs_snoc [of demo_step, OF runs_nil demo_arrives]
  have r: "runs demo_step [Call (Mkdir 1 (Some ''d''))] demo_start (?c, (([], 1), ([], demo_mount)))" by simp
  have "\<not> settled (?c, (([], 1), ([], demo_mount)))" by (simp add: settled_def)
  with interleaved_calls [OF demo_mount_inv demo_base(1) zero_less_one r] show ?thesis
    using r by (intro exI [of _ ?c] exI [of _ "[]"] exI [of _ 1] exI [of _ demo_mount]) simp
qed


section \<open>Two defects\<close>

text \<open>The freeze command answers without waiting for the callbacks under way: the \<open>mkdir\<close> that had
  passed its check changes the tree of the mount that has been reported frozen.\<close>

lemma freeze_does_not_wait:
  "\<exists>c d. runs demo_step [Call (Mkdir 1 (Some ''d'')), Go 0, Under (Base (Other (Command ''freeze'')))] demo_start c
    \<and> f_frozen (snd (snd (snd c))) \<and> lookup (f_tree (snd (snd (snd c)))) 1 ''d'' = None
    \<and> demo_step (Go 0) c d \<and> f_frozen (snd (snd (snd d))) \<and> lookup (f_tree (snd (snd (snd d)))) 1 ''d'' = Some 2"
proof -
  from runs_snoc [of demo_step, OF runs_snoc [of demo_step, OF runs_snoc [of demo_step, OF runs_nil demo_arrives] demo_checks] demo_freezes]
  have r: "runs demo_step [Call (Mkdir 1 (Some ''d'')), Go 0, Under (Base (Other (Command ''freeze'')))] demo_start
      ([checked ''d''], (([], 1), ([], frozen_demo)))" by simp
  obtain ino t where e: "demo_step (Go 0) ([checked ''d''], (([], 1), ([], frozen_demo)))
      ([\<lparr>ca_op = Mkdir 1 (Some ''d''), ca_phase = PAttr ino\<rparr>], (([], 1), ([], frozen_demo\<lparr>f_tree := t\<rparr>)))"
    and t: "lookup t 1 ''d'' = Some 2"
    using demo_edits by blast
  have "lookup new_tree 1 ''d'' = None" by code_simp
  then show ?thesis
    using r e t demo_base by (intro exI conjI) (assumption | simp)+
qed

text \<open>The lazy content of a directory is taken before it is cloned.  A second lookup or listing that
  comes while the first is cloning finds nothing to populate and an empty directory.\<close>

lemma update_node_same: "get t i = Some n \<Longrightarrow> update_node t i (\<lambda>_. n) = t"
  by (auto simp: update_node_def get_def split: if_splits)

lemma second_lookup_misses:
  assumes "get (f_tree s) p = Some (Directory i nm [] pa (Some (GitRepo url path)))"
  shows "\<exists>s'. call_step F \<lparr>ca_op = Lookup p (Some a), ca_phase = PStart\<rparr> s = Some (PClone url path, s')
    \<and> call_run 5 F \<lparr>ca_op = Lookup p (Some b), ca_phase = PStart\<rparr> s' = Some (Some (RpError ENOENT), s')"
proof -
  let ?d = "Directory i nm [] pa None"
  let ?s = "s\<lparr>f_tree := update_node (f_tree s) p (\<lambda>_. ?d)\<rparr>"
  have g: "get (f_tree ?s) p = Some ?d" using assms by (simp add: get_update_node)
  have "take_lazy (f_tree ?s) p = (None, update_node (f_tree ?s) p (\<lambda>_. ?d))"
    using g by (simp add: take_lazy_def)
  also have "update_node (f_tree ?s) p (\<lambda>_. ?d) = f_tree ?s"
    by (rule update_node_same [OF g])
  finally have "populate_if_lazy F p ?s = ?s" by (simp add: populate_if_lazy_def)
  moreover have "lookup (f_tree ?s) p b = None" using g by (simp add: lookup_def)
  ultimately have "fs_step F (Lookup p (Some b)) ?s = Some (RpError ENOENT, ?s)"
    by (simp add: fs_step_def op_lookup_def Let_def)
  then have "call_run 5 F \<lparr>ca_op = Lookup p (Some b), ca_phase = PStart\<rparr> ?s = Some (Some (RpError ENOENT), ?s)"
    using lookup_alone [of F p "Some b" ?s] by (simp add: fs_result_def)
  moreover have "call_step F \<lparr>ca_op = Lookup p (Some a), ca_phase = PStart\<rparr> s = Some (PClone url path, ?s)"
    using assms by (simp add: call_step_def op_phase_step_def lookup_step_def populate_step_def take_lazy_def)
  ultimately show ?thesis by blast
qed

end
