(* ===== verification/Bfs_Nostr.thy ===== *)
theory Bfs_Nostr
  imports Bfs_Tree_Ext
begin

text \<open>
  Reading Nostr events: server discovery (\<open>src/nostr/discovery.rs\<close>), keys
  (\<open>src/nostr/keys.rs\<close>), legacy drives (\<open>src/nostr/legacy_drive.rs\<close>), file metadata
  (\<open>src/nostr/nip94.rs\<close>) and TollGate releases (\<open>src/nostr/tollgate.rs\<close>).  Key parsing and
  the relays belong to \<open>nostr_sdk\<close>: a key is its canonical hex form, and the relays are one
  function from a filter to an answer.
\<close>

section \<open>Events and relays\<close>

record event =
  ev_kind :: nat
  ev_tags :: "string list list"
  ev_content :: string
  ev_id :: string
  ev_pubkey :: string
  ev_created :: nat

record event_filter =
  ef_kinds :: "nat list"
  ef_author :: "string option"
  ef_limit :: "nat option"

record nostr_env =
  ne_from_hex :: "string \<Rightarrow> string option"
  ne_from_bech32 :: "string \<Rightarrow> string option"
  ne_keys :: "string \<Rightarrow> string option"
  ne_read_file :: "fs_path \<Rightarrow> string option"
  ne_fetch :: "string list \<Rightarrow> event_filter \<Rightarrow> string + event list"

section \<open>Keys\<close>

datatype key_error = InvalidPublicKey | InvalidSecretKey | FileRead

definition parse_npub :: "nostr_env \<Rightarrow> string \<Rightarrow> key_error + string" where
  "parse_npub N npub = (case ne_from_bech32 N npub of None \<Rightarrow> Inl InvalidPublicKey | Some pk \<Rightarrow> Inr pk)"

definition parse_pubkey_hex :: "nostr_env \<Rightarrow> string \<Rightarrow> key_error + string" where
  "parse_pubkey_hex N hex = (case ne_from_hex N hex of None \<Rightarrow> Inl InvalidPublicKey | Some pk \<Rightarrow> Inr pk)"

definition parse_pubkey :: "nostr_env \<Rightarrow> string \<Rightarrow> key_error + string" where
  "parse_pubkey N input = (case parse_npub N input of Inr pk \<Rightarrow> Inr pk | Inl _ \<Rightarrow> parse_pubkey_hex N input)"

definition parse_nsec :: "nostr_env \<Rightarrow> string \<Rightarrow> key_error + string" where
  "parse_nsec N nsec = (case ne_keys N nsec of None \<Rightarrow> Inl InvalidSecretKey | Some k \<Rightarrow> Inr k)"

definition read_nsec_file :: "nostr_env \<Rightarrow> fs_path \<Rightarrow> key_error + string" where
  "read_nsec_file N path =
     (case ne_read_file N path of None \<Rightarrow> Inl FileRead | Some content \<Rightarrow> parse_nsec N (str_trim content))"

section \<open>Server discovery (kind 10063)\<close>

datatype discovery_error = DiscoveryClient string | NoServers | DiscoveryPubkey string

definition http_url :: "string \<Rightarrow> bool" where
  "http_url url \<longleftrightarrow> starts_with url ''http://'' \<or> starts_with url ''https://''"

definition extract_server_urls :: "(string \<times> string option) list \<Rightarrow> string list" where
  "extract_server_urls tags =
     filter http_url (List.map_filter snd (filter (\<lambda>(k, _). k = ''server'') tags))"

text \<open>\<open>Tag::kind\<close> and \<open>Tag::content\<close>.\<close>

definition tag_kind_content :: "string list \<Rightarrow> string \<times> string option" where
  "tag_kind_content t = (case t of [] \<Rightarrow> ([], None) | k # r \<Rightarrow> (k, case r of [] \<Rightarrow> None | c # _ \<Rightarrow> Some c))"

definition discover_servers ::
  "nostr_env \<Rightarrow> string list \<Rightarrow> string \<Rightarrow> discovery_error + string list" where
  "discover_servers N relays pubkey_hex =
     (case ne_from_hex N pubkey_hex of
        None \<Rightarrow> Inl (DiscoveryPubkey pubkey_hex)
      | Some pk \<Rightarrow>
          (case ne_fetch N relays \<lparr>ef_kinds = [10063], ef_author = Some pk, ef_limit = None\<rparr> of
             Inl e \<Rightarrow> Inl (DiscoveryClient e)
           | Inr events \<Rightarrow>
               let servers = extract_server_urls (map tag_kind_content (concat (map ev_tags events)))
               in if servers = [] then Inl NoServers else Inr servers))"

section \<open>Legacy drives (kind 30563)\<close>

record drive_file =
  df_sha256 :: string
  df_path :: string
  df_size :: "nat option"
  df_mime :: "string option"

datatype drive_entry = DriveFile drive_file | DriveFolder string

record parsed_drive =
  pd_id :: string
  pd_entries :: "drive_entry list"

datatype drive_error = DriveClient string | DrivePubkey string | NoDrives

definition parse_x_tag :: "string list \<Rightarrow> drive_file option" where
  "parse_x_tag tag =
     (if length tag < 3 then None
      else if tag ! 1 = [] \<or> tag ! 2 = [] then None
      else Some \<lparr>df_sha256 = tag ! 1, df_path = tag ! 2,
                 df_size = (if 3 < length tag then parse_u64 (tag ! 3) else None),
                 df_mime = (if 4 < length tag then Some (tag ! 4) else None)\<rparr>)"

definition drive_tag :: "parsed_drive \<Rightarrow> string list \<Rightarrow> parsed_drive" where
  "drive_tag d tag =
     (if tag = [] then d
      else if tag ! 0 = ''d'' \<and> 2 \<le> length tag then d\<lparr>pd_id := tag ! 1\<rparr>
      else if tag ! 0 = ''x'' then
        (case parse_x_tag tag of None \<Rightarrow> d | Some f \<Rightarrow> d\<lparr>pd_entries := pd_entries d @ [DriveFile f]\<rparr>)
      else if tag ! 0 = ''folder'' \<and> 2 \<le> length tag then
        d\<lparr>pd_entries := pd_entries d @ [DriveFolder (tag ! 1)]\<rparr>
      else d)"

definition parse_drive_from_tags :: "string list list \<Rightarrow> parsed_drive" where
  "parse_drive_from_tags tags = foldl drive_tag \<lparr>pd_id = ''default'', pd_entries = []\<rparr> tags"

definition fetch_drive_events ::
  "nostr_env \<Rightarrow> string list \<Rightarrow> string \<Rightarrow> drive_error + parsed_drive list" where
  "fetch_drive_events N relays pubkey_hex =
     (case ne_from_hex N pubkey_hex of
        None \<Rightarrow> Inl (DrivePubkey pubkey_hex)
      | Some pk \<Rightarrow>
          (case ne_fetch N relays \<lparr>ef_kinds = [30563], ef_author = Some pk, ef_limit = None\<rparr> of
             Inl e \<Rightarrow> Inl (DriveClient e)
           | Inr events \<Rightarrow>
               let drives = map (\<lambda>e. parse_drive_from_tags (ev_tags e)) events
               in if drives = [] then Inl NoDrives else Inr drives))"

section \<open>File metadata (NIP-94, kind 1063)\<close>

record file_meta =
  fm_sha256 :: "string option"
  fm_url :: "string option"
  fm_mime :: "string option"
  fm_size :: "nat option"
  fm_dim :: "string option"
  fm_blurhash :: "string option"
  fm_alt :: "string option"
  fm_filename :: "string option"

record nip94_record =
  nr_meta :: file_meta
  nr_tags :: "string list list"

datatype nip94_error = Nip94Client string | Nip94Pubkey string | NoEvents

definition meta_tag :: "file_meta \<Rightarrow> string list \<Rightarrow> file_meta" where
  "meta_tag m tag =
     (if length tag < 2 then m
      else
        let k = tag ! 0; v = Some (tag ! 1) in
        if k = ''x'' then m\<lparr>fm_sha256 := v\<rparr>
        else if k = ''ox'' \<and> fm_sha256 m = None then m\<lparr>fm_sha256 := v\<rparr>
        else if k = ''url'' then m\<lparr>fm_url := v\<rparr>
        else if k = ''m'' then m\<lparr>fm_mime := v\<rparr>
        else if k = ''size'' then m\<lparr>fm_size := parse_u64 (tag ! 1)\<rparr>
        else if k = ''dim'' then m\<lparr>fm_dim := v\<rparr>
        else if k = ''blurhash'' then m\<lparr>fm_blurhash := v\<rparr>
        else if k = ''alt'' then m\<lparr>fm_alt := v\<rparr>
        else if k = ''filename'' then m\<lparr>fm_filename := v\<rparr>
        else m)"

definition meta_empty :: file_meta where
  "meta_empty = \<lparr>fm_sha256 = None, fm_url = None, fm_mime = None, fm_size = None, fm_dim = None,
     fm_blurhash = None, fm_alt = None, fm_filename = None\<rparr>"

definition parse_nip94_from_tags :: "string list list \<Rightarrow> file_meta" where
  "parse_nip94_from_tags tags = foldl meta_tag meta_empty tags"

definition fetch_nip94_events ::
  "nostr_env \<Rightarrow> string list \<Rightarrow> string \<Rightarrow> nip94_error + nip94_record list" where
  "fetch_nip94_events N relays pubkey_hex =
     (case ne_from_hex N pubkey_hex of
        None \<Rightarrow> Inl (Nip94Pubkey pubkey_hex)
      | Some pk \<Rightarrow>
          (case ne_fetch N relays \<lparr>ef_kinds = [1063], ef_author = Some pk, ef_limit = Some 5000\<rparr> of
             Inl e \<Rightarrow> Inl (Nip94Client e)
           | Inr events \<Rightarrow>
               let records = map (\<lambda>e. \<lparr>nr_meta = parse_nip94_from_tags (ev_tags e), nr_tags = ev_tags e\<rparr>) events
               in if records = [] then Inl NoEvents else Inr records))"

section \<open>TollGate releases\<close>

record tollgate_release =
  tr_sha256 :: string
  tr_urls :: "string list"
  tr_filename :: string
  tr_size :: nat
  tr_namespace :: string
  tr_channel :: string
  tr_version :: string
  tr_architecture :: string
  tr_device_id :: "string option"
  tr_compression :: "string option"
  tr_format :: "string option"
  tr_mime :: "string option"

definition best_url :: "tollgate_release \<Rightarrow> string" where
  "best_url r =
     (case List.find (\<lambda>u. str_contains u ''primal.net'') (tr_urls r) of
        Some u \<Rightarrow> u
      | None \<Rightarrow>
          (case List.find (\<lambda>u. str_contains u ''orangesync.tech'') (tr_urls r) of
             Some u \<Rightarrow> u
           | None \<Rightarrow> (case tr_urls r of [] \<Rightarrow> [] | u # _ \<Rightarrow> u)))"

definition category_dir :: "tollgate_release \<Rightarrow> string" where
  "category_dir r =
     (if tr_namespace r = ''tollgate-os'' then ''os''
      else if tr_namespace r = ''tollgate-wrt'' then ''packages''
      else tr_namespace r)"

definition subdir :: "tollgate_release \<Rightarrow> string" where
  "subdir r = (case tr_device_id r of None \<Rightarrow> tr_architecture r | Some d \<Rightarrow> d)"

text \<open>The locals of \<open>parse_tollgate_release\<close>.\<close>

record release_vars =
  rv_urls :: "string list"
  rv_sha256 :: "string option"
  rv_filename :: "string option"
  rv_size :: nat
  rv_namespace :: "string option"
  rv_channel :: "string option"
  rv_version :: "string option"
  rv_architecture :: "string option"
  rv_device_id :: "string option"
  rv_compression :: "string option"
  rv_format :: "string option"
  rv_mime :: "string option"
  rv_tollgate :: bool

definition release_tag :: "release_vars \<Rightarrow> string list \<Rightarrow> release_vars" where
  "release_tag r tag =
     (if length tag < 2 then r
      else
        let k = tag ! 0; v = Some (tag ! 1) in
        if k = ''url'' then r\<lparr>rv_urls := rv_urls r @ [tag ! 1]\<rparr>
        else if k = ''x'' then r\<lparr>rv_sha256 := v\<rparr>
        else if k = ''ox'' \<and> rv_sha256 r = None then r\<lparr>rv_sha256 := v\<rparr>
        else if k = ''filename'' then r\<lparr>rv_filename := v\<rparr>
        else if k = ''size'' then r\<lparr>rv_size := (case parse_u64 (tag ! 1) of None \<Rightarrow> 0 | Some n \<Rightarrow> n)\<rparr>
        else if k = ''n'' then
          r\<lparr>rv_namespace := v, rv_tollgate := rv_tollgate r \<or> starts_with (tag ! 1) ''tollgate-''\<rparr>
        else if k = ''c'' then r\<lparr>rv_channel := v\<rparr>
        else if k = ''v'' then r\<lparr>rv_version := v\<rparr>
        else if k = ''A'' then r\<lparr>rv_architecture := v\<rparr>
        else if k = ''device_id'' then r\<lparr>rv_device_id := v\<rparr>
        else if k = ''compression'' then r\<lparr>rv_compression := v\<rparr>
        else if k = ''format'' then r\<lparr>rv_format := v\<rparr>
        else if k = ''m'' then r\<lparr>rv_mime := v\<rparr>
        else r)"

definition parse_tollgate_release :: "string list list \<Rightarrow> tollgate_release option" where
  "parse_tollgate_release tags =
     (let r = foldl release_tag \<lparr>rv_urls = [], rv_sha256 = None, rv_filename = None, rv_size = 0,
                rv_namespace = None, rv_channel = None, rv_version = None, rv_architecture = None,
                rv_device_id = None, rv_compression = None, rv_format = None, rv_mime = None,
                rv_tollgate = False\<rparr> tags
      in if \<not> rv_tollgate r then None
         else
           Option.bind (rv_sha256 r) (\<lambda>sha.
           Option.bind (rv_filename r) (\<lambda>fname.
           Option.bind (rv_namespace r) (\<lambda>ns.
           Option.bind (rv_channel r) (\<lambda>ch.
           Option.bind (rv_version r) (\<lambda>v.
           Option.bind (rv_architecture r) (\<lambda>arch.
             Some \<lparr>tr_sha256 = sha, tr_urls = rv_urls r, tr_filename = fname, tr_size = rv_size r,
                   tr_namespace = ns, tr_channel = ch, tr_version = v, tr_architecture = arch,
                   tr_device_id = rv_device_id r, tr_compression = rv_compression r,
                   tr_format = rv_format r, tr_mime = rv_mime r\<rparr>)))))))"

definition tollgate_step :: "nat \<Rightarrow> nat \<times> tree \<Rightarrow> tollgate_release \<Rightarrow> nat \<times> tree" where
  "tollgate_step tollgate_root s r =
     (case s of (count, t) \<Rightarrow>
        let (sub, t1) = dir_path t tollgate_root [category_dir r, tr_channel r, tr_version r, subdir r];
            url = best_url r
        in if url = [] then (count, t1)
           else (count + 1, snd (add_remote_file t1 sub (tr_filename r) url (tr_sha256 r) (tr_size r)
                                   (tr_mime r) 0 None)))"

definition build_tollgate_tree :: "tree \<Rightarrow> tollgate_release list \<Rightarrow> nat \<times> tree" where
  "build_tollgate_tree t releases =
     (if releases = [] then (0, t)
      else
        let (tollgate_root, t1) = add_directory t (root t) ''tollgate''
        in foldl (tollgate_step tollgate_root) (0, t1) releases)"

section \<open>Parsing laws\<close>

text \<open>Only http(s) URLs of \<open>server\<close> tags come out of discovery, and never none of them.\<close>

lemma discover_servers_urls:
  "discover_servers N relays pk = Inr servers \<Longrightarrow> servers \<noteq> [] \<and> list_all http_url servers"
  by (auto simp: discover_servers_def extract_server_urls_def Let_def list_all_iff
      split: option.splits sum.splits if_splits)

text \<open>A drive's entries are its \<open>x\<close> and \<open>folder\<close> tags, in order; its name is the last \<open>d\<close>
  tag's.\<close>

definition drive_entry_of :: "string list \<Rightarrow> drive_entry option" where
  "drive_entry_of tag =
     (case tag of
        k # v # _ \<Rightarrow> if k = ''x'' then map_option DriveFile (parse_x_tag tag)
                     else if k = ''folder'' then Some (DriveFolder v) else None
      | _ \<Rightarrow> None)"

lemma drive_tag_entries:
  "pd_entries (drive_tag d tag)
    = pd_entries d @ (case drive_entry_of tag of None \<Rightarrow> [] | Some e \<Rightarrow> [e])"
  by (cases tag; cases "tl tag")
    (auto simp: drive_tag_def drive_entry_of_def parse_x_tag_def split: option.split)

lemma drive_entries: "pd_entries (parse_drive_from_tags tags) = List.map_filter drive_entry_of tags"
proof -
  have "pd_entries (foldl drive_tag d tags) = pd_entries d @ List.map_filter drive_entry_of tags" for d
    by (induction tags arbitrary: d) (auto simp: drive_tag_entries List.map_filter_simps split: option.split)
  then show ?thesis by (simp add: parse_drive_from_tags_def)
qed

end
