(* ===== verification/Bfs_Grow.thy ===== *)
theory Bfs_Grow
  imports Bfs_Persist
begin

text \<open>
  Counting what tree builders add.  Every builder of the program (descriptor views, drives,
  NIP-94 metadata, TollGate releases, git repositories, virtual files) only adds nodes below
  nodes that exist.  \<open>adds k t t'\<close> says that \<open>t'\<close> comes from the well-formed tree \<open>t\<close> by
  such additions, \<open>k\<close> of them files, and still has everything \<open>t\<close> has; the laws below compose it along a builder, so that each
  builder's lemma is a case distinction over them.
\<close>

section \<open>Paths\<close>

text \<open>\<open>Path::join\<close> with a string: an absolute argument replaces the path; empty and \<open>.\<close>
  components vanish.\<close>

definition path_join :: "fs_path \<Rightarrow> string \<Rightarrow> fs_path" where
  "path_join base s =
     (let parts = filter (\<lambda>p. p \<noteq> [] \<and> p \<noteq> ''.'') (split_on (CHR ''/'') s)
      in if starts_with s ''/'' then ''/'' # parts else base @ parts)"

section \<open>Added files\<close>

definition file_node :: "tree_node \<Rightarrow> bool" where
  "file_node n \<longleftrightarrow> node_kind_of n = FileKind"

definition file_count :: "tree \<Rightarrow> nat" where
  "file_count t = length (filter file_node (nodes t))"

definition adds :: "nat \<Rightarrow> tree \<Rightarrow> tree \<Rightarrow> bool" where
  "adds k t t' \<longleftrightarrow> tree_wf t' \<and> root t' = root t \<and> node_count t \<le> node_count t'
     \<and> file_count t' = file_count t + k \<and> tree_ext t t'"

lemma adds_wf: "adds k t t' \<Longrightarrow> tree_wf t'"
  by (simp add: adds_def)

lemma adds_valid: "adds k t t' \<Longrightarrow> valid_ino t i \<Longrightarrow> valid_ino t' i"
  by (auto simp: adds_def valid_ino_def)

lemma adds_refl: "tree_wf t \<Longrightarrow> adds 0 t t"
  by (simp add: adds_def)

lemma adds_trans: "adds j a b \<Longrightarrow> adds k b c \<Longrightarrow> adds (j + k) a c"
  using tree_ext_trans by (auto simp: adds_def)

lemma adds_ext: "adds k t t' \<Longrightarrow> tree_ext t t'"
  by (simp add: adds_def)

lemma adds_cong: "adds j a b \<Longrightarrow> j = k \<Longrightarrow> adds k a b"
  by simp

text \<open>The same, whatever the number of files.\<close>

definition grows :: "tree \<Rightarrow> tree \<Rightarrow> bool" where
  "grows t t' \<longleftrightarrow> (\<exists>k. adds k t t')"

lemma adds_grows: "adds k t t' \<Longrightarrow> grows t t'"
  by (auto simp: grows_def)

lemma grows_refl: "tree_wf t \<Longrightarrow> grows t t"
  by (rule adds_grows [OF adds_refl])

lemma grows_trans: "grows a b \<Longrightarrow> grows b c \<Longrightarrow> grows a c"
  unfolding grows_def using adds_trans by blast

lemma grows_wf: "grows t t' \<Longrightarrow> tree_wf t'"
  unfolding grows_def using adds_wf by blast

lemma grows_valid: "grows t t' \<Longrightarrow> valid_ino t i \<Longrightarrow> valid_ino t' i"
  unfolding grows_def using adds_valid by blast

lemma grows_ext: "grows t t' \<Longrightarrow> tree_ext t t'"
  unfolding grows_def using adds_ext by blast

lemma grows_root: "grows t t' \<Longrightarrow> root t' = root t"
  by (auto simp: grows_def adds_def)

lemma file_node_simps [simp]:
  "file_node (Directory i nm cs p lz) = False" "file_node (File i nm p sz c u) = True"
  "file_node (link_child ch n) = file_node n"
  by (simp_all add: file_node_def node_kind_of_def link_child_def split: tree_node.split)

lemma filter_update_same:
  "P x = P (xs ! i) \<Longrightarrow> length (filter P (xs[i := x])) = length (filter P xs)"
proof (induction xs arbitrary: i)
  case (Cons a xs)
  then show ?case by (cases i) auto
qed simp

lemma file_count_update:
  "(\<And>n. get t p = Some n \<Longrightarrow> file_node (f n) = file_node n) \<Longrightarrow>
     file_count (update_node t p f) = file_count t"
  by (auto simp: update_node_def file_count_def get_def filter_update_same split: option.split if_splits)

lemma file_count_add_node:
  "file_count (snd (add_node t p mk)) = file_count t + (if file_node (mk (next_inode t)) then 1 else 0)"
proof -
  have "file_count (snd (add_node t p mk)) = file_count (t\<lparr>nodes := nodes t @ [mk (next_inode t)]\<rparr>)"
    by (simp add: add_node_def Let_def file_count_update)
  then show ?thesis by (simp add: file_count_def)
qed

lemmas adder_defs = add_directory_def add_lazy_dir_def add_file_to_dir_def add_static_file_def
  add_remote_file_def add_local_file_def

lemma adder_fst:
  "fst (add_directory t p nm) = next_inode t" "fst (add_lazy_dir t p nm lz) = next_inode t"
  by (simp_all add: adder_defs Let_def)

lemma add_dir_valid:
  "valid_ino (snd (add_directory t p nm)) (fst (add_directory t p nm))"
  "valid_ino (snd (add_lazy_dir t p nm lz)) (fst (add_lazy_dir t p nm lz))"
  by (simp_all add: adder_defs Let_def valid_ino_def next_inode_eq)

lemma adds_adders:
  assumes "tree_wf t" "valid_ino t p"
  shows "adds 0 t (snd (add_directory t p nm))" "adds 0 t (snd (add_lazy_dir t p nm lz))"
    "adds 1 t (snd (add_static_file now t p nm c))"
    "adds 1 t (snd (add_remote_file t p nm url sha sz mime up e))"
  using assms
  by (auto simp: adds_def tree_wf_add_directory tree_wf_add_lazy_dir tree_wf_add_static_file
      tree_wf_add_remote_file)
    (simp_all add: adder_defs Let_def file_count_add_node tree_ext_add_node_valid)

lemma adds_get_or_create:
  "tree_wf t \<Longrightarrow> valid_ino t p \<Longrightarrow> adds 0 t (snd (get_or_create_dir t p nm))"
  by (auto simp: get_or_create_dir_def adds_refl adds_adders split: option.split)

lemma adds_dir_path:
  "tree_wf t \<Longrightarrow> valid_ino t p \<Longrightarrow>
     adds 0 t (snd (dir_path t p ns)) \<and> valid_ino (snd (dir_path t p ns)) (fst (dir_path t p ns))"
proof (induction ns arbitrary: t p)
  case (Cons n ns)
  have a: "adds 0 t (snd (get_or_create_dir t p n))"
    using Cons.prems by (rule adds_get_or_create)
  have "adds 0 (snd (get_or_create_dir t p n))
      (snd (dir_path (snd (get_or_create_dir t p n)) (fst (get_or_create_dir t p n)) ns))"
    using Cons.IH [OF adds_wf [OF a] get_or_create_dir_valid(1) [OF Cons.prems]] by simp
  from adds_trans [OF a this] Cons.IH [OF adds_wf [OF a] get_or_create_dir_valid(1) [OF Cons.prems]]
  show ?case by (simp add: case_prod_beta)
qed (simp add: adds_refl)

section \<open>Builders\<close>

text \<open>
  A builder folds a step over its input and counts the files it adds.  The step may panic
  (\<open>None\<close>); \<open>ok\<close> is what it needs of the tree, kept by every addition.
\<close>

fun build_all :: "('a \<Rightarrow> 's \<Rightarrow> 's option) \<Rightarrow> 'a list \<Rightarrow> 's \<Rightarrow> 's option" where
  "build_all f [] s = Some s"
| "build_all f (x # xs) s = Option.bind (f x s) (build_all f xs)"

lemma build_all_total: "build_all (\<lambda>x s. Some (f s x)) xs s = Some (foldl f s xs)"
  by (induction xs arbitrary: s) auto

lemma build_all_defined:
  "(\<And>x s. x \<in> set xs \<Longrightarrow> f x s \<noteq> None) \<Longrightarrow> build_all f xs s \<noteq> None"
proof (induction xs arbitrary: s)
  case (Cons x xs)
  obtain s' where "f x s = Some s'"
    using Cons.prems [of x s] by auto
  with Cons show ?case by simp
qed simp

definition counted :: "nat \<times> tree \<Rightarrow> nat \<times> tree \<Rightarrow> bool" where
  "counted s s' \<longleftrightarrow> fst s \<le> fst s' \<and> adds (fst s' - fst s) (snd s) (snd s')"

lemma counted_refl: "tree_wf (snd s) \<Longrightarrow> counted s s"
  by (simp add: counted_def adds_refl)

lemma counted_trans: "counted a b \<Longrightarrow> counted b c \<Longrightarrow> counted a c"
  by (auto simp: counted_def intro: adds_trans [THEN adds_cong])

lemma counted_adds: "counted (c, t) (d, t') \<Longrightarrow> \<exists>k. d = c + k \<and> adds k t t'"
  by (auto simp: counted_def intro!: exI [of _ "d - c"])

lemma adds_counted: "adds k t t' \<Longrightarrow> d = c + k \<Longrightarrow> counted (c, t) (d, t')"
  by (simp add: counted_def)

locale counting_builder =
  fixes step :: "'a \<Rightarrow> nat \<times> tree \<Rightarrow> (nat \<times> tree) option"
    and ok :: "tree \<Rightarrow> bool"
  assumes step_counted: "tree_wf (snd s) \<Longrightarrow> ok (snd s) \<Longrightarrow> step x s = Some s' \<Longrightarrow> counted s s'"
    and ok_adds: "ok t \<Longrightarrow> adds k t t' \<Longrightarrow> ok t'"
begin

lemma build_counted:
  "tree_wf (snd s) \<Longrightarrow> ok (snd s) \<Longrightarrow> build_all step xs s = Some s' \<Longrightarrow> counted s s'"
proof (induction xs arbitrary: s)
  case (Cons x xs)
  obtain s1 where s1: "step x s = Some s1" "build_all step xs s1 = Some s'"
    using Cons.prems(3) by (cases "step x s") auto
  have c: "counted s s1" by (rule step_counted [OF Cons.prems(1,2) s1(1)])
  then have a: "adds (fst s1 - fst s) (snd s) (snd s1)" by (simp add: counted_def)
  show ?case
    by (rule counted_trans [OF c Cons.IH [OF adds_wf [OF a] ok_adds [OF Cons.prems(2) a] s1(2)]])
qed (simp add: counted_refl)

end

text \<open>The same for a step that cannot panic, folded with \<open>foldl\<close>.\<close>

locale total_builder =
  fixes tstep :: "nat \<times> tree \<Rightarrow> 'a \<Rightarrow> nat \<times> tree"
    and tok :: "tree \<Rightarrow> bool"
  assumes tstep_counted: "tree_wf (snd s) \<Longrightarrow> tok (snd s) \<Longrightarrow> counted s (tstep s x)"
    and tok_adds: "tok t \<Longrightarrow> adds k t t' \<Longrightarrow> tok t'"

sublocale total_builder \<subseteq> all: counting_builder "\<lambda>x s. Some (tstep s x)" tok
  by unfold_locales (metis tstep_counted option.inject, rule tok_adds)

context total_builder
begin

lemma fold_counted:
  "tree_wf (snd s) \<Longrightarrow> tok (snd s) \<Longrightarrow> counted s (foldl tstep s xs)"
  using all.build_counted [of s xs] build_all_total [of tstep xs s] by simp

end

text \<open>A builder that works below one directory leaves the listings of all earlier ones alone:
  with \<open>n\<close> the first number it may add to, \<open>above n t t'\<close>.\<close>

definition above :: "nat \<Rightarrow> tree \<Rightarrow> tree \<Rightarrow> bool" where
  "above n t t' \<longleftrightarrow> grows t t' \<and> (\<forall>q < n. dir_kids t' q = dir_kids t q)"

lemma above_grows: "above n t t' \<Longrightarrow> grows t t'"
  by (simp add: above_def)

lemma above_kids: "above n t t' \<Longrightarrow> q < n \<Longrightarrow> dir_kids t' q = dir_kids t q"
  by (simp add: above_def)

lemma above_zero [simp]: "above 0 t t' = grows t t'"
  by (simp add: above_def)

lemma above_refl: "tree_wf t \<Longrightarrow> above n t t"
  by (simp add: above_def grows_refl)

lemma above_trans: "above n a b \<Longrightarrow> above n b c \<Longrightarrow> above n a c"
  using grows_trans by (auto simp: above_def)

lemma above_mono: "above n t t' \<Longrightarrow> m \<le> n \<Longrightarrow> above m t t'"
  by (simp add: above_def)

text \<open>A fold that only grows the tree in its state, above some number, and returns no count.\<close>

locale floor_fold =
  fixes fstep :: "'a \<Rightarrow> 's \<Rightarrow> 's option"
    and ftree :: "'s \<Rightarrow> tree"
    and fok :: "tree \<Rightarrow> bool"
    and low :: nat
  assumes fstep_above: "tree_wf (ftree s) \<Longrightarrow> fok (ftree s) \<Longrightarrow> fstep x s = Some s' \<Longrightarrow>
      above low (ftree s) (ftree s')"
    and fok_grows: "fok t \<Longrightarrow> grows t t' \<Longrightarrow> fok t'"
begin

lemma build_above:
  "tree_wf (ftree s) \<Longrightarrow> fok (ftree s) \<Longrightarrow> build_all fstep xs s = Some s' \<Longrightarrow>
     above low (ftree s) (ftree s')"
proof (induction xs arbitrary: s)
  case (Cons x xs)
  obtain s1 where s1: "fstep x s = Some s1" "build_all fstep xs s1 = Some s'"
    using Cons.prems(3) by (cases "fstep x s") auto
  have f: "above low (ftree s) (ftree s1)" by (rule fstep_above [OF Cons.prems(1,2) s1(1)])
  note g = above_grows [OF f]
  show ?case
    by (rule above_trans [OF f Cons.IH [OF grows_wf [OF g] fok_grows [OF Cons.prems(2) g] s1(2)]])
qed (simp add: above_refl)

end

locale growing_fold =
  fixes gstep :: "'a \<Rightarrow> 's \<Rightarrow> 's option"
    and gtree :: "'s \<Rightarrow> tree"
    and gok :: "tree \<Rightarrow> bool"
  assumes gstep_grows: "tree_wf (gtree s) \<Longrightarrow> gok (gtree s) \<Longrightarrow> gstep x s = Some s' \<Longrightarrow>
      grows (gtree s) (gtree s')"
    and gok_grows: "gok t \<Longrightarrow> grows t t' \<Longrightarrow> gok t'"

sublocale growing_fold \<subseteq> unfloored: floor_fold gstep gtree gok 0
  by unfold_locales (simp_all add: gstep_grows gok_grows)

context growing_fold
begin

lemma build_grows:
  "tree_wf (gtree s) \<Longrightarrow> gok (gtree s) \<Longrightarrow> build_all gstep xs s = Some s' \<Longrightarrow> grows (gtree s) (gtree s')"
  using unfloored.build_above by simp

end

text \<open>The same for a step that cannot panic.\<close>

locale growing_loop =
  fixes lstep :: "'s \<Rightarrow> 'a \<Rightarrow> 's"
    and ltree :: "'s \<Rightarrow> tree"
    and lok :: "tree \<Rightarrow> bool"
  assumes lstep_grows: "tree_wf (ltree s) \<Longrightarrow> lok (ltree s) \<Longrightarrow> grows (ltree s) (ltree (lstep s x))"
    and lok_grows: "lok t \<Longrightarrow> grows t t' \<Longrightarrow> lok t'"

sublocale growing_loop \<subseteq> steps: growing_fold "\<lambda>x s. Some (lstep s x)" ltree lok
  by unfold_locales (metis lstep_grows option.inject, rule lok_grows)

context growing_loop
begin

lemma loop_grows: "tree_wf (ltree s) \<Longrightarrow> lok (ltree s) \<Longrightarrow> grows (ltree s) (ltree (foldl lstep s xs))"
  using steps.build_grows [of s xs] build_all_total [of lstep xs s] by simp

end

locale floor_loop =
  fixes lfstep :: "'s \<Rightarrow> 'a \<Rightarrow> 's"
    and lftree :: "'s \<Rightarrow> tree"
    and lfok :: "tree \<Rightarrow> bool"
    and llow :: nat
  assumes lfstep_above: "tree_wf (lftree s) \<Longrightarrow> lfok (lftree s) \<Longrightarrow>
      above llow (lftree s) (lftree (lfstep s x))"
    and lfok_grows: "lfok t \<Longrightarrow> grows t t' \<Longrightarrow> lfok t'"

sublocale floor_loop \<subseteq> floored: floor_fold "\<lambda>x s. Some (lfstep s x)" lftree lfok llow
  by unfold_locales (metis lfstep_above option.inject, rule lfok_grows)

context floor_loop
begin

lemma loop_above:
  "tree_wf (lftree s) \<Longrightarrow> lfok (lftree s) \<Longrightarrow> above llow (lftree s) (lftree (foldl lfstep s xs))"
  using floored.build_above [of s xs] build_all_total [of lfstep xs s] by simp

end

section \<open>The builders of this theory's components\<close>

lemma grows_adders:
  assumes "tree_wf t" "valid_ino t p"
  shows "grows t (snd (add_directory t p nm))" "grows t (snd (add_static_file now t p nm c))"
    "grows t (snd (add_remote_file t p nm url sha sz mime up e))" "grows t (snd (get_or_create_dir t p nm))"
    "grows t (snd (dir_path t p ns))"
  using adds_adders [OF assms] adds_get_or_create [OF assms] adds_dir_path [OF assms]
  by (blast intro: adds_grows)+

lemma dir_path_valid: "tree_wf t \<Longrightarrow> valid_ino t p \<Longrightarrow> valid_ino (snd (dir_path t p ns)) (fst (dir_path t p ns))"
  using adds_dir_path by blast

lemma grows_ensure_parts:
  assumes "tree_wf t"
  shows "grows t (snd (ensure_parts t ps))" "valid_ino (snd (ensure_parts t ps)) (fst (ensure_parts t ps))"
  using assms tree_wf_root_valid [OF assms]
  by (simp_all add: ensure_parts_def grows_adders dir_path_valid)

lemma grows_apply_folder: "tree_wf t \<Longrightarrow> grows t (apply_folder t tag)"
  by (simp add: apply_folder_def grows_refl grows_ensure_parts)

lemma grows_apply_file:
  assumes "tree_wf t"
  shows "grows t (apply_file url t tag)"
proof -
  note d = grows_ensure_parts [OF assms]
  show ?thesis
    using grows_refl [OF assms] d(1) grows_trans [OF d(1) grows_adders(3) [OF grows_wf [OF d(1)] d(2)]]
    by (simp add: apply_file_def Let_def case_prod_beta)
qed

interpretation folders: growing_loop apply_folder "\<lambda>t. t" "\<lambda>_. True"
  by unfold_locales (auto intro: grows_apply_folder)

interpretation files: growing_loop "apply_file url" "\<lambda>t. t" "\<lambda>_. True" for url
  by unfold_locales (auto intro: grows_apply_file)

lemma grows_apply_persisted:
  assumes "tree_wf t"
  shows "grows t (apply_persisted t tags url)"
proof -
  have g: "grows t (foldl apply_folder t tags)"
    using folders.loop_grows [OF assms] by simp
  show ?thesis
    using grows_trans [OF g files.loop_grows [OF grows_wf [OF g]]] by (simp add: apply_persisted_def)
qed

end
