(* ===== verification/Bfs_Nip34.thy ===== *)
theory Bfs_Nip34
  imports Bfs_Nostr Bfs_Grow
begin

text \<open>
  NIP-34 git collaboration (\<open>src/nostr/nip34.rs\<close>): repository, issue and patch events, and
  the read-only directory tree built from them.  String slices at a byte index panic inside a
  character, so the builder answers an option.  The theory also counts what the TollGate
  builder of \<open>Bfs_Nostr\<close> adds.
\<close>

section \<open>Events\<close>

datatype nip34_error = Nip34Client string | Nip34Pubkey string | NoRepos

record nip34_repo =
  gr_id :: string
  gr_name :: string
  gr_description :: string
  gr_clone_urls :: "string list"
  gr_web_urls :: "string list"
  gr_relays :: "string list"
  gr_maintainers :: "string list"
  gr_created :: nat
  gr_event_id :: string
  gr_addr :: string

record nip34_issue =
  gi_repo :: string
  gi_subject :: string
  gi_content :: string
  gi_event_id :: string
  gi_author :: string
  gi_created :: nat

record nip34_patch =
  gp_repo :: string
  gp_branch :: string
  gp_content :: string
  gp_cover :: bool
  gp_event_id :: string
  gp_author :: string
  gp_created :: nat

record nip34_data =
  gd_repos :: "nip34_repo list"
  gd_issues :: "nip34_issue list"
  gd_patches :: "nip34_patch list"

text \<open>The locals of \<open>parse_repo_from_tags\<close>: the id, name and description, then the four lists.\<close>

record repo_vars =
  gv_id :: "string option"
  gv_name :: string
  gv_description :: string
  gv_clone :: "string list"
  gv_web :: "string list"
  gv_relays :: "string list"
  gv_maintainers :: "string list"

definition repo_tag :: "repo_vars \<Rightarrow> string list \<Rightarrow> repo_vars" where
  "repo_tag r tag =
     (if length tag < 2 then r
      else
        let k = tag ! 0; v = tag ! 1 in
        if k = ''d'' then r\<lparr>gv_id := Some v\<rparr>
        else if k = ''name'' then r\<lparr>gv_name := v\<rparr>
        else if k = ''description'' then r\<lparr>gv_description := v\<rparr>
        else if k = ''clone'' then r\<lparr>gv_clone := gv_clone r @ [v]\<rparr>
        else if k = ''web'' then r\<lparr>gv_web := gv_web r @ [v]\<rparr>
        else if k = ''relays'' then r\<lparr>gv_relays := gv_relays r @ [v]\<rparr>
        else if k = ''maintainers'' then r\<lparr>gv_maintainers := gv_maintainers r @ [v]\<rparr>
        else r)"

definition parse_repo_from_tags ::
  "string list list \<Rightarrow> string \<Rightarrow> string \<Rightarrow> nat \<Rightarrow> nip34_repo option" where
  "parse_repo_from_tags tags owner_pubkey event_id created_at =
     (let r = foldl repo_tag \<lparr>gv_id = None, gv_name = [], gv_description = [], gv_clone = [],
                gv_web = [], gv_relays = [], gv_maintainers = []\<rparr> tags
      in case gv_id r of
           None \<Rightarrow> None
         | Some repo_id \<Rightarrow>
             Some \<lparr>gr_id = repo_id, gr_name = (if gv_name r = [] then repo_id else gv_name r),
                   gr_description = gv_description r, gr_clone_urls = gv_clone r,
                   gr_web_urls = gv_web r, gr_relays = gv_relays r,
                   gr_maintainers = gv_maintainers r, gr_created = created_at,
                   gr_event_id = event_id,
                   gr_addr = ''30617:'' @ owner_pubkey @ '':'' @ repo_id\<rparr>)"

definition issue_tag :: "string option \<times> string \<Rightarrow> string list \<Rightarrow> string option \<times> string" where
  "issue_tag s tag =
     (case s of (repo_ref, subject) \<Rightarrow>
        if length tag < 2 then s
        else if tag ! 0 = ''a'' then (Some (tag ! 1), subject)
        else if tag ! 0 = ''subject'' then (repo_ref, tag ! 1)
        else s)"

definition parse_issue_from_tags ::
  "string list list \<Rightarrow> string \<Rightarrow> string \<Rightarrow> string \<Rightarrow> nat \<Rightarrow> nip34_issue option" where
  "parse_issue_from_tags tags content event_id author created_at =
     (case foldl issue_tag (None, []) tags of
        (None, _) \<Rightarrow> None
      | (Some repo_ref, subject) \<Rightarrow>
          Some \<lparr>gi_repo = repo_ref,
                gi_subject = (if subject = [] then ''(no subject)'' else subject),
                gi_content = content, gi_event_id = event_id, gi_author = author,
                gi_created = created_at\<rparr>)"

definition patch_tag ::
  "string option \<times> string \<times> bool \<Rightarrow> string list \<Rightarrow> string option \<times> string \<times> bool" where
  "patch_tag s tag =
     (case s of (repo_ref, branch, cover) \<Rightarrow>
        if length tag < 2 then s
        else if tag ! 0 = ''a'' then (Some (tag ! 1), branch, cover)
        else if tag ! 0 = ''branch-name'' then (repo_ref, tag ! 1, cover)
        else if tag ! 0 = ''t'' \<and> tag ! 1 = ''cover-letter'' then (repo_ref, branch, True)
        else s)"

definition parse_patch_from_tags ::
  "string list list \<Rightarrow> string \<Rightarrow> string \<Rightarrow> string \<Rightarrow> nat \<Rightarrow> nip34_patch option" where
  "parse_patch_from_tags tags content event_id author created_at =
     (case foldl patch_tag (None, [], False) tags of
        (None, _) \<Rightarrow> None
      | (Some repo_ref, branch, cover) \<Rightarrow>
          Some \<lparr>gp_repo = repo_ref, gp_branch = (if branch = [] then ''unknown'' else branch),
                gp_content = content, gp_cover = cover, gp_event_id = event_id,
                gp_author = author, gp_created = created_at\<rparr>)"

definition event_issue :: "string set \<Rightarrow> event \<Rightarrow> nip34_issue option" where
  "event_issue addrs e =
     (if ev_kind e = 1621 then
        (case parse_issue_from_tags (ev_tags e) (ev_content e) (ev_id e) (ev_pubkey e) (ev_created e) of
           None \<Rightarrow> None
         | Some i \<Rightarrow> if gi_repo i \<in> addrs then Some i else None)
      else None)"

definition event_patch :: "string set \<Rightarrow> event \<Rightarrow> nip34_patch option" where
  "event_patch addrs e =
     (if ev_kind e = 1617 then
        (case parse_patch_from_tags (ev_tags e) (ev_content e) (ev_id e) (ev_pubkey e) (ev_created e) of
           None \<Rightarrow> None
         | Some p \<Rightarrow> if gp_repo p \<in> addrs then Some p else None)
      else None)"

definition fetch_nip34_events ::
  "nostr_env \<Rightarrow> string list \<Rightarrow> string \<Rightarrow> nip34_error + nip34_data" where
  "fetch_nip34_events N relays pubkey_hex =
     (case ne_from_hex N pubkey_hex of
        None \<Rightarrow> Inl (Nip34Pubkey pubkey_hex)
      | Some pk \<Rightarrow>
          (case ne_fetch N relays \<lparr>ef_kinds = [30617], ef_author = Some pk, ef_limit = Some 500\<rparr> of
             Inl e \<Rightarrow> Inl (Nip34Client e)
           | Inr repo_events \<Rightarrow>
               let repos = List.map_filter
                     (\<lambda>e. parse_repo_from_tags (ev_tags e) pubkey_hex (ev_id e) (ev_created e)) repo_events
               in if repos = [] then Inl NoRepos
                  else
                    let addrs = gr_addr ` set repos in
                    (case ne_fetch N relays \<lparr>ef_kinds = [1617, 1621], ef_author = None, ef_limit = Some 1000\<rparr> of
                       Inl e \<Rightarrow> Inl (Nip34Client e)
                     | Inr events \<Rightarrow>
                         Inr \<lparr>gd_repos = repos,
                              gd_issues = List.map_filter (event_issue addrs) events,
                              gd_patches = List.map_filter (event_patch addrs) events\<rparr>)))"

section \<open>The tree\<close>

definition format_unix_ts :: "nat \<Rightarrow> string" where
  "format_unix_ts ts =
     (let days = ts div 86400; hours = ts mod 86400 div 3600; mins = ts mod 3600 div 60
      in nat_to_string days @ ''d '' @ nat_to_string hours @ ''h '' @ nat_to_string mins @ ''m'')"

text \<open>The maps \<open>issues_by_repo\<close> and \<open>patches_by_repo\<close>: \<open>entry(key).or_default().push(x)\<close>.\<close>

definition push_group :: "('a \<Rightarrow> string) \<Rightarrow> (string \<rightharpoonup> 'a list) \<Rightarrow> 'a \<Rightarrow> (string \<rightharpoonup> 'a list)" where
  "push_group key m x =
     m(key x \<mapsto> (case m (key x) of None \<Rightarrow> [x] | Some xs \<Rightarrow> xs @ [x]))"

definition group_by :: "('a \<Rightarrow> string) \<Rightarrow> 'a list \<Rightarrow> (string \<rightharpoonup> 'a list)" where
  "group_by key xs = foldl (push_group key) Map.empty xs"

definition group_len :: "(string \<rightharpoonup> 'a list) \<Rightarrow> string \<Rightarrow> nat" where
  "group_len m k = (case m k of None \<Rightarrow> 0 | Some v \<Rightarrow> length v)"

definition bullet_section :: "string \<Rightarrow> string list \<Rightarrow> string" where
  "bullet_section title ls =
     (if ls = [] then [] else ''## '' @ title @ nl @ nl @ concat (map (\<lambda>l. ''- '' @ l @ nl) ls) @ nl)"

definition repo_info :: "nip34_repo \<Rightarrow> nat \<Rightarrow> nat \<Rightarrow> string" where
  "repo_info r issue_count patch_count =
     ''# '' @ gr_name r @ nl @ nl
     @ (if gr_description r = [] then [] else gr_description r @ nl @ nl)
     @ ''**Repository ID:** `'' @ gr_id r @ ''`'' @ nl @ nl
     @ ''**Published:** '' @ format_unix_ts (gr_created r) @ nl @ nl
     @ (if gr_clone_urls r = [] then []
        else ''## Clone URLs'' @ nl @ nl @ ''```'' @ nl
          @ concat (map (\<lambda>u. ''git clone '' @ u @ nl) (gr_clone_urls r)) @ ''```'' @ nl @ nl)
     @ bullet_section ''Web'' (gr_web_urls r)
     @ bullet_section ''Relays'' (gr_relays r)
     @ bullet_section ''Maintainers'' (map (\<lambda>m. ''`'' @ m @ ''`'') (gr_maintainers r))
     @ ''## Activity'' @ nl @ nl @ ''- '' @ nat_to_string issue_count @ '' issue(s)'' @ nl
     @ ''- '' @ nat_to_string patch_count @ '' patch(es)'' @ nl"

text \<open>\<open>&s[..n.min(s.len())]\<close>: panics when the cut is inside a character.\<close>

definition short :: "nat \<Rightarrow> string \<Rightarrow> string option" where
  "short n s = slice_to (min n (length s)) s"

definition issue_file :: "nip34_issue \<Rightarrow> (string \<times> bytes) option" where
  "issue_file i =
     Option.bind (short 12 (gi_event_id i)) (\<lambda>short_id.
     Option.bind (short 16 (gi_author i)) (\<lambda>author.
       Some (short_id @ ''.md'',
             ''# '' @ gi_subject i @ nl @ nl
             @ ''**Author:** `'' @ author @ ''...`'' @ nl @ nl
             @ ''**Date:** '' @ format_unix_ts (gi_created i) @ nl @ nl
             @ ''---'' @ nl @ nl @ gi_content i)))"

definition patch_file :: "nip34_patch \<Rightarrow> (string \<times> bytes) option" where
  "patch_file p =
     Option.bind (if gp_cover p then Some ''0000-cover-letter'' else short 12 (gp_event_id p))
       (\<lambda>prefix. Some (prefix @ ''.patch'', gp_content p))"

definition add_group_file ::
  "nat \<Rightarrow> nat \<Rightarrow> ('a \<Rightarrow> (string \<times> bytes) option) \<Rightarrow> 'a \<Rightarrow> nat \<times> tree \<Rightarrow> (nat \<times> tree) option" where
  "add_group_file now dir mk x s =
     (case (s, mk x) of
        ((count, t), Some (name, content)) \<Rightarrow>
          Some (count + 1, snd (add_static_file now t dir name content))
      | (_, None) \<Rightarrow> None)"

text \<open>The directory \<open>issues\<close> or \<open>patches\<close> of one repository.\<close>

definition add_group ::
  "nat \<Rightarrow> nat \<Rightarrow> string \<Rightarrow> (string \<rightharpoonup> 'a list) \<Rightarrow> string \<Rightarrow> ('a \<Rightarrow> (string \<times> bytes) option)
     \<Rightarrow> nat \<times> tree \<Rightarrow> (nat \<times> tree) option" where
  "add_group now repo_dir name by_repo addr mk s =
     (if group_len by_repo addr = 0 then Some s
      else
        case s of (count, t) \<Rightarrow>
          let (dir, t1) = get_or_create_dir t repo_dir name
          in build_all (add_group_file now dir mk) (the (by_repo addr)) (count, t1))"

definition repo_node :: "tree \<Rightarrow> nat \<Rightarrow> string \<Rightarrow> bool \<Rightarrow> fs_path \<Rightarrow> nip34_repo \<Rightarrow> nat \<times> tree" where
  "repo_node t pk_dir pubkey_hex clone_enabled cache_dir r =
     (if clone_enabled then
        (case gr_clone_urls r of
           url # _ \<Rightarrow>
             add_lazy_dir t pk_dir (gr_id r)
               (GitRepo url (path_join (path_join (path_join cache_dir ''ngit-clones'') pubkey_hex) (gr_id r)))
         | [] \<Rightarrow> get_or_create_dir t pk_dir (gr_id r))
      else get_or_create_dir t pk_dir (gr_id r))"

definition add_repo ::
  "nat \<Rightarrow> nat \<Rightarrow> string \<Rightarrow> bool \<Rightarrow> fs_path \<Rightarrow> (string \<rightharpoonup> nip34_issue list) \<Rightarrow> (string \<rightharpoonup> nip34_patch list)
     \<Rightarrow> nip34_repo \<Rightarrow> nat \<times> tree \<Rightarrow> (nat \<times> tree) option" where
  "add_repo now pk_dir pubkey_hex clone_enabled cache_dir issues patches r s =
     (case s of (count, t) \<Rightarrow>
        let (repo_dir, t1) = repo_node t pk_dir pubkey_hex clone_enabled cache_dir r;
            info = repo_info r (group_len issues (gr_addr r)) (group_len patches (gr_addr r));
            t2 = snd (add_static_file now t1 repo_dir ''INFO.md'' info);
            (count3, t3) =
              (if gr_clone_urls r = [] then (count + 1, t2)
               else (count + 1 + 1, snd (add_static_file now t2 repo_dir ''CLONE_URLS.txt''
                       (str_join nl (map (\<lambda>u. ''git clone '' @ u) (gr_clone_urls r))))))
        in Option.bind (add_group now repo_dir ''issues'' issues (gr_addr r) issue_file (count3, t3))
             (add_group now repo_dir ''patches'' patches (gr_addr r) patch_file))"

definition build_nip34_tree ::
  "nat \<Rightarrow> tree \<Rightarrow> string \<Rightarrow> nip34_data \<Rightarrow> bool \<Rightarrow> fs_path \<Rightarrow> (nat \<times> tree) option" where
  "build_nip34_tree now t pubkey_hex data clone_enabled cache_dir =
     (if gd_repos data = [] then Some (0, t)
      else
        let (git_root, t1) = add_directory t (root t) ''git'';
            (pk_dir, t2) = get_or_create_dir t1 git_root pubkey_hex;
            issues = group_by gi_repo (gd_issues data);
            patches = group_by gp_repo (gd_patches data)
        in build_all (add_repo now pk_dir pubkey_hex clone_enabled cache_dir issues patches)
             (gd_repos data) (0, t2))"

section \<open>Counting\<close>

lemma group_by_eq:
  "group_by key xs k = (let g = filter (\<lambda>x. key x = k) xs in if g = [] then None else Some g)"
proof (induction xs rule: rev_induct)
  case (snoc x xs)
  then show ?case by (auto simp: group_by_def push_group_def Let_def)
qed (simp add: group_by_def)

lemma group_len_eq: "group_len (group_by key xs) k = length (filter (\<lambda>x. key x = k) xs)"
  by (simp add: group_len_def group_by_eq Let_def)

lemma add_group_file_counted:
  assumes "tree_wf (snd s)" "valid_ino (snd s) dir" "add_group_file now dir mk x s = Some s'"
  shows "counted s s'"
  using assms adds_adders(3) [OF assms(1,2)]
  by (auto simp: add_group_file_def intro!: adds_counted split: prod.splits option.splits)

interpretation group_files: counting_builder "add_group_file now dir mk" "\<lambda>t. valid_ino t dir"
  for now dir mk
  by unfold_locales (auto intro: add_group_file_counted adds_valid)

lemma add_group_counted:
  assumes "tree_wf (snd s)" "valid_ino (snd s) dir" "add_group now dir name by_repo addr mk s = Some s'"
  shows "counted s s'"
proof (cases "group_len by_repo addr = 0")
  case True
  with assms show ?thesis by (simp add: add_group_def counted_refl)
next
  case False
  define g where "g = get_or_create_dir (snd s) dir name"
  have a: "adds 0 (snd s) (snd g)"
    unfolding g_def using assms(1,2) by (rule adds_get_or_create)
  have v: "valid_ino (snd g) (fst g)"
    unfolding g_def using assms(1,2) by (rule get_or_create_dir_valid)
  have "build_all (add_group_file now (fst g) mk) (the (by_repo addr)) (fst s, snd g) = Some s'"
    using assms(3) False by (cases s) (simp add: add_group_def g_def case_prod_beta)
  then have "counted (fst s, snd g) s'"
    using group_files.build_counted [of "(fst s, snd g)" "fst g"] adds_wf [OF a] v by simp
  moreover have "counted s (fst s, snd g)"
    using adds_counted [OF a, of "fst s" "fst s"] by simp
  ultimately show ?thesis by (blast intro: counted_trans)
qed

lemma repo_node_adds:
  assumes "tree_wf t" "valid_ino t pk_dir"
  shows "adds 0 t (snd (repo_node t pk_dir hex clone cache r))
    \<and> valid_ino (snd (repo_node t pk_dir hex clone cache r)) (fst (repo_node t pk_dir hex clone cache r))"
  using adds_adders(2) [OF assms] adds_get_or_create [OF assms] get_or_create_dir_valid(1) [OF assms]
  by (auto simp: repo_node_def add_dir_valid split: list.split)

lemma add_repo_counted:
  assumes wf: "tree_wf (snd s)" and v: "valid_ino (snd s) pk_dir"
    and st: "add_repo now pk_dir hex clone cache issues patches r s = Some s'"
  shows "counted s s'"
proof -
  define rn where "rn = repo_node (snd s) pk_dir hex clone cache r"
  define info where "info = repo_info r (group_len issues (gr_addr r)) (group_len patches (gr_addr r))"
  define t2 where "t2 = snd (add_static_file now (snd rn) (fst rn) ''INFO.md'' info)"
  define s3 where "s3 = (if gr_clone_urls r = [] then (fst s + 1, t2)
      else (fst s + 1 + 1, snd (add_static_file now t2 (fst rn) ''CLONE_URLS.txt''
                (str_join nl (map (\<lambda>u. ''git clone '' @ u) (gr_clone_urls r))))))"
  have rn: "adds 0 (snd s) (snd rn)" "valid_ino (snd rn) (fst rn)"
    using repo_node_adds [OF wf v] by (simp_all add: rn_def)
  have a2: "adds 1 (snd s) t2"
    using adds_trans [OF rn(1) adds_adders(3) [OF adds_wf [OF rn(1)] rn(2)]] by (simp add: t2_def)
  have v2: "valid_ino t2 (fst rn)"
    unfolding t2_def by (rule adds_valid [OF adds_adders(3) [OF adds_wf [OF rn(1)] rn(2)] rn(2)])
  have c3: "counted s s3" and v3: "valid_ino (snd s3) (fst rn)"
    using a2 v2 adds_trans [OF a2 adds_adders(3) [OF adds_wf [OF a2] v2]]
      adds_valid [OF adds_adders(3) [OF adds_wf [OF a2] v2] v2]
    by (auto simp: s3_def counted_def numeral_2_eq_2)
  obtain s4 where s4: "add_group now (fst rn) ''issues'' issues (gr_addr r) issue_file s3 = Some s4"
      "add_group now (fst rn) ''patches'' patches (gr_addr r) patch_file s4 = Some s'"
    using st by (cases s)
      (auto simp: add_repo_def case_prod_beta Let_def bind_eq_Some_conv rn_def info_def t2_def s3_def
        split: if_splits)
  have w3: "tree_wf (snd s3)" using c3 by (simp add: counted_def adds_def)
  have c4: "counted s3 s4" by (rule add_group_counted [OF w3 v3 s4(1)])
  then have w4: "tree_wf (snd s4)" "valid_ino (snd s4) (fst rn)"
    using v3 by (auto simp: counted_def adds_def valid_ino_def)
  show ?thesis
    by (rule counted_trans [OF c3 counted_trans [OF c4 add_group_counted [OF w4 s4(2)]]])
qed

interpretation repos: counting_builder "add_repo now pk_dir hex clone cache issues patches"
    "\<lambda>t. valid_ino t pk_dir" for now pk_dir hex clone cache issues patches
  by unfold_locales (auto intro: add_repo_counted adds_valid)

lemma build_nip34_counted:
  assumes wf: "tree_wf t" and b: "build_nip34_tree now t hex data clone cache = Some (n, t')"
  shows "adds n t t'"
proof (cases "gd_repos data = []")
  case True
  with b wf show ?thesis by (simp add: build_nip34_tree_def adds_refl)
next
  case False
  define g where "g = add_directory t (root t) ''git''"
  define p where "p = get_or_create_dir (snd g) (fst g) hex"
  have a1: "adds 0 t (snd g)" and v1: "valid_ino (snd g) (fst g)"
    using adds_adders(1) [OF wf tree_wf_root_valid [OF wf]] by (simp_all add: g_def add_dir_valid)
  have a2: "adds 0 (snd g) (snd p)" and v2: "valid_ino (snd p) (fst p)"
    using adds_get_or_create [OF adds_wf [OF a1] v1] get_or_create_dir_valid(1) [OF adds_wf [OF a1] v1]
    by (simp_all add: p_def)
  have "build_all (add_repo now (fst p) hex clone cache (group_by gi_repo (gd_issues data))
      (group_by gp_repo (gd_patches data))) (gd_repos data) (0, snd p) = Some (n, t')"
    using b False by (simp add: build_nip34_tree_def Let_def case_prod_beta g_def p_def)
  then have "counted (0, snd p) (n, t')"
    using repos.build_counted [of "(0, snd p)" "fst p"] adds_wf [OF a2] v2 by simp
  then show ?thesis
    using adds_trans [OF adds_trans [OF a1 a2]] by (simp add: counted_def)
qed

section \<open>The exact count\<close>

definition repo_files :: "nip34_data \<Rightarrow> nip34_repo \<Rightarrow> nat" where
  "repo_files data r = 1 + (if gr_clone_urls r = [] then 0 else 1)
     + length (filter (\<lambda>i. gi_repo i = gr_addr r) (gd_issues data))
     + length (filter (\<lambda>p. gp_repo p = gr_addr r) (gd_patches data))"

definition cut_ok :: "nip34_data \<Rightarrow> bool" where
  "cut_ok data \<longleftrightarrow> list_all (\<lambda>i. is_ascii (gi_event_id i) \<and> is_ascii (gi_author i)) (gd_issues data)
     \<and> list_all (\<lambda>p. is_ascii (gp_event_id p)) (gd_patches data)"

lemma short_ascii: "is_ascii s \<Longrightarrow> short n s = Some (take n s)"
proof -
  assume a: "is_ascii s"
  have "\<not> is_cont (s ! n)" if "n < length s"
    using a that by (force simp: is_ascii_def list_all_length is_cont_def)
  then show ?thesis
    by (cases "n < length s") (auto simp: short_def slice_to_def is_char_boundary_def)
qed

lemma build_all_count:
  fixes w :: "'a \<Rightarrow> nat"
  shows "(\<And>x s. x \<in> set xs \<Longrightarrow> \<exists>s'. f x s = Some s' \<and> fst s' = fst s + w x) \<Longrightarrow>
     \<exists>s'. build_all f xs s = Some s' \<and> fst s' = fst s + sum_list (map w xs)"
proof (induction xs arbitrary: s)
  case (Cons x xs)
  obtain s1 where s1: "f x s = Some s1" "fst s1 = fst s + w x"
    using Cons.prems [of x s] by auto
  obtain s2 where "build_all f xs s1 = Some s2" "fst s2 = fst s1 + sum_list (map w xs)"
    using Cons.IH [of s1] Cons.prems by auto
  with s1 show ?case by auto
qed simp

lemma add_group_count:
  assumes "\<And>x. x \<in> set xs \<Longrightarrow> mk x \<noteq> None"
  shows "\<exists>s'. add_group now dir name (group_by key xs) addr mk s = Some s'
           \<and> fst s' = fst s + length (filter (\<lambda>x. key x = addr) xs)"
proof -
  let ?g = "filter (\<lambda>x. key x = addr) xs"
  have "\<exists>s'. build_all (add_group_file now d mk) ?g s = Some s' \<and> fst s' = fst s + sum_list (map (\<lambda>_. 1) ?g)"
    for d and s :: "nat \<times> tree"
    by (rule build_all_count) (use assms in \<open>fastforce simp: add_group_file_def split: prod.split option.split\<close>)
  then have B: "\<exists>s'. build_all (add_group_file now d mk) ?g s = Some s' \<and> fst s' = fst s + length ?g"
    for d and s :: "nat \<times> tree"
    by (simp add: sum_list_triv)
  show ?thesis
  proof (cases "?g = []")
    case True
    then show ?thesis by (simp add: add_group_def group_len_eq)
  next
    case False
    define g where "g = get_or_create_dir (snd s) dir name"
    have "add_group now dir name (group_by key xs) addr mk s
        = build_all (add_group_file now (fst g) mk) ?g (fst s, snd g)"
      using False by (cases s) (simp add: add_group_def group_len_eq group_by_eq Let_def case_prod_beta g_def)
    then show ?thesis
      using B [of "fst g" "(fst s, snd g)"] by simp
  qed
qed

lemma add_repo_count:
  assumes "cut_ok data"
  shows "\<exists>s'. add_repo now pk_dir hex clone cache (group_by gi_repo (gd_issues data))
             (group_by gp_repo (gd_patches data)) r s = Some s' \<and> fst s' = fst s + repo_files data r"
proof -
  let ?I = "group_by gi_repo (gd_issues data)" and ?P = "group_by gp_repo (gd_patches data)"
  let ?groups = "\<lambda>d s. Option.bind (add_group now d ''issues'' ?I (gr_addr r) issue_file s)
        (add_group now d ''patches'' ?P (gr_addr r) patch_file)"
  have I: "issue_file i \<noteq> None" if "i \<in> set (gd_issues data)" for i
    using assms that by (auto simp: cut_ok_def list_all_iff issue_file_def short_ascii)
  have P: "patch_file p \<noteq> None" if "p \<in> set (gd_patches data)" for p
    using assms that by (auto simp: cut_ok_def list_all_iff patch_file_def short_ascii)
  have "\<exists>d s3. add_repo now pk_dir hex clone cache ?I ?P r s = ?groups d s3
      \<and> fst s3 = fst s + (1 + (if gr_clone_urls r = [] then 0 else 1))"
    by (cases s; cases "gr_clone_urls r = []")
      (simp_all only: add_repo_def case_prod_beta Let_def fst_conv snd_conv if_True if_False,
        (rule exI conjI refl | simp)+)
  then obtain d s3 where R: "add_repo now pk_dir hex clone cache ?I ?P r s = ?groups d s3"
      "fst s3 = fst s + (1 + (if gr_clone_urls r = [] then 0 else 1))"
    by blast
  obtain s4 where s4: "add_group now d ''issues'' ?I (gr_addr r) issue_file s3 = Some s4"
      "fst s4 = fst s3 + length (filter (\<lambda>i. gi_repo i = gr_addr r) (gd_issues data))"
    using add_group_count [where mk = issue_file and now = now and dir = d and s = s3, OF I] by blast
  obtain s5 where "add_group now d ''patches'' ?P (gr_addr r) patch_file s4 = Some s5"
      "fst s5 = fst s4 + length (filter (\<lambda>p. gp_repo p = gr_addr r) (gd_patches data))"
    using add_group_count [where mk = patch_file and now = now and dir = d and s = s4, OF P] by blast
  with R s4 show ?thesis
    by (intro exI [of _ s5]) (simp add: repo_files_def)
qed

lemma nip34_tree_built:
  assumes "tree_wf t" and "cut_ok data"
  shows "\<exists>n t'. build_nip34_tree now t hex data clone cache = Some (n, t') \<and> adds n t t'
    \<and> n = sum_list (map (repo_files data) (gd_repos data))"
proof (cases "gd_repos data = []")
  case True
  then show ?thesis using assms by (simp add: build_nip34_tree_def adds_refl)
next
  case False
  obtain s' where "build_nip34_tree now t hex data clone cache = Some s'"
      "fst s' = sum_list (map (repo_files data) (gd_repos data))"
    using False build_all_count [where xs = "gd_repos data", OF add_repo_count [OF assms(2)]]
    by (fastforce simp: build_nip34_tree_def Let_def case_prod_beta)
  then show ?thesis
    using build_nip34_counted [OF assms(1)] by (cases s') auto
qed

text \<open>C38. Browsing repositories: on ASCII event ids and authors (they are hex) the builder does
  not panic, adds only nodes below the root, and the count it reports, which the mount adds to
  its blob count, is exactly the number of file nodes it created: per repository its info file,
  its clone list if it has clone URLs, and one file per issue and patch that references it.\<close>

theorem nip34_tree_counts_files:
  assumes "tree_wf t" and "cut_ok data"
  shows "\<exists>n t'. build_nip34_tree now t hex data clone cache = Some (n, t') \<and> adds n t t'
    \<and> n = sum_list (map (repo_files data) (gd_repos data))"
  by (rule nip34_tree_built [OF assms])

definition demo_nip34 :: nip34_data where
  "demo_nip34 = \<lparr>gd_repos = [\<lparr>gr_id = ''repo'', gr_name = ''repo'', gr_description = [],
       gr_clone_urls = [''https://h/r.git''], gr_web_urls = [], gr_relays = [], gr_maintainers = [],
       gr_created = 90061, gr_event_id = ''e1'', gr_addr = ''30617:ab:repo''\<rparr>],
     gd_issues = [\<lparr>gi_repo = ''30617:ab:repo'', gi_subject = ''bug'', gi_content = ''text'',
       gi_event_id = ''0123456789abcdef'', gi_author = ''cd'', gi_created = 0\<rparr>],
     gd_patches = [\<lparr>gp_repo = ''30617:ab:repo'', gp_branch = ''main'', gp_content = ''diff'',
       gp_cover = True, gp_event_id = ''e3'', gp_author = ''cd'', gp_created = 0\<rparr>]\<rparr>"

theorem nip34_tree_counts_files_witness:
  "\<exists>t'. build_nip34_tree 0 new_tree ''ab'' demo_nip34 True [''c''] = Some (4, t') \<and> adds 4 new_tree t'"
proof -
  have ok: "cut_ok demo_nip34"
    by (simp add: cut_ok_def demo_nip34_def is_ascii_def)
  have n: "sum_list (map (repo_files demo_nip34) (gd_repos demo_nip34)) = 4"
    by (simp add: repo_files_def demo_nip34_def)
  show ?thesis
    using nip34_tree_counts_files [OF tree_wf_new ok, of 0 "''ab''" True "[''c'']"] n by auto
qed

section \<open>TollGate releases\<close>

lemma tollgate_step_counted:
  assumes "tree_wf (snd s)" "valid_ino (snd s) r"
  shows "counted s (tollgate_step r s x)"
proof -
  let ?w = "dir_path (snd s) r [category_dir x, tr_channel x, tr_version x, subdir x]"
  have w: "adds 0 (snd s) (snd ?w)" "valid_ino (snd ?w) (fst ?w)"
    using adds_dir_path [OF assms] by blast+
  have "adds 1 (snd s) (snd (add_remote_file (snd ?w) (fst ?w) nm u sha sz mime up e))"
    for nm u sha sz mime up e
    using adds_trans [OF w(1) adds_adders(4) [OF adds_wf [OF w(1)] w(2)]] by simp
  with w(1) show ?thesis
    by (cases s) (simp add: tollgate_step_def case_prod_beta Let_def counted_def)
qed

interpretation releases: total_builder "tollgate_step r" "\<lambda>t. valid_ino t r" for r
  by unfold_locales (auto intro: tollgate_step_counted adds_valid)

lemma tollgate_counted:
  assumes wf: "tree_wf t" and b: "build_tollgate_tree t releases = (n, t')"
  shows "adds n t t'"
proof (cases "releases = []")
  case True
  with b wf show ?thesis by (simp add: build_tollgate_tree_def adds_refl)
next
  case False
  define g where "g = add_directory t (root t) ''tollgate''"
  have a: "adds 0 t (snd g)" "valid_ino (snd g) (fst g)"
    using adds_adders(1) [OF wf tree_wf_root_valid [OF wf]] by (simp_all add: g_def add_dir_valid)
  have "foldl (tollgate_step (fst g)) (0, snd g) releases = (n, t')"
    using b False by (simp add: build_tollgate_tree_def case_prod_beta g_def)
  then have "counted (0, snd g) (n, t')"
    using releases.fold_counted [of "(0, snd g)" "fst g" releases] adds_wf [OF a(1)] a(2) by simp
  then show ?thesis
    using adds_trans [OF a(1)] by (simp add: counted_def)
qed

end
