(* ===== verification/Bfs_Config.thy ===== *)
theory Bfs_Config
  imports Bfs_Path
begin

text \<open>
  Command line and configuration (\<open>src/cli.rs\<close>, \<open>src/config.rs\<close>): the arguments of
  \<open>blossomfs mount\<close> with their defaults, the configuration record, the merge of the two and the
  validation before mounting.  Reading and layering the TOML file and the environment is
  \<open>figment\<close>'s and \<open>toml\<close>'s, a parameter; \<open>clap\<close> answers for each argument id whether its
  value came from the command line.
\<close>

section \<open>Arguments\<close>

record mount_args =
  a_mountpoint :: fs_path
  a_npub :: "string list"
  a_pubkey :: "string list"
  a_server :: "string list"
  a_manifest :: "fs_path option"
  a_cache_dir :: fs_path
  a_read_only :: bool
  a_nsec_file :: "fs_path option"
  a_dangerous_nsec :: "string option"
  a_relay :: "string list"
  a_nip34_relay :: "string list"
  a_nip34_pubkey :: "string option"
  a_nip34_clone :: bool
  a_ttl_secs :: nat
  a_max_write_mb :: nat
  a_multipart_threshold_mb :: nat
  a_write_buffer_mb :: nat
  a_max_concurrent_uploads :: nat
  a_http_timeout_secs :: nat
  a_free_period_days :: nat
  a_max_free_size_mb :: nat
  a_max_cache_size :: nat
  a_persist :: "string option"
  a_max_blobs :: nat
  a_metrics_port :: "nat option"
  a_config :: "fs_path option"
  a_daemon :: bool
  a_cashu_token_file :: "fs_path option"
  a_nwc_uri :: "string option"

definition default_args :: mount_args where
  "default_args = \<lparr>a_mountpoint = [], a_npub = [], a_pubkey = [], a_server = [], a_manifest = None,
     a_cache_dir = [''/'', ''tmp'', ''blossomfs''], a_read_only = True, a_nsec_file = None,
     a_dangerous_nsec = None, a_relay = [], a_nip34_relay = [], a_nip34_pubkey = None,
     a_nip34_clone = False, a_ttl_secs = 31536000, a_max_write_mb = 1024,
     a_multipart_threshold_mb = 50, a_write_buffer_mb = 64, a_max_concurrent_uploads = 5,
     a_http_timeout_secs = 30, a_free_period_days = 30, a_max_free_size_mb = 1,
     a_max_cache_size = 0, a_persist = None, a_max_blobs = 1000, a_metrics_port = None,
     a_config = None, a_daemon = False, a_cashu_token_file = None, a_nwc_uri = None\<rparr>"

record extend_args =
  x_sha256 :: string
  x_server :: string
  x_nsec_file :: "fs_path option"
  x_cashu_token_file :: "fs_path option"
  x_nwc_uri :: "string option"

record blossom_config =
  c_npub :: "string option"
  c_pubkey :: "string option"
  c_server :: "string list"
  c_manifest :: "fs_path option"
  c_cache_dir :: "fs_path option"
  c_read_only :: "bool option"
  c_nsec_file :: "fs_path option"
  c_relay :: "string list"
  c_nip34_relay :: "string list"
  c_nip34_pubkey :: "string option"
  c_nip34_clone :: "bool option"
  c_ttl_secs :: "nat option"
  c_max_write_mb :: "nat option"
  c_free_period_days :: "nat option"
  c_max_free_size_mb :: "nat option"
  c_max_cache_size :: "nat option"
  c_multipart_threshold_mb :: "nat option"
  c_metrics_port :: "nat option"

datatype config_error = ConfigRead | ConfigParse | ConfigFigment string | Validation string

section \<open>Merging\<close>

definition or_arg :: "bool \<Rightarrow> 'a option \<Rightarrow> 'a \<Rightarrow> 'a" where
  "or_arg explicit cfg arg = (if explicit then arg else case cfg of None \<Rightarrow> arg | Some v \<Rightarrow> v)"

definition or_list :: "bool \<Rightarrow> 'a list \<Rightarrow> 'a list \<Rightarrow> 'a list" where
  "or_list explicit cfg arg = (if \<not> explicit \<and> cfg \<noteq> [] then cfg else arg)"

text \<open>\<open>merge_into\<close>: the sequence of guarded assignments touches each field at most once, so it
  is one update per field.\<close>

definition merge_into :: "blossom_config \<Rightarrow> mount_args \<Rightarrow> (string \<Rightarrow> bool) \<Rightarrow> mount_args" where
  "merge_into c a ex =
     a\<lparr>a_npub := or_arg (ex ''npub'') (map_option (\<lambda>n. [n]) (c_npub c)) (a_npub a),
       a_pubkey := or_arg (ex ''pubkey'') (map_option (\<lambda>p. [p]) (c_pubkey c)) (a_pubkey a),
       a_manifest := or_arg (ex ''manifest'') (map_option Some (c_manifest c)) (a_manifest a),
       a_nsec_file := or_arg (ex ''nsec-file'') (map_option Some (c_nsec_file c)) (a_nsec_file a),
       a_nip34_pubkey := or_arg (ex ''nip34-pubkey'') (map_option Some (c_nip34_pubkey c)) (a_nip34_pubkey a),
       a_server := or_list (ex ''server'') (c_server c) (a_server a),
       a_relay := or_list (ex ''relay'') (c_relay c) (a_relay a),
       a_nip34_relay := or_list (ex ''nip34-relay'') (c_nip34_relay c) (a_nip34_relay a),
       a_cache_dir := or_arg (ex ''cache-dir'') (c_cache_dir c) (a_cache_dir a),
       a_read_only := or_arg (ex ''read-only'') (c_read_only c) (a_read_only a),
       a_nip34_clone := or_arg (ex ''nip34-clone'') (c_nip34_clone c) (a_nip34_clone a),
       a_ttl_secs := or_arg (ex ''ttl-secs'') (c_ttl_secs c) (a_ttl_secs a),
       a_max_write_mb := or_arg (ex ''max-write-mb'') (c_max_write_mb c) (a_max_write_mb a),
       a_free_period_days := or_arg (ex ''free-period-days'') (c_free_period_days c) (a_free_period_days a),
       a_max_free_size_mb := or_arg (ex ''max-free-size-mb'') (c_max_free_size_mb c) (a_max_free_size_mb a),
       a_max_cache_size := or_arg (ex ''max-cache-size'') (c_max_cache_size c) (a_max_cache_size a),
       a_multipart_threshold_mb :=
         or_arg (ex ''multipart-threshold-mb'') (c_multipart_threshold_mb c) (a_multipart_threshold_mb a),
       a_metrics_port := or_arg (ex ''metrics-port'') (map_option Some (c_metrics_port c)) (a_metrics_port a)\<rparr>"

definition env_fields :: "string list" where
  "env_fields = [''npub'', ''pubkey'', ''server'', ''manifest'', ''cache_dir'', ''read_only'',
     ''nsec_file'', ''relay'', ''nip34_relay'', ''nip34_pubkey'', ''nip34_clone'', ''ttl_secs'',
     ''max_write_mb'', ''free_period_days'', ''max_free_size_mb'', ''max_cache_size'',
     ''multipart_threshold_mb'', ''metrics_port'']"

record config_env =
  cf_read :: "fs_path \<Rightarrow> string option"
  cf_toml :: "string \<Rightarrow> blossom_config option"
  cf_figment :: "fs_path option \<Rightarrow> string \<Rightarrow> string list \<Rightarrow> string + blossom_config"

definition config_load :: "config_env \<Rightarrow> fs_path \<Rightarrow> config_error + blossom_config" where
  "config_load E path =
     (case cf_read E path of
        None \<Rightarrow> Inl ConfigRead
      | Some content \<Rightarrow> (case cf_toml E content of None \<Rightarrow> Inl ConfigParse | Some c \<Rightarrow> Inr c))"

definition load_merged ::
  "config_env \<Rightarrow> fs_path option \<Rightarrow> mount_args \<Rightarrow> (string \<Rightarrow> bool) \<Rightarrow> config_error + mount_args" where
  "load_merged E config_path a ex =
     (case cf_figment E config_path ''BLOSSOMFS_'' env_fields of
        Inl e \<Rightarrow> Inl (ConfigFigment e)
      | Inr c \<Rightarrow> Inr (merge_into c a ex))"

text \<open>The closure \<open>is_explicit\<close> of \<open>main\<close> over \<open>clap\<close>'s answer for an argument id.\<close>

datatype value_source = DefaultValue | EnvVariable | CommandLine

definition is_explicit :: "(string \<Rightarrow> value_source option) \<Rightarrow> string \<Rightarrow> bool" where
  "is_explicit sources name \<longleftrightarrow> sources name = Some CommandLine"

section \<open>Validation\<close>

definition is_hex_64 :: "string \<Rightarrow> bool" where
  "is_hex_64 s \<longleftrightarrow> length s = 64 \<and> list_all is_ascii_hexdigit s"

definition npub_ok :: "string \<Rightarrow> bool" where
  "npub_ok n \<longleftrightarrow> starts_with n ''npub1'' \<or> is_hex_64 n"

definition server_ok :: "string \<Rightarrow> bool" where
  "server_ok s \<longleftrightarrow> starts_with s ''http://'' \<or> starts_with s ''https://''"

definition relay_ok :: "string \<Rightarrow> bool" where
  "relay_ok r \<longleftrightarrow> starts_with r ''ws://'' \<or> starts_with r ''wss://''"

definition validate_args :: "mount_args \<Rightarrow> config_error + unit" where
  "validate_args a =
     (if a_npub a = [] \<and> a_pubkey a = [] \<and> a_manifest a = None \<and> a_nip34_pubkey a = None then
        Inl (Validation ''at least one of --npub, --pubkey, --manifest, or --nip34-pubkey must be provided'')
      else case List.find (\<lambda>n. \<not> npub_ok n) (a_npub a) of
        Some n \<Rightarrow> Inl (Validation (''invalid npub '' @ quote @ n @ quote @ '': must start with '' @ quote @ ''npub1'' @ quote @ '' or be 64-char hex''))
      | None \<Rightarrow>
      case List.find (\<lambda>p. \<not> is_hex_64 p) (a_pubkey a) of
        Some p \<Rightarrow> Inl (Validation (''invalid pubkey '' @ quote @ p @ quote @ '': must be 64-char hexadecimal''))
      | None \<Rightarrow>
      case List.find (\<lambda>s. \<not> server_ok s) (a_server a) of
        Some s \<Rightarrow> Inl (Validation (''invalid server URL '' @ quote @ s @ quote @ '': must start with http:// or https://''))
      | None \<Rightarrow>
      case List.find (\<lambda>r. \<not> relay_ok r) (a_relay a) of
        Some r \<Rightarrow> Inl (Validation (''invalid relay URL '' @ quote @ r @ quote @ '': must start with ws:// or wss://''))
      | None \<Rightarrow>
      if \<not> a_read_only a \<and> a_server a = [] then
        Inl (Validation ''read-write mode requires --server URL'')
      else if a_ttl_secs a = 0 then Inl (Validation ''ttl-secs must be > 0'')
      else Inr ())"

section \<open>Laws\<close>

definition no_config :: blossom_config where
  "no_config = \<lparr>c_npub = None, c_pubkey = None, c_server = [], c_manifest = None,
     c_cache_dir = None, c_read_only = None, c_nsec_file = None, c_relay = [], c_nip34_relay = [],
     c_nip34_pubkey = None, c_nip34_clone = None, c_ttl_secs = None, c_max_write_mb = None,
     c_free_period_days = None, c_max_free_size_mb = None, c_max_cache_size = None,
     c_multipart_threshold_mb = None, c_metrics_port = None\<rparr>"

text \<open>One configuration laid over another: what the merge needs of \<open>figment\<close>'s layers.\<close>

definition over :: "'a option \<Rightarrow> 'a option \<Rightarrow> 'a option" where
  "over x y = (case x of None \<Rightarrow> y | Some v \<Rightarrow> Some v)"

definition over_list :: "'a list \<Rightarrow> 'a list \<Rightarrow> 'a list" where
  "over_list x y = (if x = [] then y else x)"

definition layer :: "blossom_config \<Rightarrow> blossom_config \<Rightarrow> blossom_config" where
  "layer c d = \<lparr>c_npub = over (c_npub c) (c_npub d), c_pubkey = over (c_pubkey c) (c_pubkey d),
     c_server = over_list (c_server c) (c_server d), c_manifest = over (c_manifest c) (c_manifest d),
     c_cache_dir = over (c_cache_dir c) (c_cache_dir d), c_read_only = over (c_read_only c) (c_read_only d),
     c_nsec_file = over (c_nsec_file c) (c_nsec_file d), c_relay = over_list (c_relay c) (c_relay d),
     c_nip34_relay = over_list (c_nip34_relay c) (c_nip34_relay d),
     c_nip34_pubkey = over (c_nip34_pubkey c) (c_nip34_pubkey d),
     c_nip34_clone = over (c_nip34_clone c) (c_nip34_clone d), c_ttl_secs = over (c_ttl_secs c) (c_ttl_secs d),
     c_max_write_mb = over (c_max_write_mb c) (c_max_write_mb d),
     c_free_period_days = over (c_free_period_days c) (c_free_period_days d),
     c_max_free_size_mb = over (c_max_free_size_mb c) (c_max_free_size_mb d),
     c_max_cache_size = over (c_max_cache_size c) (c_max_cache_size d),
     c_multipart_threshold_mb = over (c_multipart_threshold_mb c) (c_multipart_threshold_mb d),
     c_metrics_port = over (c_metrics_port c) (c_metrics_port d)\<rparr>"

lemma or_arg_over: "or_arg ex c (or_arg ex d a) = or_arg ex (over c d) a"
  by (simp add: or_arg_def over_def split: option.split)

lemma map_over: "map_option f (over c d) = over (map_option f c) (map_option f d)"
  by (simp add: over_def split: option.split)

lemma or_list_over: "or_list ex c (or_list ex d a) = or_list ex (over_list c d) a"
  by (simp add: or_list_def over_list_def)

lemma merge_layers: "merge_into c (merge_into d a ex) ex = merge_into (layer c d) a ex"
  by (rule mount_args.equality)
    (simp_all add: merge_into_def layer_def or_arg_over map_over or_list_over)

lemma layer_self: "layer c c = c"
  by (simp add: layer_def over_def over_list_def option.case_eq_if)

lemma merge_no_config: "merge_into no_config a ex = a"
  by (simp add: merge_into_def no_config_def or_arg_def or_list_def)

lemma merge_all_explicit: "(\<And>n. ex n) \<Longrightarrow> merge_into c a ex = a"
  by (simp add: merge_into_def or_arg_def or_list_def)

text \<open>
  \<open>clap\<close>'s derive gives an argument the id of its field (\<open>cache_dir\<close>), the names asked for are
  its long options (\<open>cache-dir\<close>).  An unknown id has no value source, so an option of more than
  one word never counts as explicit: the configuration overrides the command line.
\<close>

lemma long_option_overridden:
  assumes "sources ''cache-dir'' = None" "sources ''ttl-secs'' = None" "sources ''read-only'' = None"
    and "c_cache_dir c = Some d" "c_ttl_secs c = Some n" "c_read_only c = Some b"
  shows "a_cache_dir (merge_into c a (is_explicit sources)) = d"
    "a_ttl_secs (merge_into c a (is_explicit sources)) = n"
    "a_read_only (merge_into c a (is_explicit sources)) = b"
  using assms by (simp_all add: merge_into_def or_arg_def is_explicit_def)

lemma find_None_all: "List.find (\<lambda>x. \<not> P x) xs = None \<longleftrightarrow> list_all P xs"
  by (auto simp: find_None_iff list_all_iff)

definition args_ok :: "mount_args \<Rightarrow> bool" where
  "args_ok a \<longleftrightarrow> (a_npub a \<noteq> [] \<or> a_pubkey a \<noteq> [] \<or> a_manifest a \<noteq> None \<or> a_nip34_pubkey a \<noteq> None)
     \<and> list_all npub_ok (a_npub a) \<and> list_all is_hex_64 (a_pubkey a) \<and> list_all server_ok (a_server a)
     \<and> list_all relay_ok (a_relay a) \<and> (a_read_only a \<or> a_server a \<noteq> []) \<and> 0 < a_ttl_secs a"

lemma validate_args_iff: "validate_args a = Inr () \<longleftrightarrow> args_ok a"
  unfolding validate_args_def args_ok_def find_None_all [symmetric]
  by (auto split: option.splits)

lemma validate_args_cases: "validate_args a = Inr () \<or> (\<exists>m. validate_args a = Inl (Validation m))"
  by (auto simp: validate_args_def split: option.split)


definition demo_config :: blossom_config where
  "demo_config = no_config\<lparr>c_server := [''https://a''], c_read_only := Some False, c_npub := Some ''npub1x''\<rparr>"

definition demo_config_env :: config_env where
  "demo_config_env = \<lparr>cf_read = \<lambda>_. None, cf_toml = \<lambda>_. None, cf_figment = \<lambda>_ _ _. Inr demo_config\<rparr>"


end
