(* ===== verification/Bfs_Payment.thy ===== *)
theory Bfs_Payment
  imports Bfs_Client
begin

text \<open>
  Payments (\<open>src/payment\<close>): decoding of Cashu payment requests and tokens, the pre-funded token
  strategy and the wallet connection with its URI.  Base64, the CBOR reader, the Nostr keys,
  NIP-04, the JSON reader and the relay are parameters; a CBOR value is the tree of its
  constructors, of which the code distinguishes five.
\<close>

section \<open>UTF-8 with replacement\<close>

text \<open>
  \<open>String::from_utf8_lossy\<close>: the length of the longest prefix that is, or could be, one
  encoded character, and whether it is a whole one.  An ill-formed prefix is replaced by
  U+FFFD.
\<close>

definition in_range :: "nat \<Rightarrow> nat \<Rightarrow> char \<Rightarrow> bool" where
  "in_range a b c \<longleftrightarrow> a \<le> (of_char c :: nat) \<and> (of_char c :: nat) \<le> b"

text \<open>The second byte's range and the number of further continuation bytes, by the first byte.\<close>

definition utf8_lead :: "char \<Rightarrow> ((char \<Rightarrow> bool) \<times> nat) option" where
  "utf8_lead c =
     (if in_range 0xC2 0xDF c then Some (in_range 0x80 0xBF, 0)
      else if in_range 0xE0 0xE0 c then Some (in_range 0xA0 0xBF, 1)
      else if in_range 0xED 0xED c then Some (in_range 0x80 0x9F, 1)
      else if in_range 0xE1 0xEF c then Some (in_range 0x80 0xBF, 1)
      else if in_range 0xF0 0xF0 c then Some (in_range 0x90 0xBF, 2)
      else if in_range 0xF1 0xF3 c then Some (in_range 0x80 0xBF, 2)
      else if in_range 0xF4 0xF4 c then Some (in_range 0x80 0x8F, 2)
      else None)"

fun utf8_tail :: "nat \<Rightarrow> string \<Rightarrow> nat \<times> bool" where
  "utf8_tail 0 cs = (0, True)"
| "utf8_tail (Suc n) [] = (0, False)"
| "utf8_tail (Suc n) (c # cs) =
     (if is_cont c then (case utf8_tail n cs of (k, ok) \<Rightarrow> (Suc k, ok)) else (0, False))"

text \<open>How many bytes of \<open>cs\<close> follow the first byte \<open>c\<close>, and whether they complete it.\<close>

definition utf8_unit :: "char \<Rightarrow> string \<Rightarrow> nat \<times> bool" where
  "utf8_unit c cs =
     (if (of_char c :: nat) < 128 then (0, True)
      else case utf8_lead c of
             None \<Rightarrow> (0, False)
           | Some (second, n) \<Rightarrow>
               (case cs of
                  [] \<Rightarrow> (0, False)
                | d # ds \<Rightarrow> if second d then (case utf8_tail n ds of (k, ok) \<Rightarrow> (Suc k, ok)) else (0, False)))"

definition replacement_char :: string where
  "replacement_char = [CHR 0xEF, CHR 0xBF, CHR 0xBD]"

function utf8_lossy :: "string \<Rightarrow> string" where
  "utf8_lossy [] = []"
| "utf8_lossy (c # cs) =
     (case utf8_unit c cs of
        (k, ok) \<Rightarrow> (if ok then c # take k cs else replacement_char) @ utf8_lossy (drop k cs))"
  by pat_completeness auto
termination
  by (relation "measure length") (auto simp: less_Suc_eq_le)

function utf8_valid :: "string \<Rightarrow> bool" where
  "utf8_valid [] = True"
| "utf8_valid (c # cs) = (case utf8_unit c cs of (k, ok) \<Rightarrow> ok \<and> utf8_valid (drop k cs))"
  by pat_completeness auto
termination
  by (relation "measure length") (auto simp: less_Suc_eq_le)

lemma utf8_lossy_valid: "utf8_valid s \<Longrightarrow> utf8_lossy s = s"
proof (induction s rule: utf8_lossy.induct)
  case (2 c cs)
  obtain k ok where u: "utf8_unit c cs = (k, ok)" by fastforce
  with "2.prems" have "ok" "utf8_valid (drop k cs)" by auto
  with u "2.IH" [OF u [symmetric]] show ?case by simp
qed simp

lemma utf8_valid_ascii: "is_ascii s \<Longrightarrow> utf8_valid s"
  by (induction s rule: utf8_valid.induct) (auto simp: is_ascii_def utf8_unit_def)

section \<open>CBOR\<close>

datatype cbor_value =
    CborInteger int
  | CborBytes bytes
  | CborText string
  | CborArray "cbor_value list"
  | CborMap "(cbor_value \<times> cbor_value) list"
  | CborOther

datatype cbor_error =
    InvalidPrefix string string
  | Base64Decode
  | CborDecode
  | MissingField string
  | TypeMismatch string string

record nut18_request =
  nq_amount :: nat
  nq_unit :: string
  nq_mints :: "string list"

record proof_item =
  pi_id :: string
  pi_amount :: nat
  pi_secret :: string
  pi_c :: string

record cashu_token =
  ct_mint :: string
  ct_unit :: string
  ct_proofs :: "proof_item list"

record cbor_env =
  cb_base64 :: "string \<Rightarrow> bytes option"
  cb_reader :: "bytes \<Rightarrow> cbor_value option"

definition creq_prefix :: string where "creq_prefix = ''creqA''"
definition cashub_prefix :: string where "cashub_prefix = ''cashuB''"

definition cbor_strip_prefix :: "string \<Rightarrow> string \<Rightarrow> cbor_error + string" where
  "cbor_strip_prefix token p =
     (case strip_prefix token p of
        None \<Rightarrow> Inl (InvalidPrefix p (concat (take (length p + 3) (utf8_chars token))))
      | Some body \<Rightarrow> Inr body)"

definition decode_b64url :: "cbor_env \<Rightarrow> string \<Rightarrow> cbor_error + bytes" where
  "decode_b64url B data = (case cb_base64 B data of None \<Rightarrow> Inl Base64Decode | Some b \<Rightarrow> Inr b)"

definition value_as_u64 :: "cbor_value \<Rightarrow> string \<Rightarrow> cbor_error + nat" where
  "value_as_u64 v field =
     (case v of
        CborInteger i \<Rightarrow>
          if 0 \<le> i \<and> i < 2 ^ 64 then Inr (nat i) else Inl (TypeMismatch field ''non-negative integer'')
      | _ \<Rightarrow> Inl (TypeMismatch field ''integer''))"

definition value_as_string :: "cbor_value \<Rightarrow> string \<Rightarrow> cbor_error + string" where
  "value_as_string v field =
     (case v of
        CborText s \<Rightarrow> Inr s
      | CborBytes b \<Rightarrow> if utf8_valid b then Inr b else Inl (TypeMismatch field ''text or utf8 bytes'')
      | _ \<Rightarrow> Inl (TypeMismatch field ''text''))"

text \<open>\<open>f(x)?\<close>\<close>

definition and_then :: "'e + 'a \<Rightarrow> ('a \<Rightarrow> 'e + 'b) \<Rightarrow> 'e + 'b" where
  "and_then r f = (case r of Inl e \<Rightarrow> Inl e | Inr x \<Rightarrow> f x)"

text \<open>A loop whose body may return early with an error.\<close>

fun try_fold :: "('s \<Rightarrow> 'a \<Rightarrow> 'e + 's) \<Rightarrow> 's \<Rightarrow> 'a list \<Rightarrow> 'e + 's" where
  "try_fold f s [] = Inr s"
| "try_fold f s (x # xs) = and_then (f s x) (\<lambda>s'. try_fold f s' xs)"

definition value_as_string_array :: "cbor_value \<Rightarrow> string \<Rightarrow> cbor_error + string list" where
  "value_as_string_array v field =
     (case v of
        CborArray items \<Rightarrow>
          try_fold (\<lambda>acc item. and_then (value_as_string item field) (\<lambda>s. Inr (acc @ [s]))) [] items
      | _ \<Rightarrow> Inl (TypeMismatch field ''array''))"

definition as_text :: "cbor_value \<Rightarrow> string option" where
  "as_text v = (case v of CborText s \<Rightarrow> Some s | _ \<Rightarrow> None)"

definition ok_or :: "'a option \<Rightarrow> string \<Rightarrow> cbor_error + 'a" where
  "ok_or x field = (case x of None \<Rightarrow> Inl (MissingField field) | Some v \<Rightarrow> Inr v)"

definition root_map :: "cbor_env \<Rightarrow> string \<Rightarrow> string \<Rightarrow> cbor_error + (cbor_value \<times> cbor_value) list" where
  "root_map B token p =
     and_then (cbor_strip_prefix token p) (\<lambda>body.
     and_then (decode_b64url B body) (\<lambda>bs.
       case cb_reader B bs of
         None \<Rightarrow> Inl CborDecode
       | Some (CborMap m) \<Rightarrow> Inr m
       | Some _ \<Rightarrow> Inl (TypeMismatch ''root'' ''map'')))"

definition creq_entry ::
  "nat option \<times> string option \<times> string list option \<Rightarrow> cbor_value \<times> cbor_value
     \<Rightarrow> cbor_error + nat option \<times> string option \<times> string list option" where
  "creq_entry s e =
     (case (s, e) of ((amount, unit, mints), (key, val)) \<Rightarrow>
        if as_text key = Some ''a'' then and_then (value_as_u64 val ''a'') (\<lambda>n. Inr (Some n, unit, mints))
        else if as_text key = Some ''u'' then
          and_then (value_as_string val ''u'') (\<lambda>u. Inr (amount, Some u, mints))
        else if as_text key = Some ''m'' then
          and_then (value_as_string_array val ''m'') (\<lambda>ms. Inr (amount, unit, Some ms))
        else Inr s)"

definition decode_creq :: "cbor_env \<Rightarrow> string \<Rightarrow> cbor_error + nut18_request" where
  "decode_creq B token =
     and_then (root_map B token creq_prefix) (\<lambda>m.
     and_then (try_fold creq_entry (None, None, None) m) (\<lambda>(amount, unit, mints).
     and_then (ok_or amount ''a'') (\<lambda>a.
     and_then (ok_or unit ''u'') (\<lambda>u.
     and_then (ok_or mints ''m'') (\<lambda>ms.
       Inr \<lparr>nq_amount = a, nq_unit = u, nq_mints = ms\<rparr>)))))"

section \<open>Cashu tokens\<close>

definition proof_entry ::
  "nat option \<times> string option \<times> string option \<Rightarrow> cbor_value \<times> cbor_value
     \<Rightarrow> cbor_error + nat option \<times> string option \<times> string option" where
  "proof_entry s e =
     (case (s, e) of ((amount, secret, c), (key, val)) \<Rightarrow>
        if as_text key = Some ''a'' then and_then (value_as_u64 val ''a'') (\<lambda>n. Inr (Some n, secret, c))
        else if as_text key = Some ''s'' then
          and_then (value_as_string val ''s'') (\<lambda>x. Inr (amount, Some x, c))
        else if as_text key = Some ''c'' then
          and_then (value_as_string val ''c'') (\<lambda>x. Inr (amount, secret, Some x))
        else Inr s)"

definition decode_proof :: "string option \<Rightarrow> cbor_value \<Rightarrow> cbor_error + proof_item" where
  "decode_proof keyset_id v =
     (case v of
        CborMap m \<Rightarrow>
          and_then (try_fold proof_entry (None, None, None) m) (\<lambda>(amount, secret, c).
          and_then (ok_or amount ''a'') (\<lambda>a.
          and_then (ok_or secret ''s'') (\<lambda>s.
          and_then (ok_or c ''c'') (\<lambda>pc.
            Inr \<lparr>pi_id = (case keyset_id of None \<Rightarrow> [] | Some i \<Rightarrow> i), pi_amount = a,
                 pi_secret = s, pi_c = pc\<rparr>))))
      | _ \<Rightarrow> Inl (TypeMismatch ''p entry'' ''map''))"

definition token_entry_field ::
  "string option \<times> proof_item list \<Rightarrow> cbor_value \<times> cbor_value \<Rightarrow> cbor_error + string option \<times> proof_item list"
where
  "token_entry_field s e =
     (case (s, e) of ((keyset_id, proofs), (key, val)) \<Rightarrow>
        if as_text key = Some ''i'' then
          and_then (value_as_string val ''i'') (\<lambda>i. Inr (Some i, proofs))
        else if as_text key = Some ''p'' then
          (case val of
             CborArray items \<Rightarrow>
               and_then (try_fold (\<lambda>ps item. and_then (decode_proof keyset_id item) (\<lambda>p. Inr (ps @ [p])))
                           proofs items)
                 (\<lambda>ps. Inr (keyset_id, ps))
           | _ \<Rightarrow> Inl (TypeMismatch ''p'' ''array''))
        else Inr s)"

definition token_entry :: "proof_item list \<Rightarrow> cbor_value \<Rightarrow> cbor_error + proof_item list" where
  "token_entry proofs entry =
     (case entry of
        CborMap m \<Rightarrow>
          and_then (try_fold token_entry_field (None, []) m) (\<lambda>(_, ps). Inr (proofs @ ps))
      | _ \<Rightarrow> Inl (TypeMismatch ''t entry'' ''map''))"

definition cashub_entry ::
  "string option \<times> string option \<times> proof_item list \<Rightarrow> cbor_value \<times> cbor_value
     \<Rightarrow> cbor_error + string option \<times> string option \<times> proof_item list" where
  "cashub_entry s e =
     (case (s, e) of ((mint, unit, proofs), (key, val)) \<Rightarrow>
        if as_text key = Some ''m'' then
          and_then (value_as_string val ''m'') (\<lambda>m. Inr (Some m, unit, proofs))
        else if as_text key = Some ''u'' then
          and_then (value_as_string val ''u'') (\<lambda>u. Inr (mint, Some u, proofs))
        else if as_text key = Some ''t'' then
          (case val of
             CborArray entries \<Rightarrow>
               and_then (try_fold token_entry proofs entries) (\<lambda>ps. Inr (mint, unit, ps))
           | _ \<Rightarrow> Inl (TypeMismatch ''t'' ''array''))
        else Inr s)"

definition decode_cashub_token :: "cbor_env \<Rightarrow> string \<Rightarrow> cbor_error + cashu_token" where
  "decode_cashub_token B token =
     and_then (root_map B token cashub_prefix) (\<lambda>m.
     and_then (try_fold cashub_entry (None, None, []) m) (\<lambda>(mint, unit, proofs).
     and_then (ok_or mint ''m'') (\<lambda>mi.
     and_then (ok_or unit ''u'') (\<lambda>u.
       Inr \<lparr>ct_mint = mi, ct_unit = u, ct_proofs = proofs\<rparr>))))"

text \<open>A proof is given the keyset id read so far, so the order of the map's entries matters.\<close>

lemma proofs_before_id:
  "token_entry [] (CborMap [(CborText ''p'', CborArray [CborMap [(CborText ''a'', CborInteger 1),
      (CborText ''s'', CborText ''s''), (CborText ''c'', CborText ''c'')]]), (CborText ''i'', CborText ''k'')])
    = Inr [\<lparr>pi_id = [], pi_amount = 1, pi_secret = ''s'', pi_c = ''c''\<rparr>]"
  "token_entry [] (CborMap [(CborText ''i'', CborText ''k''), (CborText ''p'', CborArray [CborMap
      [(CborText ''a'', CborInteger 1), (CborText ''s'', CborText ''s''), (CborText ''c'', CborText ''c'')]])])
    = Inr [\<lparr>pi_id = ''k'', pi_amount = 1, pi_secret = ''s'', pi_c = ''c''\<rparr>]"
  by (simp_all add: token_entry_def token_entry_field_def decode_proof_def proof_entry_def and_then_def
      as_text_def value_as_u64_def value_as_string_def ok_or_def)

section \<open>The pre-funded token\<close>

definition token_from_file :: "string option \<Rightarrow> payment_error + string" where
  "token_from_file content =
     (case content of
        None \<Rightarrow> Inl TokenFileRead
      | Some c \<Rightarrow>
          if starts_with (str_trim c) cashub_prefix then Inr (str_trim c)
          else Inl (InvalidToken ''file does not contain a valid cashuB token''))"

definition token_pay :: "cbor_env \<Rightarrow> string \<Rightarrow> 'w pay" where
  "token_pay B token payment_request w =
     (case decode_creq B payment_request of Inr req \<Rightarrow> (Inr token, w) | Inl e \<Rightarrow> (Inr token, w))"

definition no_payment :: "'w pay" where
  "no_payment payment_request w = (Inl NotConfigured, w)"

section \<open>The wallet URI\<close>

record nwc_config =
  nc_wallet_pubkey :: string
  nc_relay :: string
  nc_secret :: string

record ('w, 'j) nwc_env =
  nw_pubkey :: "string \<Rightarrow> string option"
  nw_secret :: "string \<Rightarrow> string option"
  nw_public_key :: "string \<Rightarrow> string"
  nw_request_json :: "string \<Rightarrow> string option"
  nw_encrypt :: "string \<Rightarrow> string \<Rightarrow> string \<Rightarrow> string option"
  nw_decrypt :: "string \<Rightarrow> string \<Rightarrow> string \<Rightarrow> string option"
  nw_sign :: "string \<Rightarrow> nat \<Rightarrow> string \<Rightarrow> string \<Rightarrow> string option"
  nw_add_relay :: "string \<Rightarrow> 'w \<Rightarrow> string option \<times> 'w"
  nw_send :: "string \<Rightarrow> 'w \<Rightarrow> string option \<times> 'w"
  nw_fetch :: "nat \<Rightarrow> string \<Rightarrow> string \<Rightarrow> nat \<Rightarrow> 'w \<Rightarrow> (string + string list) \<times> 'w"
  nw_now :: nat
  nw_json :: "string \<Rightarrow> 'j option"
  nw_get :: "'j \<Rightarrow> string \<Rightarrow> 'j option"
  nw_str :: "'j \<Rightarrow> string option"

text \<open>\<open>char::to_digit(16)\<close>\<close>

definition hex_digit :: "char \<Rightarrow> nat option" where
  "hex_digit c =
     (if is_ascii_digit c then Some (of_char c - 48)
      else if in_range 65 70 c then Some (of_char c - 55)
      else if in_range 97 102 c then Some (of_char c - 87)
      else None)"

text \<open>The loop: a \<open>%\<close> with two bytes after it, both hex digits, is one byte; anything else is
  itself.\<close>

fun percent_bytes :: "string \<Rightarrow> string" where
  "percent_bytes [] = []"
| "percent_bytes (c # h # l # rest) =
     (if c = CHR ''%'' then
        (case (hex_digit h, hex_digit l) of
           (Some hi, Some lo) \<Rightarrow> char_of (hi * 16 + lo) # percent_bytes rest
         | _ \<Rightarrow> c # percent_bytes (h # l # rest))
      else c # percent_bytes (h # l # rest))"
| "percent_bytes (c # rest) = c # percent_bytes rest"

definition percent_decode :: "string \<Rightarrow> string" where
  "percent_decode s = utf8_lossy (percent_bytes s)"

definition query_pair :: "string option \<times> string option \<Rightarrow> string \<Rightarrow> string option \<times> string option" where
  "query_pair s pair =
     (case (s, split_once (CHR ''='') pair) of
        ((relay, secret), Some (key, value)) \<Rightarrow>
          if key = ''relay'' then (Some (percent_decode value), secret)
          else if key = ''secret'' then (relay, Some (percent_decode value))
          else s
      | (_, None) \<Rightarrow> s)"

definition parse_nwc_uri :: "('w, 'j) nwc_env \<Rightarrow> string \<Rightarrow> nwc_parse_error + nwc_config" where
  "parse_nwc_uri N uri =
     (case strip_prefix uri ''nostr+walletconnect://'' of
        None \<Rightarrow> Inl InvalidScheme
      | Some rest \<Rightarrow>
          let (pubkey_part, query) = (case split_once (CHR ''?'') rest of None \<Rightarrow> (rest, []) | Some pq \<Rightarrow> pq);
              wallet_pubkey_hex = str_trim pubkey_part
          in if wallet_pubkey_hex = [] then Inl MissingPubkey
             else
               (case nw_pubkey N wallet_pubkey_hex of
                  None \<Rightarrow> Inl InvalidPubkey
                | Some wallet \<Rightarrow>
                    (case foldl query_pair (None, None) (split_on (CHR ''&'') query) of
                       (None, _) \<Rightarrow> Inl MissingRelay
                     | (Some _, None) \<Rightarrow> Inl MissingSecret
                     | (Some relay, Some secret_hex) \<Rightarrow>
                         (case nw_secret N secret_hex of
                            None \<Rightarrow> Inl InvalidSecret
                          | Some secret \<Rightarrow>
                              Inr \<lparr>nc_wallet_pubkey = wallet, nc_relay = relay, nc_secret = secret\<rparr>))))"

definition nwc_new :: "('w, 'j) nwc_env \<Rightarrow> string \<Rightarrow> payment_error + nwc_config" where
  "nwc_new N uri = (case parse_nwc_uri N uri of Inl e \<Rightarrow> Inl (NwcParse e) | Inr c \<Rightarrow> Inr c)"

section \<open>Paying through the wallet\<close>

text \<open>One response event: skipped, or the loop ends with a token or the wallet's error.\<close>

definition response_step :: "('w, 'j) nwc_env \<Rightarrow> nwc_config \<Rightarrow> string \<Rightarrow> (payment_error + string) option" where
  "response_step N c content =
     (case nw_decrypt N (nc_secret c) (nc_wallet_pubkey c) content of
        None \<Rightarrow> None
      | Some decrypted \<Rightarrow>
          (case nw_json N decrypted of
             None \<Rightarrow> None
           | Some response \<Rightarrow>
               (case nw_get N response ''error'' of
                  Some error \<Rightarrow>
                    Some (Inl (WalletRejected
                      (case Option.bind (nw_get N error ''message'') (nw_str N) of
                         None \<Rightarrow> ''unknown wallet error'' | Some m \<Rightarrow> m)))
                | None \<Rightarrow>
                    let field = (\<lambda>k. Option.bind (Option.bind (nw_get N response ''result'') (\<lambda>r. nw_get N r k))
                                       (nw_str N))
                    in (case field ''preimage'' of
                          Some t \<Rightarrow> Some (Inr t)
                        | None \<Rightarrow> map_option Inr (field ''token'')))))"

fun find_token :: "('w, 'j) nwc_env \<Rightarrow> nwc_config \<Rightarrow> string list \<Rightarrow> payment_error + string" where
  "find_token N c [] = Inl NoResponse"
| "find_token N c (e # es) =
     (case response_step N c e of None \<Rightarrow> find_token N c es | Some r \<Rightarrow> r)"

definition pay_async :: "('w, 'j) nwc_env \<Rightarrow> nwc_config \<Rightarrow> 'w pay" where
  "pay_async N c payment_request w =
     (case nw_request_json N payment_request of
        None \<Rightarrow> (Inl NwcSerialize, w)
      | Some request \<Rightarrow>
          (case nw_encrypt N (nc_secret c) (nc_wallet_pubkey c) request of
             None \<Rightarrow> (Inl NwcEncrypt, w)
           | Some content \<Rightarrow>
               (case nw_sign N (nc_secret c) 23194 (nc_wallet_pubkey c) content of
                  None \<Rightarrow> (Inl NwcSign, w)
                | Some ev \<Rightarrow>
                    (case nw_add_relay N (nc_relay c) w of
                       (Some e, w1) \<Rightarrow> (Inl (NwcRelay e), w1)
                     | (None, w1) \<Rightarrow>
                         (case nw_send N ev w1 of
                            (Some e, w2) \<Rightarrow> (Inl (NwcSend e), w2)
                          | (None, w2) \<Rightarrow>
                              (case nw_fetch N 23195 (nc_wallet_pubkey c) (nw_public_key N (nc_secret c)) (nw_now N) w2 of
                                 (Inl e, w3) \<Rightarrow> (Inl (NwcTimeout e), w3)
                               | (Inr events, w3) \<Rightarrow> (find_token N c events, w3)))))))"

text \<open>\<open>pay\<close> runs \<open>pay_async\<close> on a thread of its own, which may fail to get a runtime.\<close>

definition nwc_pay :: "('w, 'j) nwc_env \<Rightarrow> string option \<Rightarrow> nwc_config \<Rightarrow> 'w pay" where
  "nwc_pay N runtime_error c payment_request w =
     (case runtime_error of
        Some e \<Rightarrow> (Inl (NwcRuntime e), w)
      | None \<Rightarrow> pay_async N c payment_request w)"

datatype payment_handler = HandlerToken string | HandlerNwc string string string string | HandlerNone

definition build_strategy ::
  "cbor_env \<Rightarrow> ('w, 'j) nwc_env \<Rightarrow> string option \<Rightarrow> payment_handler \<Rightarrow> 'w pay option" where
  "build_strategy B N runtime_error h =
     (case h of
        HandlerToken token \<Rightarrow> Some (token_pay B token)
      | HandlerNwc uri _ _ _ \<Rightarrow>
          (case nwc_new N uri of Inl _ \<Rightarrow> None | Inr c \<Rightarrow> Some (nwc_pay N runtime_error c))
      | HandlerNone \<Rightarrow> None)"

section \<open>Percent encoding\<close>

text \<open>\<open>e\<close> is an encoding of the bytes \<open>s\<close>: every byte is literal, or escaped with two hex digits of
  either case; \<open>%\<close> is always escaped.\<close>

inductive encodes :: "string \<Rightarrow> string \<Rightarrow> bool" where
  enc_nil: "encodes [] []"
| enc_literal: "c \<noteq> CHR ''%'' \<Longrightarrow> encodes s e \<Longrightarrow> encodes (c # s) (c # e)"
| enc_escaped: "hex_digit h = Some hi \<Longrightarrow> hex_digit l = Some lo \<Longrightarrow> encodes s e \<Longrightarrow>
    encodes (char_of (hi * 16 + lo) # s) (CHR ''%'' # h # l # e)"

lemma percent_bytes_literal: "c \<noteq> CHR ''%'' \<Longrightarrow> percent_bytes (c # e) = c # percent_bytes e"
  by (cases e; cases "tl e") auto

lemma percent_bytes_encodes: "encodes s e \<Longrightarrow> percent_bytes e = s"
  by (induction rule: encodes.induct) (simp_all add: percent_bytes_literal)

definition hex_char :: "nat \<Rightarrow> char" where
  "hex_char n = (if n < 10 then char_of (48 + n) else char_of (55 + n))"

definition encode_byte :: "char \<Rightarrow> string" where
  "encode_byte c =
     (if is_ascii_alnum c then [c]
      else [CHR ''%'', hex_char (of_char c div 16), hex_char (of_char c mod 16)])"

definition percent_encode :: "string \<Rightarrow> string" where
  "percent_encode s = concat (map encode_byte s)"

lemma hex_digit_char: "n < 16 \<Longrightarrow> hex_digit (hex_char n) = Some n"
  by (auto simp: hex_digit_def hex_char_def is_ascii_digit_def in_range_def of_char_of)

lemma of_char_256: "(of_char (c :: char) :: nat) < 256"
  by (metis of_char_mod_256 mod_less_divisor zero_less_numeral)

lemma of_char_div_16: "(of_char (c :: char) :: nat) div 16 < 16"
  using of_char_256 [of c] by (simp add: less_mult_imp_div_less)

lemma encodes_percent_encode: "encodes s (percent_encode s)"
proof (induction s)
  case (Cons c s)
  let ?n = "of_char c :: nat"
  show ?case
  proof (cases "is_ascii_alnum c")
    case True
    then have "c \<noteq> CHR ''%''" by (auto simp: is_ascii_alnum_def is_ascii_digit_def)
    with Cons True show ?thesis by (simp add: percent_encode_def encode_byte_def enc_literal)
  next
    case False
    have "?n div 16 < 16" "?n mod 16 < 16" using of_char_div_16 by simp_all
    moreover have "char_of (?n div 16 * 16 + ?n mod 16) = c" by simp
    ultimately show ?thesis
      using enc_escaped [OF hex_digit_char hex_digit_char Cons, of "?n div 16" "?n mod 16"] False
      by (simp add: percent_encode_def encode_byte_def)
  qed
qed (simp add: percent_encode_def enc_nil)

lemma percent_decode_encode: "utf8_valid s \<Longrightarrow> percent_decode (percent_encode s) = s"
  by (simp add: percent_decode_def percent_bytes_encodes [OF encodes_percent_encode] utf8_lossy_valid)

lemma percent_encode_chars:
  "x \<in> set (percent_encode s) \<Longrightarrow> is_ascii_alnum x \<or> x = CHR ''%''"
proof -
  have h: "is_ascii_alnum (hex_char n)" if "n < 16" for n
    using that by (auto simp: hex_char_def is_ascii_alnum_def is_ascii_digit_def of_char_of)
  have "is_ascii_alnum x \<or> x = CHR ''%''" if "x \<in> set (encode_byte c)" for c
    using that h [of "of_char c div 16"] h [of "of_char c mod 16"] of_char_div_16 [of c]
    by (auto simp: encode_byte_def split: if_splits)
  then show "x \<in> set (percent_encode s) \<Longrightarrow> is_ascii_alnum x \<or> x = CHR ''%''"
    by (auto simp: percent_encode_def)
qed

lemma alnum_special:
  "\<not> is_ascii_alnum (CHR ''&'')" "\<not> is_ascii_alnum (CHR ''='')" "\<not> is_ascii_alnum (CHR ''?'')"
  by (simp_all add: is_ascii_alnum_def is_ascii_digit_def)

lemma split_once_append: "c \<notin> set a \<Longrightarrow> split_once c (a @ c # b) = Some (a, b)"
  by (induction a) auto

definition print_param :: "string \<times> string \<Rightarrow> string" where
  "print_param p = fst p @ ''='' @ percent_encode (snd p)"

definition print_nwc_uri :: "string \<Rightarrow> (string \<times> string) list \<Rightarrow> string" where
  "print_nwc_uri pk params =
     ''nostr+walletconnect://'' @ pk @ ''?'' @ str_join ''&'' (map print_param params)"

definition param_ok :: "string \<times> string \<Rightarrow> bool" where
  "param_ok p \<longleftrightarrow> CHR ''='' \<notin> set (fst p) \<and> CHR ''&'' \<notin> set (fst p) \<and> utf8_valid (snd p)"

lemma query_pair_print:
  "param_ok p \<Longrightarrow> query_pair (r, s) (print_param p) =
     (if fst p = ''relay'' then Some (snd p) else r, if fst p = ''secret'' then Some (snd p) else s)"
  using split_once_append [of "CHR ''=''" "fst p" "percent_encode (snd p)"]
  by (auto simp: query_pair_def print_param_def param_ok_def percent_decode_encode)

lemma query_fold:
  "list_all param_ok ps \<Longrightarrow> foldl query_pair (r, s) (map print_param ps) =
     (case map_of (rev ps) ''relay'' of None \<Rightarrow> r | Some v \<Rightarrow> Some v,
      case map_of (rev ps) ''secret'' of None \<Rightarrow> s | Some v \<Rightarrow> Some v)"
proof (induction ps arbitrary: r s)
  case (Cons p ps)
  then show ?case
    by (cases p) (auto simp: query_pair_print map_add_def split: option.split)
qed simp

lemma param_no_amp: "param_ok p \<Longrightarrow> CHR ''&'' \<notin> set (print_param p)"
  using percent_encode_chars [of "CHR ''&''" "snd p"] alnum_special(1)
  by (auto simp: print_param_def param_ok_def)

lemma query_parts:
  assumes "list_all param_ok ps"
  shows "foldl query_pair (None, None) (split_on (CHR ''&'') (str_join ''&'' (map print_param ps)))
    = (map_of (rev ps) ''relay'', map_of (rev ps) ''secret'')"
proof (cases "ps = []")
  case True
  then show ?thesis by (simp add: query_pair_def)
next
  case False
  have "split_on (CHR ''&'') (str_join ''&'' (map print_param ps)) = map print_param ps"
    using split_on_join [of "map print_param ps" "CHR ''&''"] False assms param_no_amp
    by (auto simp: list_all_iff)
  then show ?thesis
    using query_fold [OF assms, of None None] by (simp split: option.split)
qed

text \<open>C39. Wallet URIs round-trip: a URI with an alphanumeric wallet key and percent-encoded
  parameters, in any order and with repetitions and foreign parameters, is parsed to exactly
  the key, the last relay and the last secret it was printed from; a missing parameter or a key
  or secret the key library refuses gives the matching error.\<close>

theorem nwc_uri_roundtrip:
  assumes "list_all is_ascii_alnum pk" and "pk \<noteq> []" and "list_all param_ok params"
  shows "parse_nwc_uri N (print_nwc_uri pk params) =
    (case nw_pubkey N pk of
       None \<Rightarrow> Inl InvalidPubkey
     | Some wallet \<Rightarrow>
         (case (map_of (rev params) ''relay'', map_of (rev params) ''secret'') of
            (None, _) \<Rightarrow> Inl MissingRelay
          | (Some _, None) \<Rightarrow> Inl MissingSecret
          | (Some relay, Some hex) \<Rightarrow>
              (case nw_secret N hex of
                 None \<Rightarrow> Inl InvalidSecret
               | Some secret \<Rightarrow> Inr \<lparr>nc_wallet_pubkey = wallet, nc_relay = relay, nc_secret = secret\<rparr>)))"
proof -
  let ?q = "str_join ''&'' (map print_param params)"
  have p: "strip_prefix (print_nwc_uri pk params) ''nostr+walletconnect://'' = Some (pk @ CHR ''?'' # ?q)"
    by (simp add: strip_prefix_def print_nwc_uri_def)
  have "CHR ''?'' \<notin> set pk"
    using assms(1) alnum_special(3) by (auto simp: list_all_iff)
  then have s: "split_once (CHR ''?'') (pk @ CHR ''?'' # ?q) = Some (pk, ?q)"
    by (rule split_once_append)
  show ?thesis
    by (cases "nw_pubkey N pk")
      (simp_all add: parse_nwc_uri_def p s str_trim_alnum [OF assms(1)] assms(2) query_parts [OF assms(3)])
qed

definition demo_nwc :: "(unit, unit) nwc_env" where
  "demo_nwc = \<lparr>nw_pubkey = Some, nw_secret = Some, nw_public_key = id, nw_request_json = Some,
     nw_encrypt = (\<lambda>_ _ m. Some m), nw_decrypt = (\<lambda>_ _ m. Some m), nw_sign = (\<lambda>_ _ _ _. None),
     nw_add_relay = (\<lambda>_ w. (None, w)), nw_send = (\<lambda>_ w. (None, w)), nw_fetch = (\<lambda>_ _ _ _ w. (Inr [], w)),
     nw_now = 0, nw_json = (\<lambda>_. None), nw_get = (\<lambda>_ _. None), nw_str = (\<lambda>_. None)\<rparr>"

theorem nwc_uri_roundtrip_witness:
  "parse_nwc_uri demo_nwc (print_nwc_uri ''ab'' [(''relay'', ''x''), (''secret'', ''5f''), (''relay'', ''wss://r'')])
    = Inr \<lparr>nc_wallet_pubkey = ''ab'', nc_relay = ''wss://r'', nc_secret = ''5f''\<rparr>"
proof -
  have "list_all param_ok [(''relay'', ''x''), (''secret'', ''5f''), (''relay'', ''wss://r'')]"
    by code_simp
  moreover have "list_all is_ascii_alnum ''ab''"
    by (simp add: is_ascii_alnum_def)
  ultimately show ?thesis
    using nwc_uri_roundtrip [of "''ab''" _ demo_nwc] by (simp add: demo_nwc_def)
qed

end
