(* ===== verification/Bfs_Vfiles.thy ===== *)
theory Bfs_Vfiles
  imports Bfs_Prelude
begin

text \<open>
  The generated files of a mount (\<open>src/fuse/vfiles.rs\<close>): \<open>README.txt\<close> and \<open>STATUS.txt\<close>.
  Text outside ASCII is written as its UTF-8 bytes; the clock is an argument.
\<close>

record mount_info =
  mi_mountpoint :: string
  mi_npub :: string
  mi_server_count :: nat
  mi_blob_count :: nat
  mi_max_blobs :: nat
  mi_cache_dir :: string
  mi_expiring_soon :: "(string \<times> nat) list"

definition em_dash :: string where
  "em_dash = [CHR 0xE2, CHR 0x80, CHR 0x94]"

definition bullet :: string where
  "bullet = [CHR 0xE2, CHR 0x80, CHR 0xA2]"

definition text_lines :: "string list \<Rightarrow> bytes" where
  "text_lines ls = concat (map (\<lambda>l. l @ nl) ls)"

definition generate_readme :: "mount_info \<Rightarrow> bytes" where
  "generate_readme info = text_lines
    [''BlossomFS '' @ em_dash @ '' Read-only Blossom/Nostr Media Mount'',
     ''============================================='',
     [],
     ''Mountpoint: '' @ mi_mountpoint info,
     ''Pubkey (npub): '' @ mi_npub info,
     [],
     ''Directory Structure'',
     ''-------------------'',
     ''This mount provides a hash-first view of Blossom media with three orthogonal'',
     ''navigation views:'',
     [],
     ''by-sha256/     Browse files by their SHA-256 hash'',
     ''by-type/       Browse files by MIME type (e.g., image/png, video/mp4)'',
     ''by-date/       Browse files by upload date (YYYY/MM/DD)'',
     [],
     ''Key Concepts'',
     ''------------'',
     bullet @ '' Files are content-addressed by SHA-256 hash'',
     bullet @ '' Each file'' @ quote @ ''s filename is the SHA-256 hash with an optional extension'',
     bullet @ '' The same blob from different servers or dates maps to the same filename'',
     bullet @ '' This is a read-only filesystem '' @ em_dash @ '' all write operations are rejected'',
     [],
     ''Mounting'',
     ''--------'',
     ''You are currently browsing the Blossom content for pubkey: '' @ mi_npub info]"

definition expiring_line :: "nat \<Rightarrow> string \<times> nat \<Rightarrow> string" where
  "expiring_line now e =
     (case e of (name, expiry) \<Rightarrow>
        let days_left = (if expiry > now then (expiry - now) div 86400 else 0)
        in ''  '' @ name @ '' '' @ em_dash @ '' expires in '' @ nat_to_string days_left @ '' day(s) (ts=''
           @ nat_to_string expiry @ '')'')"

definition generate_status :: "nat \<Rightarrow> mount_info \<Rightarrow> bytes" where
  "generate_status now info =
     (let blob_line =
            (if mi_blob_count info \<ge> mi_max_blobs info \<and> mi_max_blobs info > 0
             then ''Total blobs: '' @ nat_to_string (mi_blob_count info) @ '' (capped at ''
                  @ nat_to_string (mi_max_blobs info) @ '' '' @ em_dash @ '' more may exist)''
             else ''Total blobs: '' @ nat_to_string (mi_blob_count info));
          content = text_lines
            [''BlossomFS Status'', ''==============='', [],
             ''Servers configured: '' @ nat_to_string (mi_server_count info),
             blob_line,
             ''Pubkey: '' @ mi_npub info,
             ''Cache directory: '' @ mi_cache_dir info,
             ''Last updated: '' @ nat_to_string now];
          soon =
            (if mi_expiring_soon info = [] then []
             else text_lines ([[], ''Expiring Soon (within 7 days)'', ''-----------------------------'']
                    @ map (expiring_line now) (mi_expiring_soon info)))
      in content @ soon @ text_lines [[], ''Note: This file is regenerated on each read''])"

end
