(* ===== verification/Bfs_Mount.thy ===== *)
theory Bfs_Mount
  imports Bfs_Nip34 Bfs_Config Bfs_Payment Bfs_Control Bfs_Tree_Build Bfs_Vfiles
begin

text \<open>
  Starting a mount (\<open>src/main.rs\<close>): \<open>run_mount\<close> builds the tree from every configured source,
  reads the keys, restores the persisted drive, chooses the payment strategy and the
  constructor; after the unmount the drive is published.  \<open>None\<close> is a panic.  The servers are
  the client's HTTP function over the world \<open>'w\<close>; relays, files, the clock and the JSON writer
  are parameters.
\<close>

section \<open>Environment\<close>

record 'w main_env =
  me_nostr :: nostr_env
  me_client :: "'w cenv"
  me_cbor :: cbor_env
  me_db :: mime_db
  me_uni :: unicode_tables
  me_exists :: "fs_path \<Rightarrow> bool"
  me_display :: "fs_path \<Rightarrow> string"
  me_create_dir :: "fs_path \<Rightarrow> bool"
  me_meta_json :: "file_meta \<Rightarrow> string option"
  me_nwc :: "string \<Rightarrow> 'w pay option"   \<comment> \<open>\<open>NwcStrategy::new\<close>, see \<open>nwc_new\<close> and \<open>nwc_pay\<close>\<close>
  me_public_key :: "string \<Rightarrow> string"
  me_auth :: "string \<Rightarrow> auth_env"
  me_now :: nat

record build =
  b_tree :: tree
  b_count :: nat

section \<open>Helpers\<close>

definition resolve_pubkey_hexes :: "nostr_env \<Rightarrow> mount_args \<Rightarrow> string list" where
  "resolve_pubkey_hexes N a =
     a_pubkey a
     @ List.map_filter (\<lambda>n. case parse_npub N n of Inl _ \<Rightarrow> None | Inr pk \<Rightarrow> Some pk) (a_npub a)"

definition ensure_drive_path :: "tree \<Rightarrow> nat \<Rightarrow> string \<Rightarrow> nat \<times> tree" where
  "ensure_drive_path t r path =
     (let trimmed = trim_start_matches (CHR ''/'') path
      in dir_path t r (filter (\<lambda>c. c \<noteq> []) (split_on (CHR ''/'') trimmed)))"

definition add_drive_file ::
  "tree \<Rightarrow> nat \<Rightarrow> string \<Rightarrow> string \<Rightarrow> nat \<Rightarrow> string option \<Rightarrow> string list \<Rightarrow> bool \<times> tree" where
  "add_drive_file t r path sha256 sz mime servers =
     (if \<not> is_hex_64 sha256 then (False, t)
      else
        let parts = split_on (CHR ''/'') (trim_start_matches (CHR ''/'') path);
            (current, t1) = dir_path t r (filter (\<lambda>d. d \<noteq> []) (butlast parts));
            filename = last parts
        in if filename = [] then (False, t1)
           else
             let url = (case servers of
                          s # _ \<Rightarrow> trim_end_matches (CHR ''/'') s @ ''/'' @ sha256
                        | [] \<Rightarrow> ''blossom://'' @ sha256)
             in (True, snd (add_remote_file t1 current filename url sha256 sz mime 0 None)))"

section \<open>Servers\<close>

definition push_new :: "string list \<Rightarrow> string \<Rightarrow> string list" where
  "push_new servers s = (if s \<in> set servers then servers else servers @ [s])"

definition effective_servers :: "nostr_env \<Rightarrow> mount_args \<Rightarrow> string option \<Rightarrow> string list" where
  "effective_servers N a pubkey_hex =
     (if a_relay a = [] then a_server a
      else case pubkey_hex of
             None \<Rightarrow> a_server a
           | Some pk \<Rightarrow>
               (case discover_servers N (a_relay a) pk of
                  Inl _ \<Rightarrow> a_server a
                | Inr servers \<Rightarrow> foldl push_new (a_server a) servers))"

definition valid_descriptors :: "blob_descriptor list \<Rightarrow> blob_descriptor list" where
  "valid_descriptors raw = filter (\<lambda>d. is_ok (validate_descriptor d)) raw"

definition manifest_source ::
  "'w main_env \<Rightarrow> mount_args \<Rightarrow> nat option \<Rightarrow> build \<Rightarrow> manifest_error + build" where
  "manifest_source M a public_dir b =
     (case a_manifest a of
        None \<Rightarrow> Inr b
      | Some path \<Rightarrow>
          (case load_manifest (ce_json_list (me_client M)) (ne_read_file (me_nostr M) path) of
             Inl e \<Rightarrow> Inl e
           | Inr raw \<Rightarrow>
               let ds = valid_descriptors raw; b1 = b\<lparr>b_count := b_count b + length ds\<rparr>
               in case public_dir of
                    None \<Rightarrow> Inr b1
                  | Some pd \<Rightarrow>
                      let (local_dir, t1) = add_directory (b_tree b1) pd ''local'';
                          (servers_dir, t2) = add_directory t1 local_dir ''servers'';
                          (manifest_dir, t3) = add_directory t2 servers_dir ''manifest''
                      in Inr (b1\<lparr>b_tree := build_from_descriptors (me_db M) (me_uni M) t3 manifest_dir ds\<rparr>)))"

text \<open>One server of one key: the blobs collected for the key, the world, the tree and count.\<close>

type_synonym 'w listing = "blob_descriptor list \<times> 'w \<times> build"

definition list_server ::
  "'w main_env \<Rightarrow> nat \<Rightarrow> string \<Rightarrow> nat \<Rightarrow> string \<Rightarrow> 'w listing \<Rightarrow> 'w listing option" where
  "list_server M mx pk_label servers_dir server_url s =
     (case (s, sanitize_hostname server_url) of
        (_, None) \<Rightarrow> None
      | ((ds, w, b), Some host) \<Rightarrow>
          let (host_dir, t1) = add_directory (b_tree b) servers_dir host in
          (case list_all_blobs (me_client M) (client_new server_url) pk_label mx 500 w of
             (Inl _, w') \<Rightarrow> Some (ds, w', b\<lparr>b_tree := t1\<rparr>)
           | (Inr raw, w') \<Rightarrow>
               let vs = valid_descriptors raw
               in Some (ds @ vs, w', b\<lparr>b_tree := build_from_descriptors (me_db M) (me_uni M) t1 host_dir vs,
                                       b_count := b_count b + length vs\<rparr>)))"

definition list_pubkey ::
  "'w main_env \<Rightarrow> nat \<Rightarrow> string list \<Rightarrow> nat \<Rightarrow> string \<Rightarrow> 'w \<times> build \<Rightarrow> ('w \<times> build) option" where
  "list_pubkey M mx servers pd pk_label s =
     (case s of (w, b) \<Rightarrow>
        let (pubkey_dir, t1) = add_directory (b_tree b) pd pk_label;
            (servers_dir, t2) = add_directory t1 pubkey_dir ''servers''
        in case build_all (list_server M mx pk_label servers_dir) servers ([], w, b\<lparr>b_tree := t2\<rparr>) of
             None \<Rightarrow> None
           | Some (ds, w', b') \<Rightarrow>
               if ds = [] then Some (w', b')
               else
                 let (all_dir, t3) = add_directory (b_tree b') pubkey_dir ''all-servers''
                 in Some (w', b'\<lparr>b_tree := build_by_sha256_only (me_db M) (me_uni M) t3 all_dir ds\<rparr>))"

definition server_source ::
  "'w main_env \<Rightarrow> mount_args \<Rightarrow> string list \<Rightarrow> string list \<Rightarrow> nat option \<Rightarrow> 'w \<times> build
     \<Rightarrow> ('w \<times> build) option" where
  "server_source M a servers pubkey_hexes public_dir s =
     (case public_dir of
        None \<Rightarrow> Some s
      | Some pd \<Rightarrow>
          if servers = [] then Some s
          else build_all (list_pubkey M (a_max_blobs a) servers pd)
                 (if pubkey_hexes = [] then [''all''] else pubkey_hexes) s)"

section \<open>Drives and metadata\<close>

definition drive_entry_step :: "nat \<Rightarrow> string list \<Rightarrow> build \<Rightarrow> drive_entry \<Rightarrow> build" where
  "drive_entry_step drive_inode servers b e =
     (case e of
        DriveFile f \<Rightarrow>
          (case add_drive_file (b_tree b) drive_inode (df_path f) (df_sha256 f)
                  (case df_size f of None \<Rightarrow> 0 | Some n \<Rightarrow> n) (df_mime f) servers of
             (added, t) \<Rightarrow> b\<lparr>b_tree := t, b_count := b_count b + (if added then 1 else 0)\<rparr>)
      | DriveFolder path \<Rightarrow> b\<lparr>b_tree := snd (ensure_drive_path (b_tree b) drive_inode path)\<rparr>)"

definition drive_step :: "nat \<Rightarrow> string list \<Rightarrow> build \<Rightarrow> parsed_drive \<Rightarrow> build" where
  "drive_step pk_dir servers b d =
     (let (drive_inode, t) = add_directory (b_tree b) pk_dir (pd_id d)
      in foldl (drive_entry_step drive_inode servers) (b\<lparr>b_tree := t\<rparr>) (pd_entries d))"

definition drive_source ::
  "nostr_env \<Rightarrow> mount_args \<Rightarrow> string list \<Rightarrow> string option \<Rightarrow> build \<Rightarrow> build" where
  "drive_source N a servers pubkey_hex b =
     (if a_relay a = [] then b
      else case pubkey_hex of
             None \<Rightarrow> b
           | Some pk \<Rightarrow>
               (case fetch_drive_events N (a_relay a) pk of
                  Inl _ \<Rightarrow> b
                | Inr drives \<Rightarrow>
                    let (drives_root, t1) = add_directory (b_tree b) (root (b_tree b)) ''drives'';
                        (pk_dir, t2) = add_directory t1 drives_root pk
                    in foldl (drive_step pk_dir servers) (b\<lparr>b_tree := t2\<rparr>) drives))"

record nip94_state =
  n9_build :: build
  n9_seen :: "string set"
  n9_releases :: "tollgate_release list"

text \<open>\<open>None\<close> is the panic of \<open>&sha[..12]\<close>, which the check before it rules out.\<close>

definition nip94_step ::
  "'w main_env \<Rightarrow> nat \<Rightarrow> nat \<Rightarrow> nip94_record \<Rightarrow> nip94_state \<Rightarrow> nip94_state option" where
  "nip94_step M meta_root pk_dir r s =
     (let meta = nr_meta r in
      case fm_sha256 meta of
        None \<Rightarrow> Some s
      | Some sha \<Rightarrow>
          if \<not> is_hex_64 sha then Some s
          else
            let json = (case me_meta_json M meta of None \<Rightarrow> [] | Some j \<Rightarrow> j);
                t1 = snd (add_static_file (me_now M) (b_tree (n9_build s)) meta_root (sha @ ''.json'') json);
                s1 = s\<lparr>n9_build := (n9_build s)\<lparr>b_tree := t1\<rparr>\<rparr>
            in case (case fm_url meta of
                       None \<Rightarrow> Some s1
                     | Some url \<Rightarrow>
                         let display_name = (case fm_filename meta of None \<Rightarrow> sha | Some f \<Rightarrow> f) in
                         (case (if display_name \<in> n9_seen s1
                                then map_option (\<lambda>p. p @ ''-'' @ display_name) (slice_to 12 sha)
                                else Some display_name) of
                            None \<Rightarrow> None
                          | Some unique_name \<Rightarrow>
                              Some (s1\<lparr>n9_seen := insert display_name (n9_seen s1),
                                      n9_build := (n9_build s1)\<lparr>
                                        b_tree := snd (add_remote_file (b_tree (n9_build s1)) pk_dir unique_name
                                          url sha (case fm_size meta of None \<Rightarrow> 0 | Some n \<Rightarrow> n)
                                          (fm_mime meta) 0 None),
                                        b_count := b_count (n9_build s1) + 1\<rparr>\<rparr>))) of
                 None \<Rightarrow> None
               | Some s2 \<Rightarrow>
                   Some (case parse_tollgate_release (nr_tags r) of
                           None \<Rightarrow> s2
                         | Some rel \<Rightarrow> s2\<lparr>n9_releases := n9_releases s2 @ [rel]\<rparr>))"

definition nip94_source ::
  "'w main_env \<Rightarrow> mount_args \<Rightarrow> string option \<Rightarrow> build \<Rightarrow> build option" where
  "nip94_source M a pubkey_hex b =
     (if a_relay a = [] then Some b
      else case pubkey_hex of
             None \<Rightarrow> Some b
           | Some pk \<Rightarrow>
               (case fetch_nip94_events (me_nostr M) (a_relay a) pk of
                  Inl _ \<Rightarrow> Some b
                | Inr records \<Rightarrow>
                    let (meta_root, t1) = add_directory (b_tree b) (root (b_tree b)) ''metadata'';
                        (nip94_root, t2) = add_directory t1 (root t1) ''nip94'';
                        (pk_dir, t3) = add_directory t2 nip94_root pk
                    in map_option
                         (\<lambda>s. if n9_releases s = [] then n9_build s
                              else case build_tollgate_tree (b_tree (n9_build s)) (n9_releases s) of
                                     (count, t) \<Rightarrow> (n9_build s)\<lparr>b_tree := t, b_count := b_count (n9_build s) + count\<rparr>)
                         (build_all (nip94_step M meta_root pk_dir) records
                            \<lparr>n9_build = b\<lparr>b_tree := t3\<rparr>, n9_seen = {}, n9_releases = []\<rparr>)))"

definition nip34_source :: "'w main_env \<Rightarrow> mount_args \<Rightarrow> build \<Rightarrow> build option" where
  "nip34_source M a b =
     (if a_nip34_relay a = [] then Some b
      else case a_nip34_pubkey a of
             None \<Rightarrow> Some b
           | Some pk \<Rightarrow>
               let resolved = (case parse_npub (me_nostr M) pk of Inr h \<Rightarrow> h | Inl _ \<Rightarrow> pk) in
               (case fetch_nip34_events (me_nostr M) (a_nip34_relay a) resolved of
                  Inl _ \<Rightarrow> Some b
                | Inr data \<Rightarrow>
                    map_option (\<lambda>(count, t). b\<lparr>b_tree := t, b_count := b_count b + count\<rparr>)
                      (build_nip34_tree (me_now M) (b_tree b) resolved data (a_nip34_clone a) (a_cache_dir a))))"

section \<open>Virtual files, keys, persistence, payment\<close>

definition mount_info_of :: "'w main_env \<Rightarrow> mount_args \<Rightarrow> string list \<Rightarrow> build \<Rightarrow> mount_info" where
  "mount_info_of M a servers b =
     \<lparr>mi_mountpoint = me_display M (a_mountpoint a),
      mi_npub = (case a_npub a of n # _ \<Rightarrow> n
                 | [] \<Rightarrow> (case a_pubkey a of p # _ \<Rightarrow> p | [] \<Rightarrow> ''all'')),
      mi_server_count = length servers, mi_blob_count = b_count b, mi_max_blobs = a_max_blobs a,
      mi_cache_dir = me_display M (a_cache_dir a),
      mi_expiring_soon = collect_expiring_blobs (b_tree b) (me_now M) (7 * 86400)\<rparr>"

definition virtual_files :: "'w main_env \<Rightarrow> mount_args \<Rightarrow> string list \<Rightarrow> build \<Rightarrow> tree" where
  "virtual_files M a servers b =
     (let info = mount_info_of M a servers b;
          t1 = snd (add_static_file (me_now M) (b_tree b) (root (b_tree b)) ''README.txt'' (generate_readme info))
      in snd (add_static_file (me_now M) t1 (root t1) ''STATUS.txt'' (generate_status (me_now M) info)))"

definition resolve_keys :: "nostr_env \<Rightarrow> mount_args \<Rightarrow> string option" where
  "resolve_keys N a =
     (if a_read_only a \<and> a_persist a = None then None
      else case a_nsec_file a of
             Some path \<Rightarrow> (case read_nsec_file N path of Inl _ \<Rightarrow> None | Inr k \<Rightarrow> Some k)
           | None \<Rightarrow>
               (case a_dangerous_nsec a of
                  Some nsec \<Rightarrow> (case parse_nsec N nsec of Inl _ \<Rightarrow> None | Inr k \<Rightarrow> Some k)
                | None \<Rightarrow> None))"

definition persist_source ::
  "'w main_env \<Rightarrow> mount_args \<Rightarrow> string list \<Rightarrow> string option \<Rightarrow> tree \<Rightarrow> tree" where
  "persist_source M a servers keys t =
     (case (a_persist a, keys) of
        (Some drive_name, Some k) \<Rightarrow>
          if a_relay a = [] then t
          else
            (case ne_fetch (me_nostr M) (a_relay a)
                    \<lparr>ef_kinds = [30078], ef_author = Some (me_public_key M k), ef_limit = Some 10\<rparr> of
               Inl _ \<Rightarrow> t
             | Inr events \<Rightarrow>
                 (case fetch_persist_event (map ev_tags events) drive_name of
                    Inl _ \<Rightarrow> t
                  | Inr tags \<Rightarrow> apply_persisted t tags (case servers of [] \<Rightarrow> [] | s # _ \<Rightarrow> s)))
      | _ \<Rightarrow> t)"

definition choose_payment :: "'w main_env \<Rightarrow> mount_args \<Rightarrow> 'w pay" where
  "choose_payment M a =
     (case a_cashu_token_file a of
        Some path \<Rightarrow>
          (case ne_read_file (me_nostr M) path of
             Some token \<Rightarrow> token_pay (me_cbor M) (str_trim token)
           | None \<Rightarrow> no_payment)
      | None \<Rightarrow>
          (case a_nwc_uri a of
             Some uri \<Rightarrow> (case me_nwc M uri of Some p \<Rightarrow> p | None \<Rightarrow> no_payment)
           | None \<Rightarrow> no_payment))"

section \<open>Mounting\<close>

record 'w mount_plan =
  mp_fs :: "'w fs"
  mp_rw :: bool
  mp_payment :: "'w pay"
  mp_keys :: "string option"
  mp_servers :: "string list"

datatype mount_error =
    MountConfig config_error
  | MountpointMissing fs_path
  | MountManifest manifest_error
  | MountIo

definition megabytes :: "nat \<Rightarrow> nat" where
  "megabytes n = n * 1024 * 1024 mod u64_max"

definition make_fs ::
  "mount_args \<Rightarrow> string list \<Rightarrow> string option \<Rightarrow> 'w \<Rightarrow> disk \<Rightarrow> tree \<Rightarrow> 'w fs \<times> bool" where
  "make_fs a servers keys w d t =
     (let (fs, rw) =
        (case (keys, servers, a_read_only a) of
           (Some k, s # _, False) \<Rightarrow>
             (fs_new_rw w d t (a_cache_dir a) s (a_ttl_secs a) (megabytes (a_max_write_mb a))
                (a_free_period_days a * 86400 mod u64_max) (megabytes (a_max_free_size_mb a))
                (megabytes (a_max_cache_size a)) (megabytes (a_multipart_threshold_mb a))
                (megabytes (a_write_buffer_mb a)), True)
         | _ \<Rightarrow>
             (fs_new_with_cache w d t (a_cache_dir a) (a_ttl_secs a)
                (a_free_period_days a * 86400 mod u64_max) (megabytes (a_max_free_size_mb a))
                (megabytes (a_max_cache_size a)), False))
      in (set_http_timeout (a_http_timeout_secs a) fs, rw))"

definition public_root :: "mount_args \<Rightarrow> string list \<Rightarrow> nat option \<times> tree" where
  "public_root a servers =
     (if a_manifest a \<noteq> None \<or> servers \<noteq> []
      then case add_directory new_tree (root new_tree) ''public'' of (pd, t) \<Rightarrow> (Some pd, t)
      else (None, new_tree))"

text \<open>The sources after the manifest, in the order of \<open>run_mount\<close>.\<close>

definition other_sources ::
  "'w main_env \<Rightarrow> mount_args \<Rightarrow> string list \<Rightarrow> string list \<Rightarrow> nat option \<Rightarrow> 'w \<times> build
     \<Rightarrow> ('w \<times> build) option" where
  "other_sources M a servers hexes public_dir s =
     (let pubkey_hex = (case hexes of [] \<Rightarrow> None | h # _ \<Rightarrow> Some h) in
      case server_source M a servers hexes public_dir s of
        None \<Rightarrow> None
      | Some (w, b1) \<Rightarrow>
          (case nip94_source M a pubkey_hex (drive_source (me_nostr M) a servers pubkey_hex b1) of
             None \<Rightarrow> None
           | Some b2 \<Rightarrow> map_option (\<lambda>b3. (w, b3)) (nip34_source M a b2)))"

definition run_mount ::
  "'w main_env \<Rightarrow> mount_args \<Rightarrow> 'w \<Rightarrow> disk \<Rightarrow> (mount_error + 'w mount_plan) option" where
  "run_mount M a w d =
     (case validate_args a of
        Inl e \<Rightarrow> Some (Inl (MountConfig e))
      | Inr _ \<Rightarrow>
          if \<not> me_exists M (a_mountpoint a) then Some (Inl (MountpointMissing (a_mountpoint a)))
          else
            let hexes = resolve_pubkey_hexes (me_nostr M) a;
                servers = effective_servers (me_nostr M) a (case hexes of [] \<Rightarrow> None | h # _ \<Rightarrow> Some h);
                (public_dir, t0) = public_root a servers
            in case manifest_source M a public_dir \<lparr>b_tree = t0, b_count = 0\<rparr> of
                 Inl e \<Rightarrow> Some (Inl (MountManifest e))
               | Inr b1 \<Rightarrow>
                   (case other_sources M a servers hexes public_dir (w, b1) of
                      None \<Rightarrow> None
                    | Some (w', b) \<Rightarrow>
                        let t1 = virtual_files M a servers b in
                        if \<not> me_create_dir M (a_cache_dir a) then Some (Inl MountIo)
                        else
                          let keys = resolve_keys (me_nostr M) a;
                              t2 = persist_source M a servers keys t1;
                              (fs, rw) = make_fs a servers keys w' d t2
                          in Some (Inr \<lparr>mp_fs = fs, mp_rw = rw, mp_payment = choose_payment M a,
                                        mp_keys = keys, mp_servers = servers\<rparr>)))"

text \<open>After the unmount: the event published, if any; \<open>None\<close> is a panic.\<close>

definition unmount_publish :: "mount_args \<Rightarrow> 'w mount_plan \<Rightarrow> tree \<Rightarrow> tag list option option" where
  "unmount_publish a plan t =
     (case (a_persist a, mp_keys plan) of
        (Some drive_name, Some k) \<Rightarrow>
          if a_relay a = [] then Some None
          else Option.bind (persist_tags t) (\<lambda>tags. map_option Some (publish_tags drive_name tags))
      | _ \<Rightarrow> Some None)"

section \<open>Extending\<close>

datatype extend_error =
    ExtendKeys key_error
  | ExtendAuth
  | ExtendIo
  | ExtendClient client_error
  | ExtendMessage string

definition run_extend ::
  "'w main_env \<Rightarrow> extend_args \<Rightarrow> 'w \<Rightarrow> (extend_error + blob_descriptor) \<times> 'w" where
  "run_extend M x w =
     (case x_nsec_file x of
        None \<Rightarrow> (Inl (ExtendMessage ''extend requires --nsec-file''), w)
      | Some path \<Rightarrow>
          (case read_nsec_file (me_nostr M) path of
             Inl e \<Rightarrow> (Inl (ExtendKeys e), w)
           | Inr k \<Rightarrow>
               (case create_upload_auth_header (me_auth M k) (x_sha256 x) 0 of
                  None \<Rightarrow> (Inl ExtendAuth, w)
                | Some auth \<Rightarrow>
                    let payment =
                      (case x_cashu_token_file x of
                         Some tp \<Rightarrow>
                           (case ne_read_file (me_nostr M) tp of
                              None \<Rightarrow> Inl ExtendIo
                            | Some token \<Rightarrow> Inr (token_pay (me_cbor M) (str_trim token)))
                       | None \<Rightarrow>
                           (case x_nwc_uri x of
                              Some uri \<Rightarrow>
                                (case me_nwc M uri of
                                   None \<Rightarrow> Inl (ExtendMessage ''invalid NWC URI'')
                                 | Some p \<Rightarrow> Inr p)
                            | None \<Rightarrow> Inl (ExtendMessage ''extend requires --cashu-token-file or --nwc-uri'')))
                    in case payment of
                         Inl e \<Rightarrow> (Inl e, w)
                       | Inr p \<Rightarrow>
                           (case extend_blob_with_payment (me_client M) (client_new (x_server x))
                                   (x_sha256 x) auth p None w of
                              (Inl e, w') \<Rightarrow> (Inl (ExtendClient e), w')
                            | (Inr desc, w') \<Rightarrow> (Inr desc, w')))))"

text \<open>\<open>main\<close>'s \<open>mount\<close> command: the configuration is merged into the arguments first.\<close>

definition main_mount ::
  "'w main_env \<Rightarrow> config_env \<Rightarrow> mount_args \<Rightarrow> (string \<Rightarrow> value_source option) \<Rightarrow> 'w \<Rightarrow> disk
     \<Rightarrow> (mount_error + 'w mount_plan) option" where
  "main_mount M E a sources w d =
     (case load_merged E (a_config a) a (is_explicit sources) of
        Inl e \<Rightarrow> Some (Inl (MountConfig e))
      | Inr a' \<Rightarrow> run_mount M a' w d)"

end
