(* ===== verification/Bfs_Listing.thy ===== *)
theory Bfs_Listing
  imports Bfs_Mount
begin

text \<open>
  What one server's listing adds to the tree (\<open>list_server\<close> of the mount): its views go below a
  fresh host directory and leave the listing of every earlier directory alone; the blobs end up
  below \<open>by-sha256\<close> under their hash.
\<close>

named_theorems growth \<open>how the builders grow the tree\<close>

declare grows_refl [growth] grows_adders [growth] add_dir_valid [growth] tree_wf_root_valid [growth]

section \<open>Adding above a number\<close>

lemma dir_kids_add_node_other:
  assumes "valid_ino t p" "kids (mk (next_inode t)) = []" "q \<noteq> p"
  shows "dir_kids (snd (add_node t p mk)) q = dir_kids t q"
proof (cases "q = next_inode t")
  case True
  then have "get t q = None" by (simp add: get_None_iff next_inode_eq)
  with True assms get_add_node_new [OF assms(1), of mk] show ?thesis by (simp add: dir_kids_def)
next
  case False
  with assms(3) show ?thesis by (simp add: dir_kids_def get_add_node)
qed

lemma above_adders:
  assumes "tree_wf t" "valid_ino t p" "n \<le> p"
  shows "above n t (snd (add_directory t p nm))" "above n t (add_blob t p nm d sha)"
proof -
  have "dir_kids (snd (add_node t p mk)) q = dir_kids t q" if "q < n" "kids (mk (next_inode t)) = []" for q mk
    using dir_kids_add_node_other [where mk = mk, OF assms(2) that(2), of q] that assms(3) by simp
  then show "above n t (snd (add_directory t p nm))" "above n t (add_blob t p nm d sha)"
    using grows_adders [OF assms(1,2)]
    by (simp_all add: above_def add_directory_def add_blob_def add_remote_file_def Let_def)
qed

lemma above_get_or_create:
  assumes "tree_wf t" "valid_ino t p" "n \<le> p"
  shows "above n t (snd (get_or_create_dir t p nm))" "n \<le> fst (get_or_create_dir t p nm)"
proof -
  have "p < i" if "lookup t p nm = Some i" for i
    using par_less [OF assms(1), of i] par_lookup [OF assms(1) that] lookup_valid [OF assms(1) that]
    by (simp add: valid_ino_def)
  then show "above n t (snd (get_or_create_dir t p nm))" "n \<le> fst (get_or_create_dir t p nm)"
    using assms above_adders(1) [OF assms] above_refl [OF assms(1)]
    by (fastforce simp: get_or_create_dir_def adder_fst valid_ino_def next_inode_eq split: option.split)+
qed

lemma above_dir_path:
  "tree_wf t \<Longrightarrow> valid_ino t p \<Longrightarrow> n \<le> p \<Longrightarrow>
     above n t (snd (dir_path t p ns)) \<and> n \<le> fst (dir_path t p ns)"
proof (induction ns arbitrary: t p)
  case (Cons m ns)
  let ?r = "get_or_create_dir t p m"
  note a = above_get_or_create [OF Cons.prems, of m]
  have "above n (snd ?r) (snd (dir_path (snd ?r) (fst ?r) ns)) \<and> n \<le> fst (dir_path (snd ?r) (fst ?r) ns)"
    by (rule Cons.IH [OF grows_wf [OF above_grows [OF a(1)]] get_or_create_dir_valid(1) [OF Cons.prems(1,2)] a(2)])
  then show ?case using above_trans [OF a(1)] by (simp add: case_prod_beta)
qed (simp add: above_refl)

section \<open>Blob views\<close>

lemma build_step_above:
  assumes wf: "tree_wf (snd st)" and v: "valid_ino (snd st) s" "valid_ino (snd st) ty" "valid_ino (snd st) dt"
    and n: "n \<le> s" "n \<le> ty" "n \<le> dt"
  shows "above n (snd st) (snd (build_step db u s ty dt st d))"
proof (cases "sanitize_sha256 (bd_sha256 d)")
  case (Inl e)
  then show ?thesis using wf by (cases st) (simp add: build_step_def above_refl)
next
  case (Inr sha)
  define nm where "nm = blob_file_name db u d sha"
  define t1 where "t1 = (if sha \<in> fst st then snd st else add_blob (snd st) s nm d sha)"
  define td where "td = get_or_create_dir t1 ty (sanitize_mime_for_path (effective_mime_type d))"
  define t3 where "t3 = add_blob (snd td) (fst td) nm d sha"
  define dd where "dd = dir_path t3 dt (date_path (bd_uploaded d))"
  note wfs = grows_wf [OF above_grows] and vals = grows_valid [OF above_grows]
  have g1: "above n (snd st) t1"
    using wf v n by (simp add: t1_def above_refl above_adders)
  have g2: "above n t1 (snd td)" and n2: "n \<le> fst td" and v2: "valid_ino (snd td) (fst td)"
    using above_get_or_create [OF wfs [OF g1] vals [OF g1 v(2)] n(2)]
      get_or_create_dir_valid(1) [OF wfs [OF g1] vals [OF g1 v(2)]] by (simp_all add: td_def)
  have g3: "above n (snd td) t3"
    unfolding t3_def by (rule above_adders(2) [OF wfs [OF g2] v2 n2])
  have v3: "valid_ino t3 dt"
    by (rule vals [OF g3 vals [OF g2 vals [OF g1 v(3)]]])
  have g4: "above n t3 (snd dd)" and n4: "n \<le> fst dd" and v4: "valid_ino (snd dd) (fst dd)"
    using above_dir_path [OF wfs [OF g3] v3 n(3)] dir_path_valid [OF wfs [OF g3] v3]
    by (simp_all add: dd_def)
  have "snd (build_step db u s ty dt st d) = add_blob (snd dd) (fst dd) nm d sha"
    using Inr by (cases st) (simp add: build_step_def Let_def case_prod_beta nm_def t1_def td_def t3_def dd_def)
  then show ?thesis
    using above_trans [OF g1 above_trans [OF g2 above_trans [OF g3 above_trans [OF g4
      above_adders(2) [OF wfs [OF g4] v4 n4]]]]] by simp
qed

interpretation views: floor_loop "build_step db u s ty dt" snd
    "\<lambda>t. valid_ino t s \<and> valid_ino t ty \<and> valid_ino t dt \<and> n \<le> s \<and> n \<le> ty \<and> n \<le> dt" n for db u s ty dt n
  by unfold_locales (auto intro: build_step_above grows_valid)

interpretation shas: floor_loop "sha_only_step db u s" snd "\<lambda>t. valid_ino t s \<and> n \<le> s" n for db u s n
proof unfold_locales
  fix st :: "string set \<times> tree" and d
  assume "tree_wf (snd st)" "valid_ino (snd st) s \<and> n \<le> s"
  then show "above n (snd st) (snd (sha_only_step db u s st d))"
    by (cases st) (simp add: sha_only_step_def above_refl above_adders split: sum.split)
qed (blast intro: grows_valid)

text \<open>A fresh directory's number lies above all earlier ones.\<close>

lemma above_fresh_dir:
  assumes "tree_wf t" "valid_ino t p" "n \<le> p"
  shows "above n t (snd (add_directory t p nm))"
    "valid_ino (snd (add_directory t p nm)) (fst (add_directory t p nm))"
    "n \<le> fst (add_directory t p nm)"
  using above_adders(1) [OF assms] add_dir_valid(1) assms(2,3)
  by (simp_all add: adder_fst valid_ino_def next_inode_eq)

lemma build_from_descriptors_above:
  assumes wf: "tree_wf t" and p: "valid_ino t p" and n: "n \<le> p"
  shows "above n t (build_from_descriptors db u t p ds)"
proof -
  define a where "a = add_directory t p ''by-sha256''"
  define b where "b = add_directory (snd a) p ''by-type''"
  define c where "c = add_directory (snd b) p ''by-date''"
  note wfs = grows_wf [OF above_grows] and vals = grows_valid [OF above_grows]
  note A = above_fresh_dir [OF wf p n, of "''by-sha256''", folded a_def]
  note pa = vals [OF A(1) p]
  note B = above_fresh_dir [OF wfs [OF A(1)] pa n, of "''by-type''", folded b_def]
  note pb = vals [OF B(1) pa]
  note C = above_fresh_dir [OF wfs [OF B(1)] pb n, of "''by-date''", folded c_def]
  have "valid_ino (snd c) (fst a)" "valid_ino (snd c) (fst b)"
    using vals [OF C(1)] vals [OF B(1) A(2)] B(2) by blast+
  then have "above n (snd c) (build_from_descriptors db u t p ds)"
    using views.loop_above [of "({}, snd c)" "fst a" "fst b" "fst c" n] wfs [OF C(1)] C(2) A(3) B(3) C(3)
    by (simp add: build_from_descriptors_def Let_def case_prod_beta a_def b_def c_def)
  then show ?thesis by (rule above_trans [OF above_trans [OF above_trans [OF A(1) B(1)] C(1)]])
qed

lemma build_by_sha256_only_above:
  assumes wf: "tree_wf t" and p: "valid_ino t p" and n: "n \<le> p"
  shows "above n t (build_by_sha256_only db u t p ds)"
proof -
  define a where "a = add_directory t p ''by-sha256''"
  note A = above_fresh_dir [OF wf p n, of "''by-sha256''", folded a_def]
  have "above n (snd a) (build_by_sha256_only db u t p ds)"
    using shas.loop_above [of "({}, snd a)" "fst a" n] grows_wf [OF above_grows [OF A(1)]] A(2,3)
    by (simp add: build_by_sha256_only_def case_prod_beta a_def)
  then show ?thesis by (rule above_trans [OF A(1)])
qed

lemma views_grow [growth]:
  assumes "tree_wf t" and "valid_ino t p"
  shows "grows t (build_from_descriptors db u t p ds)" "grows t (build_by_sha256_only db u t p ds)"
  using build_from_descriptors_above [OF assms, of 0] build_by_sha256_only_above [OF assms, of 0] by simp_all

section \<open>One child per step\<close>

text \<open>\<open>new_child p nm t t'\<close>: \<open>t'\<close> has one more child below \<open>p\<close>, a directory called \<open>nm\<close>, and
  whatever else is new lies below that child.\<close>

definition new_child :: "nat \<Rightarrow> string \<Rightarrow> tree \<Rightarrow> tree \<Rightarrow> bool" where
  "new_child p nm t t' \<longleftrightarrow> above (next_inode t) (snd (add_directory t p nm)) t'"

definition dir_names :: "tree \<Rightarrow> nat \<Rightarrow> string list" where
  "dir_names t p = map (name_at t) (dir_kids t p)"

lemma name_at_ext: "tree_ext t t' \<Longrightarrow> valid_ino t c \<Longrightarrow> name_at t' c = name_at t c"
  using tree_ext_get [of t t' c] unfolding valid_ino_iff by (auto simp: name_at_def node_at_def)

lemma dir_names_ext:
  assumes "tree_wf t" "tree_ext t t'"
  shows "map (name_at t') (dir_kids t q) = dir_names t q"
  using name_at_ext [OF assms(2)] dir_kids_valid [OF assms(1)]
  by (auto simp: dir_names_def valid_ino_iff)

lemma lookup_None_names: "tree_wf t \<Longrightarrow> nm \<notin> set (dir_names t p) \<Longrightarrow> lookup t p nm = None"
  using lookup_valid [of t p nm] by (cases "lookup t p nm") (auto simp: dir_names_def)

lemma fresh_dir:
  fixes nm :: string
  assumes wf: "tree_wf t" and p: "is_dir t p"
  defines "i \<equiv> next_inode t" and "t' \<equiv> snd (add_directory t p nm)"
  shows "tree_wf t'" "tree_ext t t'" "grows t t'" "is_dir t' i" "dir_kids t' i = []"
    "dir_names t' p = dir_names t p @ [sanitize_path_component nm]"
    "q \<noteq> p \<Longrightarrow> dir_kids t' q = dir_kids t q" "is_dir t' p" "valid_ino t' i"
    "lookup t p (sanitize_path_component nm) = None \<Longrightarrow> lookup t' p (sanitize_path_component nm) = Some i"
proof -
  let ?mk = "\<lambda>ino. Directory ino (sanitize_path_component nm) [] p None"
  have t': "t' = snd (add_node t p ?mk)" by (simp add: t'_def add_directory_eq)
  have g: "get t' i = Some (?mk i)"
    unfolding t' i_def by (rule get_add_node_new [OF is_dir_valid [OF p]])
  show wf': "tree_wf t'" unfolding t'_def by (rule tree_wf_add_directory [OF wf is_dir_valid [OF p]])
  show e: "tree_ext t t'" unfolding t'_def by (rule tree_ext_add_directory [OF wf p])
  show "grows t t'" unfolding t'_def by (rule grows_adders(1) [OF wf is_dir_valid [OF p]])
  show "is_dir t' i" "dir_kids t' i = []" using g by (simp_all add: is_dir_def dir_kids_def)
  show "is_dir t' p" by (rule tree_ext_is_dir [OF e p])
  show "q \<noteq> p \<Longrightarrow> dir_kids t' q = dir_kids t q"
    unfolding t' by (simp add: dir_kids_add_node [OF p])
  have "dir_kids t' p = dir_kids t p @ [i]" by (simp add: t' i_def dir_kids_add_node [OF p])
  then show "dir_names t' p = dir_names t p @ [sanitize_path_component nm]"
    using dir_names_ext [OF wf e, of p] g by (simp add: dir_names_def name_at_def node_at_def)
  show "valid_ino t' i" using g by (simp add: valid_ino_iff)
  show "lookup t p (sanitize_path_component nm) = None \<Longrightarrow> lookup t' p (sanitize_path_component nm) = Some i"
    by (simp add: t' i_def lookup_add_node [OF wf p])
qed

lemma next_inode_above: "is_dir t p \<Longrightarrow> p < next_inode t"
  using is_dir_valid [of t p] by (simp add: valid_ino_def next_inode_eq)

lemma new_child_facts:
  assumes wf: "tree_wf t" and p: "is_dir t p" and n: "new_child p nm t t'"
  shows "grows t t'" "dir_names t' p = dir_names t p @ [sanitize_path_component nm]"
    "n \<le> p \<Longrightarrow> above n t t'"
proof -
  note F = fresh_dir [OF wf p, where nm = nm]
  have a: "above (next_inode t) (snd (add_directory t p nm)) t'" using n by (simp add: new_child_def)
  have le: "p < next_inode t" by (rule next_inode_above [OF p])
  show g: "grows t t'" by (rule grows_trans [OF F(3) above_grows [OF a]])
  show "dir_names t' p = dir_names t p @ [sanitize_path_component nm]"
    using dir_names_ext [OF F(1) grows_ext [OF above_grows [OF a]], of p]
    unfolding dir_names_def [of t'] above_kids [OF a le] by (simp only: F(6))
  show "n \<le> p \<Longrightarrow> above n t t'"
    using g above_kids [OF a] F(7) le by (simp add: above_def)
qed

text \<open>A fold whose every step adds one child below \<open>p\<close>.\<close>

locale child_fold =
  fixes cstep :: "'a \<Rightarrow> 's \<Rightarrow> 's option"
    and ctree :: "'s \<Rightarrow> tree"
    and cname :: "'a \<Rightarrow> string"
    and p :: nat
  assumes cstep_child: "tree_wf (ctree s) \<Longrightarrow> is_dir (ctree s) p \<Longrightarrow> cstep x s = Some s' \<Longrightarrow>
      new_child p (cname x) (ctree s) (ctree s')"
begin

lemma build_children:
  "tree_wf (ctree s) \<Longrightarrow> is_dir (ctree s) p \<Longrightarrow> build_all cstep xs s = Some s' \<Longrightarrow>
     grows (ctree s) (ctree s') \<and> (n \<le> p \<longrightarrow> above n (ctree s) (ctree s'))
     \<and> dir_names (ctree s') p = dir_names (ctree s) p @ map (\<lambda>x. sanitize_path_component (cname x)) xs"
proof (induction xs arbitrary: s)
  case (Cons x xs)
  obtain s1 where s1: "cstep x s = Some s1" "build_all cstep xs s1 = Some s'"
    using Cons.prems(3) by (cases "cstep x s") auto
  note c = new_child_facts [OF Cons.prems(1,2) cstep_child [OF Cons.prems(1,2) s1(1)]]
  have "is_dir (ctree s1) p" by (rule tree_ext_is_dir [OF grows_ext [OF c(1)] Cons.prems(2)])
  note IH = Cons.IH [OF grows_wf [OF c(1)] this s1(2)]
  have "n \<le> p \<Longrightarrow> above n (ctree s) (ctree s')"
    using IH above_trans [OF c(3)] by blast
  then show ?case using IH c(2) grows_trans [OF c(1)] by simp
qed (simp add: grows_refl above_refl)

text \<open>The step at \<open>x\<close> finds its name free when no earlier step has taken it.\<close>

lemma build_at:
  assumes wf: "tree_wf (ctree s)" and d: "is_dir (ctree s) p"
    and r: "build_all cstep (xs @ x # ys) s = Some s'"
    and fresh: "sanitize_path_component (cname x) \<notin> set (dir_names (ctree s) p)"
      "\<And>y. y \<in> set xs \<Longrightarrow> sanitize_path_component (cname y) \<noteq> sanitize_path_component (cname x)"
  shows "\<exists>s1 s2. cstep x s1 = Some s2 \<and> tree_wf (ctree s1) \<and> is_dir (ctree s1) p
    \<and> lookup (ctree s1) p (sanitize_path_component (cname x)) = None
    \<and> grows (ctree s2) (ctree s')"
proof -
  obtain s1 s2 where s: "build_all cstep xs s = Some s1" "cstep x s1 = Some s2" "build_all cstep ys s2 = Some s'"
    using r by (induction xs arbitrary: s) (auto simp: bind_eq_Some_conv)
  note c = build_children [OF wf d s(1), of 0]
  have w: "tree_wf (ctree s1)" "is_dir (ctree s1) p"
    using c grows_wf tree_ext_is_dir [OF grows_ext d] by blast+
  note n = new_child_facts [OF w cstep_child [OF w s(2)]]
  have "is_dir (ctree s2) p" by (rule tree_ext_is_dir [OF grows_ext [OF n(1)] w(2)])
  then have "grows (ctree s2) (ctree s')" using build_children [OF grows_wf [OF n(1)] _ s(3), of 0] by simp
  moreover have "lookup (ctree s1) p (sanitize_path_component (cname x)) = None"
    using c fresh(1) by (intro lookup_None_names w) (auto dest: fresh(2))
  ultimately show ?thesis using s(2) w by blast
qed

end

section \<open>The name of a blob's file\<close>

lemma replace_dotdot_append:
  "CHR ''.'' \<notin> set xs \<Longrightarrow> replace_dotdot (xs @ ys) = xs @ replace_dotdot ys"
proof (induction xs)
  case (Cons x xs)
  then show ?case by (cases "xs @ ys") auto
qed simp

lemma replace_dotdot_dot: "\<exists>y zs. replace_dotdot (CHR ''.'' # s) = y # zs \<and> \<not> is_cont y"
  by (cases s) (auto simp: is_cont_def)

lemma str_pop_keeps:
  assumes "\<not> is_cont y"
  shows "prefix xs (str_pop (xs @ y # zs)) \<and> str_pop (xs @ y # zs) \<in> {xs} \<union> {xs @ y # zs' | zs'. True}"
proof (cases "\<forall>c \<in> set zs. is_cont c")
  case True
  then have "dropWhile is_cont (rev zs @ y # rev xs) = y # rev xs"
    using assms by (subst dropWhile_append2) auto
  then show ?thesis by (simp add: str_pop_def)
next
  case False
  then obtain c cs where "dropWhile is_cont (rev zs) = c # cs"
    by (metis dropWhile_eq_Nil_conv neq_Nil_conv set_rev)
  moreover from False have "dropWhile is_cont (rev zs @ y # rev xs) = dropWhile is_cont (rev zs) @ y # rev xs"
    using dropWhile_append1 [of _ "rev zs" is_cont "y # rev xs"] by auto
  ultimately show ?thesis by (simp add: str_pop_def)
qed

lemma pop_to_keeps:
  "\<not> is_cont y \<Longrightarrow> length xs \<le> n \<Longrightarrow> prefix xs (pop_to n (xs @ y # zs))"
proof (induction "length zs" arbitrary: zs rule: less_induct)
  case less
  show ?case
  proof (cases "n < length (xs @ y # zs)")
    case True
    then have e: "pop_to n (xs @ y # zs) = pop_to n (str_pop (xs @ y # zs))"
      by (simp add: pop_to.simps [of n "xs @ y # zs"])
    show ?thesis
    proof (cases "str_pop (xs @ y # zs) = xs")
      case True
      then show ?thesis using e less.prems by (simp add: pop_to_short)
    next
      case False
      then obtain zs' where z: "str_pop (xs @ y # zs) = xs @ y # zs'"
        using str_pop_keeps [OF less.prems(1), of xs zs] by auto
      have "length zs' < length zs"
        using length_str_pop [of "xs @ y # zs"] unfolding z by simp
      then show ?thesis using less.hyps [of zs'] less.prems e z by simp
    qed
  qed (simp add: pop_to.simps [of n "xs @ y # zs"])
qed

lemma blob_name_prefix:
  assumes "sha_normal sha"
  shows "prefix sha (sanitize_path_component (blob_file_name db u d sha))"
proof (cases "blob_file_name db u d sha = sha")
  case True
  then show ?thesis using sanitize_path_component_id [OF sha_normal_safe [OF assms]] by simp
next
  case False
  then obtain ext where n: "blob_file_name db u d sha = sha @ CHR ''.'' # ext"
    by (auto simp: blob_file_name_def Let_def split: if_splits)
  have s: "\<forall>c \<in> set sha. \<not> comp_unsafe c \<and> c \<noteq> CHR ''.'' \<and> c \<noteq> CHR ''_''" "length sha = 64"
    using assms lower_hex_safe by (auto simp: sha_normal_def list_all_iff)
  have nd: "CHR ''.'' \<notin> set sha" using s(1) by blast
  have m: "map (\<lambda>c. if comp_unsafe c then CHR ''_'' else c) sha = sha"
    by (rule map_idI) (use s(1) in auto)
  define e where "e = map (\<lambda>c. if comp_unsafe c then CHR ''_'' else c) ext"
  obtain y zs where y: "replace_dotdot (CHR ''.'' # e) = y # zs" "\<not> is_cont y"
    using replace_dotdot_dot by blast
  have dot: "\<not> comp_unsafe (CHR ''.'')" by (simp add: comp_unsafe_def is_ascii_control_def)
  have "replace_dotdot (map (\<lambda>c. if comp_unsafe c then CHR ''_'' else c) (blob_file_name db u d sha))
      = sha @ y # zs"
    using y(1) dot unfolding n map_append m e_def by (simp add: replace_dotdot_append [OF nd])
  then have p: "prefix sha (pop_to 255 (replace_dotdot (map (\<lambda>c. if comp_unsafe c then CHR ''_'' else c)
      (blob_file_name db u d sha))))"
    using pop_to_keeps [OF y(2), of sha 255 zs] s(2) by simp
  obtain c cs where c: "sha = c # cs" using s(2) by (cases sha) auto
  then have "c \<noteq> CHR ''_''" using s(1) by auto
  with p n show ?thesis
    by (auto simp: sanitize_path_component_def Let_def c prefix_def)
qed

lemma blob_name_inj:
  assumes "sha_normal s" "sha_normal s'"
    and "sanitize_path_component (blob_file_name db u d s) = sanitize_path_component (blob_file_name db u d' s')"
  shows "s = s'"
proof -
  have "prefix s (sanitize_path_component (blob_file_name db u d s))"
      "prefix s' (sanitize_path_component (blob_file_name db u d s))"
    using blob_name_prefix [OF assms(1), of db u d] blob_name_prefix [OF assms(2), of db u d'] assms(3) by simp_all
  then show ?thesis
    using assms(1,2) by (metis prefix_length_prefix prefix_order.antisym sha_normal_def order_refl)
qed

section \<open>Blobs at a path\<close>

text \<open>Every blob of a list is a file below \<open>p\<close>, at the path \<open>ns\<close> and its own name.\<close>

definition blob_node :: "string \<Rightarrow> nat \<Rightarrow> nat \<Rightarrow> blob_descriptor \<Rightarrow> string \<Rightarrow> tree_node" where
  "blob_node nm c q d sha = File c nm q (bd_size d) (Remote (bd_url d) sha (bd_mime d) (bd_expiration d)) (bd_uploaded d)"

definition listed_at ::
  "mime_db \<Rightarrow> unicode_tables \<Rightarrow> tree \<Rightarrow> nat \<Rightarrow> string list \<Rightarrow> blob_descriptor list \<Rightarrow> bool" where
  "listed_at db u t p ns ds \<longleftrightarrow> (\<forall>sha \<in> set (valid_shas ds). \<exists>d \<in> set ds. \<exists>c q.
     sanitize_sha256 (bd_sha256 d) = Inr sha
     \<and> find_path t p (ns @ [sanitize_path_component (blob_file_name db u d sha)]) = Some c
     \<and> get t c = Some (blob_node (sanitize_path_component (blob_file_name db u d sha)) c q d sha))"

lemma listed_at_ext: "tree_ext t t' \<Longrightarrow> listed_at db u t p ns ds \<Longrightarrow> listed_at db u t' p ns ds"
  unfolding listed_at_def blob_node_def using tree_ext_find_path tree_ext_file by meson

lemma listed_at_below: "lookup t p n = Some i \<Longrightarrow> listed_at db u t i ns ds \<Longrightarrow> listed_at db u t p (n # ns) ds"
  unfolding listed_at_def by simp

text \<open>In \<open>by-sha256\<close> the hashes differ, hence the names, and \<open>lookup\<close> finds each file.\<close>

lemma sha_files_listed:
  assumes wf: "tree_wf t" and sh: "dir_shas t S = keep_first (valid_shas ds)" and f: "sha_files db u S ds t"
  shows "listed_at db u t S [] ds"
  unfolding listed_at_def
proof
  fix sha assume sha: "sha \<in> set (valid_shas ds)"
  then obtain d where d: "d \<in> set ds" "sanitize_sha256 (bd_sha256 d) = Inr sha"
      "blob_in t S (blob_file_name db u d sha) d sha"
    using f unfolding sha_files_def by blast
  let ?nm = "sanitize_path_component (blob_file_name db u d sha)"
  obtain c where c: "c \<in> set (dir_kids t S)" "get t c = Some (blob_node ?nm c S d sha)"
    using d(3) unfolding blob_in_def blob_node_def by blast
  have nodups: "distinct (dir_shas t S)" using sh by (simp add: keep_first_def)
  have same: "c1 = c2" if "c1 \<in> set (dir_kids t S)" "c2 \<in> set (dir_kids t S)" "sha_at t c1 = sha_at t c2" for c1 c2
    using nodups that by (auto simp: dir_shas_def distinct_map dest: inj_onD)
  have cs: "sha_at t c = sha" using c(2) by (simp add: sha_at_def blob_node_def)
  have uniq: "c' = c" if c': "c' \<in> set (dir_kids t S)" "name_at t c' = ?nm" for c'
  proof -
    have "sha_at t c' \<in> set (valid_shas ds)"
      using c'(1) arg_cong [OF sh, of set] by (auto simp: dir_shas_def keep_first_def)
    then obtain d' where d': "sanitize_sha256 (bd_sha256 d') = Inr (sha_at t c')"
        "blob_in t S (blob_file_name db u d' (sha_at t c')) d' (sha_at t c')"
      using f unfolding sha_files_def by blast
    then obtain c2 where c2: "c2 \<in> set (dir_kids t S)"
        "get t c2 = Some (blob_node (sanitize_path_component (blob_file_name db u d' (sha_at t c'))) c2 S d' (sha_at t c'))"
      unfolding blob_in_def blob_node_def by blast
    then have "c2 = c'" using same [OF c2(1) c'(1)] by (simp add: sha_at_def blob_node_def)
    with c2(2) c'(2) have "sanitize_path_component (blob_file_name db u d' (sha_at t c')) = ?nm"
      by (simp add: name_at_def node_at_def blob_node_def)
    then have "sha_at t c' = sha"
      using blob_name_inj sanitize_sha256_normal d(2) d'(1) by blast
    then show "c' = c" using same [OF c'(1) c(1)] cs by simp
  qed
  have "lookup t S ?nm = Some c"
  proof (cases "lookup t S ?nm")
    case None
    have "(?nm, c) \<in> set (dir_entries t S)"
      using c dir_kids_valid [OF wf c(1)] unfolding dir_entries_def set_map
      by (intro image_eqI [of _ _ c]) (auto simp: blob_node_def)
    then have "lookup t S ?nm \<noteq> None"
      unfolding lookup_map_of [OF wf] map_of_eq_None_iff by force
    with None show ?thesis by simp
  next
    case (Some i)
    then show ?thesis using lookup_valid [OF wf Some] uniq by auto
  qed
  with d(1,2) c(2) show "\<exists>d \<in> set ds. \<exists>c q. sanitize_sha256 (bd_sha256 d) = Inr sha
     \<and> find_path t S ([] @ [sanitize_path_component (blob_file_name db u d sha)]) = Some c
     \<and> get t c = Some (blob_node (sanitize_path_component (blob_file_name db u d sha)) c q d sha)"
    by (intro bexI [of _ d] exI [of _ c] exI [of _ S]) simp_all
qed

section \<open>Listing a server\<close>

lemma new_childI:
  assumes wf: "tree_wf t" and p: "is_dir t p"
    and a: "above (next_inode t) (snd (add_directory t p nm)) t'"
  shows "new_child p nm t t'"
  using a by (simp add: new_child_def)

lemma new_child_only: "tree_wf t \<Longrightarrow> is_dir t p \<Longrightarrow> new_child p nm t (snd (add_directory t p nm))"
  unfolding new_child_def by (intro above_refl fresh_dir(1))

lemma new_child_views:
  assumes wf: "tree_wf t" and p: "is_dir t p"
  shows "new_child p nm t (build_from_descriptors db u (snd (add_directory t p nm)) (next_inode t) ds)"
  unfolding new_child_def
  by (intro build_from_descriptors_above fresh_dir(1) fresh_dir(9) wf p order_refl)

definition host_of_url :: "string \<Rightarrow> string" where
  "host_of_url url = (case sanitize_hostname url of None \<Rightarrow> [] | Some h \<Rightarrow> h)"

text \<open>What \<open>list_server\<close> does to the tree: the host directory, and its views if the listing came.\<close>

lemma list_server_tree:
  assumes r: "list_server M mx pk dir url (ds, w, b) = Some s'"
  shows "b_tree (snd (snd s')) =
    (case fst (list_all_blobs (me_client M) (client_new url) pk mx 500 w) of
       Inl _ \<Rightarrow> snd (add_directory (b_tree b) dir (host_of_url url))
     | Inr raw \<Rightarrow> build_from_descriptors (me_db M) (me_uni M) (snd (add_directory (b_tree b) dir (host_of_url url)))
          (next_inode (b_tree b)) (valid_descriptors raw))"
proof -
  obtain h where h: "sanitize_hostname url = Some h"
    using r by (auto simp: list_server_def split: option.splits)
  obtain l w' where l: "list_all_blobs (me_client M) (client_new url) pk mx 500 w = (l, w')"
    by (rule prod.exhaust)
  show ?thesis
    using r unfolding list_server_def h host_of_url_def
    by (cases l) (auto simp: l Let_def case_prod_beta adder_fst)
qed

lemma list_server_child:
  assumes "tree_wf (b_tree (snd (snd s)))" "is_dir (b_tree (snd (snd s))) dir"
    and "list_server M mx pk dir url s = Some s'"
  shows "new_child dir (host_of_url url) (b_tree (snd (snd s))) (b_tree (snd (snd s')))"
proof -
  obtain ds w b where s: "s = (ds, w, b)" by (cases s)
  with assms(3) have "list_server M mx pk dir url (ds, w, b) = Some s'" by simp
  note t = list_server_tree [OF this]
  show ?thesis
    using new_child_only [OF assms(1,2)] new_child_views [OF assms(1,2)]
    by (simp add: t s split: sum.split)
qed

interpretation servers: child_fold "list_server M mx pk dir" "\<lambda>s. b_tree (snd (snd s))" host_of_url dir
  for M mx pk dir
  by unfold_locales (rule list_server_child)

text \<open>A server that pages as it should has every valid blob of its list below its host.\<close>

definition listed_blobs :: "nat \<Rightarrow> blob_descriptor list \<Rightarrow> blob_descriptor list" where
  "listed_blobs mx L = valid_descriptors (if mx = 0 then L else take mx L)"

definition honest_listing :: "'w cenv \<Rightarrow> string \<Rightarrow> string \<Rightarrow> blob_descriptor list \<Rightarrow> bool" where
  "honest_listing E url pk L \<longleftrightarrow> serves E (client_new url) pk 500 L \<and> distinct (map bd_sha256 L)
     \<and> length L < MAX_PAGES * 500"

lemma list_server_listed:
  assumes wf: "tree_wf (b_tree (snd (snd s)))" and d: "is_dir (b_tree (snd (snd s))) dir"
    and f: "lookup (b_tree (snd (snd s))) dir (sanitize_path_component (host_of_url url)) = None"
    and r: "list_server M mx pk dir url s = Some s'" and h: "honest_listing (me_client M) url pk L"
  shows "listed_at (me_db M) (me_uni M) (b_tree (snd (snd s'))) dir
    [sanitize_path_component (host_of_url url), ''by-sha256''] (listed_blobs mx L)"
proof -
  obtain ds w b where s: "s = (ds, w, b)" by (cases s)
  let ?t = "b_tree b" and ?h = "next_inode (b_tree b)"
  let ?t1 = "snd (add_directory ?t dir (host_of_url url))"
  have "fst (list_all_blobs (me_client M) (client_new url) pk mx 500 w) = Inr (if mx = 0 then L else take mx L)"
    unfolding list_all_blobs_def
    using list_pages_complete [of "me_client M" "client_new url" pk 500 L "[]" MAX_PAGES] h
    by (simp add: honest_listing_def)
  with r s have t': "b_tree (snd (snd s')) = build_from_descriptors (me_db M) (me_uni M) ?t1 ?h (listed_blobs mx L)"
    using list_server_tree [of M mx pk dir url ds w b s'] by (simp add: listed_blobs_def)
  have w: "tree_wf ?t" "is_dir ?t dir" using wf d s by simp_all
  note F = fresh_dir [OF w, where nm = "host_of_url url"]
  have e: "lookup ?t1 ?h nm = None" for nm
    using lookup_None_names [OF F(1), of nm ?h] F(5) by (simp add: dir_names_def)
  obtain S T D where v: "views_ok ?h S T D (b_tree (snd (snd s')))" "tree_ext ?t1 (b_tree (snd (snd s')))"
      "lookup (b_tree (snd (snd s'))) ?h ''by-sha256'' = Some S"
      "dir_shas (b_tree (snd (snd s'))) S = keep_first (valid_shas (listed_blobs mx L))"
      "sha_files (me_db M) (me_uni M) S (listed_blobs mx L) (b_tree (snd (snd s')))"
    using build_views_ok [OF F(1,4) e e e, of "me_db M" "me_uni M" "listed_blobs mx L"] unfolding t' by blast
  have "tree_wf (b_tree (snd (snd s')))" using v(1) by (simp add: views_ok_def)
  note l = listed_at_below [OF v(3) sha_files_listed [OF this v(4,5)]]
  have "lookup ?t1 dir (sanitize_path_component (host_of_url url)) = Some ?h" using F(10) f s by simp
  from listed_at_below [OF tree_ext_lookup [OF v(2) this] l] show ?thesis .
qed

section \<open>Listing a key\<close>

lemma list_pubkey_tree:
  assumes wf: "tree_wf (b_tree b)" and d: "is_dir (b_tree b) pd"
    and r: "list_pubkey M mx servers pd pk (w, b) = Some s'"
  defines "p \<equiv> next_inode (b_tree b)"
  defines "t1 \<equiv> snd (add_directory (b_tree b) pd pk)"
  defines "q \<equiv> next_inode t1" and "t2 \<equiv> snd (add_directory t1 p ''servers'')"
  shows "\<exists>s1. build_all (list_server M mx pk q) servers ([], w, b\<lparr>b_tree := t2\<rparr>) = Some s1
    \<and> above p (b_tree (snd (snd s1))) (b_tree (snd s'))
    \<and> above p t1 (b_tree (snd (snd s1)))"
    and "is_dir t1 p" "tree_wf t1" "is_dir t2 q" "tree_wf t2"
proof -
  note A = fresh_dir [OF wf d, where nm = pk, folded t1_def p_def]
  show w1: "tree_wf t1" "is_dir t1 p" by (rule A(1), rule A(4))
  note B = fresh_dir [OF A(1,4), where nm = "''servers''", folded t2_def q_def]
  show w2: "tree_wf t2" "is_dir t2 q" by (rule B(1), rule B(4))
  have pq: "p \<le> q" using next_inode_above [OF A(4)] by (simp add: q_def)
  have g12: "above p t1 t2"
    unfolding t2_def by (rule above_adders(1) [OF A(1) is_dir_valid [OF A(4)]]) simp
  obtain s1 where s1: "build_all (list_server M mx pk q) servers ([], w, b\<lparr>b_tree := t2\<rparr>) = Some s1"
    and s': "b_tree (snd s') = b_tree (snd (snd s1)) \<or> b_tree (snd s') = (case add_directory (b_tree (snd (snd s1))) p ''all-servers'' of
        (all_dir, t3) \<Rightarrow> build_by_sha256_only (me_db M) (me_uni M) t3 all_dir (fst s1))"
    using r by (fastforce simp: list_pubkey_def Let_def case_prod_beta adder_fst p_def q_def t1_def t2_def
      split: option.splits if_splits)
  have a1: "above p t2 (b_tree (snd (snd s1)))"
    using servers.build_children [OF _ _ s1, of p] w2 pq by simp
  have g: "above p t1 (b_tree (snd (snd s1)))" by (rule above_trans [OF g12 a1])
  note wf1 = grows_wf [OF above_grows [OF g]]
    and v1 = grows_valid [OF above_grows [OF g] is_dir_valid [OF A(4)]]
  note C = above_fresh_dir [OF wf1 v1 order_refl, of "''all-servers''"]
  have "above p (b_tree (snd (snd s1))) (b_tree (snd s'))"
    using s' above_refl [OF wf1]
      above_trans [OF C(1) build_by_sha256_only_above [OF grows_wf [OF above_grows [OF C(1)]] C(2,3)]]
    by (auto simp: case_prod_beta)
  with s1 g show "\<exists>s1. build_all (list_server M mx pk q) servers ([], w, b\<lparr>b_tree := t2\<rparr>) = Some s1
    \<and> above p (b_tree (snd (snd s1))) (b_tree (snd s')) \<and> above p t1 (b_tree (snd (snd s1)))" by blast
qed

lemma list_pubkey_child:
  assumes "tree_wf (b_tree (snd s))" "is_dir (b_tree (snd s)) pd" "list_pubkey M mx servers pd pk s = Some s'"
  shows "new_child pd pk (b_tree (snd s)) (b_tree (snd s'))"
proof -
  obtain w b where s: "s = (w, b)" by (cases s)
  show ?thesis
    using list_pubkey_tree(1) [of b pd M mx servers pk w s'] assms above_trans unfolding s new_child_def by auto
qed

interpretation pubkeys: child_fold "list_pubkey M mx servers pd" "\<lambda>s. b_tree (snd s)" "\<lambda>pk. pk" pd
  for M mx servers pd
  by unfold_locales (rule list_pubkey_child)

text \<open>Two servers of one mount may not share a host directory, two keys not a directory name.\<close>

definition own_name :: "('a \<Rightarrow> string) \<Rightarrow> 'a list \<Rightarrow> 'a \<Rightarrow> bool" where
  "own_name f xs x \<longleftrightarrow> x \<in> set xs \<and> (\<forall>y \<in> set xs.
     sanitize_path_component (f y) = sanitize_path_component (f x) \<longrightarrow> y = x)"

lemma own_name_split:
  assumes "own_name f xs x"
  obtains ys zs where "xs = ys @ x # zs" "\<And>y. y \<in> set ys \<Longrightarrow> sanitize_path_component (f y) \<noteq> sanitize_path_component (f x)"
proof -
  obtain ys zs where s: "xs = ys @ x # zs" "x \<notin> set ys"
    using split_list_first [of x xs] assms unfolding own_name_def by blast
  have "sanitize_path_component (f y) \<noteq> sanitize_path_component (f x)" if "y \<in> set ys" for y
    using assms s that unfolding own_name_def by auto
  with s(1) show ?thesis by (rule that)
qed

lemma list_pubkey_listed:
  assumes wf: "tree_wf (b_tree (snd s))" and d: "is_dir (b_tree (snd s)) pd"
    and f: "lookup (b_tree (snd s)) pd (sanitize_path_component pk) = None"
    and r: "list_pubkey M mx servers pd pk s = Some s'"
    and sv: "own_name host_of_url servers sv" and h: "honest_listing (me_client M) sv pk L"
  shows "listed_at (me_db M) (me_uni M) (b_tree (snd s')) pd
    [sanitize_path_component pk, ''servers'', sanitize_path_component (host_of_url sv), ''by-sha256'']
    (listed_blobs mx L)"
proof -
  obtain w b where s: "s = (w, b)" by (cases s)
  define p where "p = next_inode (b_tree b)"
  define t1 where "t1 = snd (add_directory (b_tree b) pd pk)"
  define q where "q = next_inode t1"
  define t2 where "t2 = snd (add_directory t1 p ''servers'')"
  have w: "tree_wf (b_tree b)" "is_dir (b_tree b) pd" using wf d s by simp_all
  note T = list_pubkey_tree [OF w r [unfolded s], folded p_def, folded t1_def, folded q_def t2_def]
  obtain s1 where s1: "build_all (list_server M mx pk q) servers ([], w, b\<lparr>b_tree := t2\<rparr>) = Some s1"
      "above p (b_tree (snd (snd s1))) (b_tree (snd s'))"
    using T(1) by blast
  obtain ys zs where split: "servers = ys @ sv # zs"
      "\<And>y. y \<in> set ys \<Longrightarrow> sanitize_path_component (host_of_url y) \<noteq> sanitize_path_component (host_of_url sv)"
    using own_name_split [OF sv] by blast
  note B = fresh_dir [OF T(3,2), where nm = "''servers''", folded t2_def q_def]
  have "dir_names t2 q = []" using B(5) by (simp add: dir_names_def)
  then obtain sa sb where ab: "list_server M mx pk q sv sa = Some sb" "tree_wf (b_tree (snd (snd sa)))"
      "is_dir (b_tree (snd (snd sa))) q"
      "lookup (b_tree (snd (snd sa))) q (sanitize_path_component (host_of_url sv)) = None"
      "grows (b_tree (snd (snd sb))) (b_tree (snd (snd s1)))"
    using servers.build_at [OF _ _ s1(1) [unfolded split(1)]] T(4,5) split(2) by auto
  have e: "tree_ext (b_tree (snd (snd sb))) (b_tree (snd s'))"
    using tree_ext_trans [OF grows_ext [OF ab(5)] grows_ext [OF above_grows [OF s1(2)]]] .
  have l: "listed_at (me_db M) (me_uni M) (b_tree (snd s')) q
      [sanitize_path_component (host_of_url sv), ''by-sha256''] (listed_blobs mx L)"
    by (rule listed_at_ext [OF e list_server_listed [OF ab(2,3,4,1) h]])
  have "above p t2 (b_tree (snd (snd s1)))"
    using servers.build_children [OF _ _ s1(1), of p] T(4,5) next_inode_above [OF T(2)] by (simp add: q_def)
  then have e2: "tree_ext t2 (b_tree (snd s'))" using above_trans s1(2) above_grows grows_ext by blast
  have "sanitize_path_component ''servers'' = ''servers''"
    by (simp add: safe_component_iff [symmetric] safe_component_def comp_unsafe_def is_ascii_control_def)
  note A = fresh_dir [OF w, where nm = pk, folded t1_def p_def]
  have "lookup t1 p nm = None" for nm
    using lookup_None_names [OF T(3), of nm p] A(5) by (simp add: dir_names_def)
  then have "lookup t2 p ''servers'' = Some q" using B(10) \<open>sanitize_path_component ''servers'' = _\<close> by simp
  note l2 = listed_at_below [OF tree_ext_lookup [OF e2 this] l]
  have "lookup t1 pd (sanitize_path_component pk) = Some p" using A(10) f s by simp
  from listed_at_below [OF tree_ext_lookup [OF tree_ext_trans [OF B(2) e2] this] l2] show ?thesis .
qed

definition key_labels :: "string list \<Rightarrow> string list" where
  "key_labels hexes = (if hexes = [] then [''all''] else hexes)"

lemma server_source_listed:
  assumes wf: "tree_wf (b_tree (snd s))" and d: "is_dir (b_tree (snd s)) pd"
    and f: "sanitize_path_component pk \<notin> set (dir_names (b_tree (snd s)) pd)"
    and r: "server_source M a servers hexes (Some pd) s = Some s'"
    and pk: "own_name (\<lambda>k. k) (key_labels hexes) pk"
    and sv: "own_name host_of_url servers sv" and h: "honest_listing (me_client M) sv pk L"
  shows "listed_at (me_db M) (me_uni M) (b_tree (snd s')) pd
    [sanitize_path_component pk, ''servers'', sanitize_path_component (host_of_url sv), ''by-sha256'']
    (listed_blobs (a_max_blobs a) L)"
proof -
  obtain ys zs where split: "key_labels hexes = ys @ pk # zs"
      "\<And>y. y \<in> set ys \<Longrightarrow> sanitize_path_component y \<noteq> sanitize_path_component pk"
    using own_name_split [OF pk] by blast
  have "servers \<noteq> []" using sv by (auto simp: own_name_def)
  then have b: "build_all (list_pubkey M (a_max_blobs a) servers pd) (ys @ pk # zs) s = Some s'"
    using r split(1) unfolding server_source_def key_labels_def by simp
  obtain sa sb where ab: "list_pubkey M (a_max_blobs a) servers pd pk sa = Some sb"
      "tree_wf (b_tree (snd sa))" "is_dir (b_tree (snd sa)) pd"
      "lookup (b_tree (snd sa)) pd (sanitize_path_component pk) = None"
      "grows (b_tree (snd sb)) (b_tree (snd s'))"
    using pubkeys.build_at [OF wf d b f] split(2) by blast
  show ?thesis
    by (rule listed_at_ext [OF grows_ext [OF ab(5)] list_pubkey_listed [OF ab(2,3,4,1) sv h]])
qed

end
