(* ===== verification/Bfs_Mount_Inv.thy ===== *)
theory Bfs_Mount_Inv
  imports Bfs_Listing
begin

text \<open>
  What a mount starts from: every source only grows the tree, so that the tree handed to the
  file system is well formed; and what then holds of every run of the mounted system.
\<close>

section \<open>The sources\<close>

text \<open>Adding a directory and going on below it.\<close>

lemma grows_via_dir:
  assumes "tree_wf t" "valid_ino t p"
    and "\<And>i t'. add_directory t p nm = (i, t') \<Longrightarrow> tree_wf t' \<Longrightarrow> valid_ino t' i \<Longrightarrow> grows t t' \<Longrightarrow> grows t' (f i t')"
  shows "grows t (case add_directory t p nm of (i, t') \<Rightarrow> f i t')"
proof -
  obtain i t' where d: "add_directory t p nm = (i, t')" by fastforce
  have g: "grows t t'" "valid_ino t' i"
    using grows_adders(1) [OF assms(1,2), of nm] add_dir_valid(1) [of t p nm] d by simp_all
  show ?thesis
    using grows_trans [OF g(1) assms(3) [OF d grows_wf [OF g(1)] g(2) g(1)]] d by simp
qed

lemma manifest_source_grows:
  assumes wf: "tree_wf (b_tree b)" and p: "\<And>pd. public_dir = Some pd \<Longrightarrow> is_dir (b_tree b) pd"
    and r: "manifest_source M a public_dir b = Inr b'"
  shows "grows (b_tree b) (b_tree b')"
proof -
  have "grows (b_tree b) (case add_directory (b_tree b) pd ''local'' of (i, t1) \<Rightarrow>
      case add_directory t1 i ''servers'' of (j, t2) \<Rightarrow>
      case add_directory t2 j ''manifest'' of (k, t3) \<Rightarrow> build_from_descriptors db u t3 k ds)"
    if "valid_ino (b_tree b) pd" for pd ds db u
    by (rule grows_via_dir [OF wf that], rule grows_via_dir, assumption, assumption,
        rule grows_via_dir, assumption, assumption, rule views_grow(1))
  with r p grows_refl [OF wf] is_dir_valid show ?thesis
    by (auto simp: manifest_source_def Let_def case_prod_beta split: option.splits sum.splits)
qed

lemma server_source_grows:
  assumes "tree_wf (b_tree (snd s))" and "\<And>pd. public_dir = Some pd \<Longrightarrow> is_dir (b_tree (snd s)) pd"
    and "server_source M a servers hexes public_dir s = Some s'"
  shows "grows (b_tree (snd s)) (b_tree (snd s'))"
  using assms(2,3) grows_refl [OF assms(1)] pubkeys.build_children [OF assms(1), of _ M _ servers _ s' 0]
  by (auto simp: server_source_def split: option.splits if_splits)

section \<open>Drives and metadata\<close>

lemma add_drive_file_grows:
  assumes wf: "tree_wf t" and v: "valid_ino t r"
  shows "grows t (snd (add_drive_file t r path sha sz mime servers))"
proof -
  have "grows t (snd (add_remote_file (snd (dir_path t r ns)) (fst (dir_path t r ns)) nm url sha sz mime 0 None))"
    for ns nm url
  proof -
    have g: "grows t (snd (dir_path t r ns))" using wf v by (rule grows_adders(5))
    show ?thesis
      by (rule grows_trans [OF g grows_adders(3) [OF grows_wf [OF g] dir_path_valid [OF wf v]]])
  qed
  then show ?thesis
    using grows_refl [OF wf] grows_adders(5) [OF wf v]
    by (simp add: add_drive_file_def Let_def case_prod_beta)
qed

interpretation drive_entries: growing_loop "drive_entry_step dir servers" b_tree "\<lambda>t. valid_ino t dir"
  for dir servers
proof unfold_locales
  fix b :: build and e
  assume a: "tree_wf (b_tree b)" "valid_ino (b_tree b) dir"
  show "grows (b_tree b) (b_tree (drive_entry_step dir servers b e))"
    using add_drive_file_grows [OF a] grows_adders(5) [OF a]
    by (cases e) (simp_all add: drive_entry_step_def ensure_drive_path_def Let_def case_prod_beta)
qed (rule grows_valid)

interpretation drives: growing_loop "drive_step pk_dir servers" b_tree "\<lambda>t. valid_ino t pk_dir"
  for pk_dir servers
proof unfold_locales
  fix b :: build and d :: parsed_drive
  assume a: "tree_wf (b_tree b)" "valid_ino (b_tree b) pk_dir"
  define q where "q = add_directory (b_tree b) pk_dir (pd_id d)"
  have g: "grows (b_tree b) (snd q)" "valid_ino (snd q) (fst q)"
    using a by (simp_all add: q_def growth)
  have "grows (snd q) (b_tree (drive_step pk_dir servers b d))"
    using drive_entries.loop_grows [of "b\<lparr>b_tree := snd q\<rparr>" "fst q"] grows_wf [OF g(1)] g(2)
    by (simp add: drive_step_def q_def case_prod_beta)
  then show "grows (b_tree b) (b_tree (drive_step pk_dir servers b d))" by (rule grows_trans [OF g(1)])
qed (rule grows_valid)

lemma drive_source_grows:
  fixes b :: build
  assumes wf: "tree_wf (b_tree b)"
  shows "grows (b_tree b) (b_tree (drive_source N a servers pk b))"
proof -
  have "grows (b_tree b) (case add_directory (b_tree b) (root (b_tree b)) ''drives'' of (r, t1) \<Rightarrow>
      case add_directory t1 r k of (d, t2) \<Rightarrow> b_tree (foldl (drive_step d servers) (b\<lparr>b_tree := t2\<rparr>) ds))"
    for k ds
  proof (rule grows_via_dir [OF wf tree_wf_root_valid [OF wf]], rule grows_via_dir, assumption, assumption)
    fix i t2
    assume "tree_wf t2" "valid_ino t2 i"
    then show "grows t2 (b_tree (foldl (drive_step i servers) (b\<lparr>b_tree := t2\<rparr>) ds))"
      using drives.loop_grows [of "b\<lparr>b_tree := t2\<rparr>" i] by simp
  qed
  with grows_refl [OF wf] show ?thesis
    by (auto simp: drive_source_def case_prod_beta split: option.split sum.split)
qed

lemma nip94_step_grows:
  assumes wf: "tree_wf (b_tree (n9_build s))"
    and v: "valid_ino (b_tree (n9_build s)) mr" "valid_ino (b_tree (n9_build s)) pk"
    and r: "nip94_step M mr pk rec s = Some s'"
  shows "grows (b_tree (n9_build s)) (b_tree (n9_build s'))"
proof (cases "\<exists>sha. fm_sha256 (nr_meta rec) = Some sha \<and> is_hex_64 sha")
  case False
  then have "s' = s" using r by (auto simp: nip94_step_def Let_def split: option.splits if_splits)
  then show ?thesis using wf by (simp add: grows_refl)
next
  case True
  then obtain sha where sha: "fm_sha256 (nr_meta rec) = Some sha" "is_hex_64 sha" by blast
  define t1 where "t1 = snd (add_static_file (me_now M) (b_tree (n9_build s)) mr (sha @ ''.json'')
      (case me_meta_json M (nr_meta rec) of None \<Rightarrow> [] | Some j \<Rightarrow> j))"
  have g1: "grows (b_tree (n9_build s)) t1" using wf v(1) by (simp add: t1_def growth)
  have g2: "grows (b_tree (n9_build s)) (snd (add_remote_file t1 pk nm url sha sz mime 0 None))" for nm url sz mime
    by (rule grows_trans [OF g1 grows_adders(3) [OF grows_wf [OF g1] grows_valid [OF g1 v(2)]]])
  have "b_tree (n9_build s') = t1
      \<or> (\<exists>nm url sz mime. b_tree (n9_build s') = snd (add_remote_file t1 pk nm url sha sz mime 0 None))"
    using r sha unfolding nip94_step_def Let_def t1_def [symmetric]
    by (fastforce simp: t1_def [symmetric] split: option.splits if_splits)
  with g1 g2 show ?thesis by auto
qed

interpretation metadata: growing_fold "nip94_step M mr pk" "\<lambda>s. b_tree (n9_build s)"
    "\<lambda>t. valid_ino t mr \<and> valid_ino t pk" for M mr pk
  by unfold_locales (auto intro: nip94_step_grows grows_valid)

lemma nip94_source_grows:
  assumes wf: "tree_wf (b_tree b)" and r: "nip94_source M a pk b = Some b'"
  shows "grows (b_tree b) (b_tree b')"
proof (cases "b' = b")
  case True
  then show ?thesis using wf by (simp add: grows_refl)
next
  case False
  define m where "m = add_directory (b_tree b) (root (b_tree b)) ''metadata''"
  define n where "n = add_directory (snd m) (root (snd m)) ''nip94''"
  define k where "k = add_directory (snd n) (fst n) (the pk)"
  have gm: "grows (b_tree b) (snd m)" "valid_ino (snd m) (fst m)" using wf by (simp_all add: m_def growth)
  note wm = grows_wf [OF gm(1)]
  have gn: "grows (snd m) (snd n)" "valid_ino (snd n) (fst n)" using wm by (simp_all add: n_def growth)
  note wn = grows_wf [OF gn(1)]
  have gk: "grows (snd n) (snd k)" "valid_ino (snd k) (fst k)" using wn gn(2) by (simp_all add: k_def growth)
  have vm: "valid_ino (snd k) (fst m)" by (rule grows_valid [OF gk(1) grows_valid [OF gn(1) gm(2)]])
  obtain records s where s: "build_all (nip94_step M (fst m) (fst k)) records
        \<lparr>n9_build = b\<lparr>b_tree := snd k\<rparr>, n9_seen = {}, n9_releases = []\<rparr> = Some s"
    and b': "b' = (if n9_releases s = [] then n9_build s
              else case build_tollgate_tree (b_tree (n9_build s)) (n9_releases s) of
                     (count, t) \<Rightarrow> (n9_build s)\<lparr>b_tree := t, b_count := b_count (n9_build s) + count\<rparr>)"
    using r False
    by (auto simp: nip94_source_def m_def n_def k_def case_prod_beta split: option.splits sum.splits if_splits)
  have gs: "grows (snd k) (b_tree (n9_build s))"
    using metadata.build_grows [OF _ _ s] grows_wf [OF gk(1)] gk(2) vm by simp
  have g: "grows (b_tree b) (b_tree (n9_build s))"
    by (rule grows_trans [OF gm(1) grows_trans [OF gn(1) grows_trans [OF gk(1) gs]]])
  have "grows (b_tree (n9_build s)) (b_tree b')"
    using b' grows_refl [OF grows_wf [OF g]] adds_grows [OF tollgate_counted [OF grows_wf [OF g]]]
    by (auto split: if_splits prod.splits)
  then show ?thesis by (rule grows_trans [OF g])
qed

lemma nip34_source_grows:
  assumes wf: "tree_wf (b_tree b)" and r: "nip34_source M a b = Some b'"
  shows "grows (b_tree b) (b_tree b')"
  using r grows_refl [OF wf] adds_grows [OF build_nip34_counted [OF wf]]
  by (auto simp: nip34_source_def Let_def split: option.splits sum.splits if_splits)

section \<open>The mounted tree\<close>

lemma virtual_files_grows:
  fixes b :: build
  assumes wf: "tree_wf (b_tree b)"
  shows "grows (b_tree b) (virtual_files M a servers b)"
proof -
  define t where "t = snd (add_static_file (me_now M) (b_tree b) (root (b_tree b)) ''README.txt''
      (generate_readme (mount_info_of M a servers b)))"
  have g: "grows (b_tree b) t" using wf by (simp add: t_def growth)
  have "grows t (virtual_files M a servers b)"
    using grows_wf [OF g] by (simp add: virtual_files_def Let_def t_def growth)
  then show ?thesis by (rule grows_trans [OF g])
qed

lemma persist_source_grows:
  "tree_wf t \<Longrightarrow> grows t (persist_source M a servers keys t)"
  by (auto simp: persist_source_def grows_refl grows_apply_persisted split: option.split sum.split)

lemma root_is_dir: "is_dir new_tree (root new_tree)"
  by (simp add: is_dir_def new_tree_def get_def)

lemma public_root_ok:
  assumes "public_root a servers = (pd, t)"
  shows "tree_wf t" "pd = Some i \<Longrightarrow> is_dir t i"
  using assms fresh_dir [OF tree_wf_new root_is_dir, where nm = "''public''"]
  by (auto simp: public_root_def tree_wf_new case_prod_beta adder_fst split: if_splits)

lemma other_sources_split:
  assumes r: "other_sources M a servers hexes public_dir s = Some s'"
  shows "\<exists>s1. server_source M a servers hexes public_dir s = Some s1
    \<and> (tree_wf (b_tree (snd s1)) \<longrightarrow> grows (b_tree (snd s1)) (b_tree (snd s')))"
proof -
  let ?pk = "case hexes of [] \<Rightarrow> None | h # _ \<Rightarrow> Some h"
  obtain w b1 b2 b3 where b: "server_source M a servers hexes public_dir s = Some (w, b1)"
      "nip94_source M a ?pk (drive_source (me_nostr M) a servers ?pk b1) = Some b2"
      "nip34_source M a b2 = Some b3" "s' = (w, b3)"
    using r by (auto simp: other_sources_def Let_def split: option.splits)
  have "grows (b_tree b1) (b_tree b3)" if wf: "tree_wf (b_tree b1)"
  proof -
    have g2: "grows (b_tree b1) (b_tree (drive_source (me_nostr M) a servers ?pk b1))"
      by (rule drive_source_grows [OF wf])
    have g3: "grows (b_tree (drive_source (me_nostr M) a servers ?pk b1)) (b_tree b2)"
      by (rule nip94_source_grows [OF grows_wf [OF g2] b(2)])
    show ?thesis
      by (rule grows_trans [OF g2 grows_trans [OF g3 nip34_source_grows [OF grows_wf [OF g3] b(3)]]])
  qed
  with b show ?thesis by auto
qed

lemma other_sources_grows:
  assumes wf: "tree_wf (b_tree (snd s))" and p: "\<And>pd. public_dir = Some pd \<Longrightarrow> is_dir (b_tree (snd s)) pd"
    and r: "other_sources M a servers hexes public_dir s = Some s'"
  shows "grows (b_tree (snd s)) (b_tree (snd s'))"
proof -
  obtain s1 where s1: "server_source M a servers hexes public_dir s = Some s1"
      "tree_wf (b_tree (snd s1)) \<longrightarrow> grows (b_tree (snd s1)) (b_tree (snd s'))"
    using other_sources_split [OF r] by blast
  have g: "grows (b_tree (snd s)) (b_tree (snd s1))" by (rule server_source_grows [OF wf p s1(1)])
  show ?thesis using grows_trans [OF g] s1(2) grows_wf [OF g] by blast
qed

section \<open>The mounted system\<close>

text \<open>What \<open>run_mount\<close> hands to the kernel, and the stages it went through.\<close>

definition mount_hexes :: "'w main_env \<Rightarrow> mount_args \<Rightarrow> string list" where
  "mount_hexes M a = resolve_pubkey_hexes (me_nostr M) a"

definition mount_servers :: "'w main_env \<Rightarrow> mount_args \<Rightarrow> string list" where
  "mount_servers M a = effective_servers (me_nostr M) a
     (case mount_hexes M a of [] \<Rightarrow> None | h # _ \<Rightarrow> Some h)"

definition mount_stages ::
  "'w main_env \<Rightarrow> mount_args \<Rightarrow> 'w \<Rightarrow> disk \<Rightarrow> 'w mount_plan \<Rightarrow> nat option \<Rightarrow> tree \<Rightarrow> build \<Rightarrow> 'w \<Rightarrow> build \<Rightarrow> tree \<Rightarrow> bool" where
  "mount_stages M a w d plan pd t0 b1 w' b t \<longleftrightarrow>
     public_root a (mount_servers M a) = (pd, t0)
     \<and> manifest_source M a pd \<lparr>b_tree = t0, b_count = 0\<rparr> = Inr b1
     \<and> other_sources M a (mount_servers M a) (mount_hexes M a) pd (w, b1) = Some (w', b)
     \<and> t = persist_source M a (mount_servers M a) (resolve_keys (me_nostr M) a)
             (virtual_files M a (mount_servers M a) b)
     \<and> make_fs a (mount_servers M a) (resolve_keys (me_nostr M) a) w' d t = (mp_fs plan, mp_rw plan)
     \<and> mp_servers plan = mount_servers M a \<and> mp_keys plan = resolve_keys (me_nostr M) a"

lemma run_mount_stages:
  assumes r: "run_mount M a w d = Some (Inr plan)"
  shows "args_ok a" "\<exists>pd t0 b1 w' b t. mount_stages M a w d plan pd t0 b1 w' b t"
proof -
  have v: "validate_args a = Inr ()"
    using r validate_args_cases [of a] by (auto simp: run_mount_def)
  then show "args_ok a" by (simp add: validate_args_iff)
  show "\<exists>pd t0 b1 w' b t. mount_stages M a w d plan pd t0 b1 w' b t"
    using r v unfolding mount_stages_def
    by (auto simp: run_mount_def Let_def case_prod_beta mount_hexes_def mount_servers_def
        prod_eq_iff split: if_splits sum.splits option.splits)
qed

text \<open>Every stage only grows the tree.\<close>

lemma stages_grow:
  assumes "mount_stages M a w d plan pd t0 b1 w' b t"
  shows "tree_wf t0" "pd = Some i \<Longrightarrow> is_dir t0 i" "grows t0 (b_tree b1)" "grows (b_tree b1) (b_tree b)"
    "grows (b_tree b) t" "tree_wf t"
proof -
  note st = assms [unfolded mount_stages_def]
  note pt = st [THEN conjunct1]
  show w0: "tree_wf t0" and p0: "pd = Some i \<Longrightarrow> is_dir t0 i" for i
    using public_root_ok [OF pt] by blast+
  show g1: "grows t0 (b_tree b1)"
    using manifest_source_grows [of "\<lparr>b_tree = t0, b_count = 0\<rparr>" pd M a b1] st w0 p0 by simp
  have p1: "is_dir (b_tree b1) i" if "pd = Some i" for i
    by (rule tree_ext_is_dir [OF grows_ext [OF g1] p0 [OF that]])
  show g2: "grows (b_tree b1) (b_tree b)"
    using other_sources_grows [of "(w, b1)" pd M a "mount_servers M a" "mount_hexes M a" "(w', b)"]
      st grows_wf [OF g1] p1 by simp
  have "grows (b_tree b) (virtual_files M a (mount_servers M a) b)"
    by (rule virtual_files_grows [OF grows_wf [OF g2]])
  then show g3: "grows (b_tree b) t"
    using st persist_source_grows [OF grows_wf] grows_trans by metis
  then show "tree_wf t" by (rule grows_wf)
qed

lemma make_fs_inv:
  assumes m: "make_fs a servers keys w d t = (s, rw)" and wf: "tree_wf t"
    and c: "cache_sound (fe_fetch F) (a_cache_dir a) d"
  shows "fs_inv F s" and "rw \<longleftrightarrow> keys \<noteq> None \<and> servers \<noteq> [] \<and> \<not> a_read_only a"
    and "f_read_only s \<longleftrightarrow> \<not> rw" and "\<not> f_frozen s" and "f_tree s = t" and "f_ttl s = a_ttl_secs a"
    and "rw \<Longrightarrow> f_server_url s = Some (hd servers)"
proof -
  let ?rw = "fs_new_rw w d t (a_cache_dir a) (hd servers) (a_ttl_secs a) (megabytes (a_max_write_mb a))
                (a_free_period_days a * 86400 mod u64_max) (megabytes (a_max_free_size_mb a))
                (megabytes (a_max_cache_size a)) (megabytes (a_multipart_threshold_mb a))
                (megabytes (a_write_buffer_mb a))"
  let ?ro = "fs_new_with_cache w d t (a_cache_dir a) (a_ttl_secs a)
                (a_free_period_days a * 86400 mod u64_max) (megabytes (a_max_free_size_mb a))
                (megabytes (a_max_cache_size a))"
  have e: "keys \<noteq> None \<and> servers \<noteq> [] \<and> \<not> a_read_only a \<and> rw \<and> s = set_http_timeout (a_http_timeout_secs a) ?rw
     \<or> \<not> (keys \<noteq> None \<and> servers \<noteq> [] \<and> \<not> a_read_only a) \<and> \<not> rw \<and> s = set_http_timeout (a_http_timeout_secs a) ?ro"
    using m by (cases keys; cases servers; cases "a_read_only a") (auto simp: make_fs_def Let_def)
  have t: "fs_inv F s' \<Longrightarrow> fs_inv F (set_http_timeout n s')" for s' n
    by (simp add: fs_inv_def cache_ok_def set_http_timeout_def)
  show "fs_inv F s"
    using e t [OF fs_inv_new_rw [OF wf c]] t [OF fs_inv_new_cache [OF wf c]] by blast
  show "rw \<longleftrightarrow> keys \<noteq> None \<and> servers \<noteq> [] \<and> \<not> a_read_only a"
    using e by blast
  show "f_read_only s \<longleftrightarrow> \<not> rw" "\<not> f_frozen s" "f_tree s = t" "f_ttl s = a_ttl_secs a"
      "rw \<Longrightarrow> f_server_url s = Some (hd servers)"
    using e by (elim disjE conjE;
      simp add: set_http_timeout_def fs_new_rw_def fs_new_with_cache_def fs_new_def)+
qed

text \<open>Every server the mount uses is an http(s) URL, wherever it came from.\<close>

lemma push_new_set: "set (foldl push_new xs ys) = set xs \<union> set ys"
  by (induction ys arbitrary: xs) (auto simp: push_new_def)

lemma effective_servers_http:
  assumes "list_all server_ok (a_server a)"
  shows "list_all server_ok (effective_servers N a pk)"
  using assms discover_servers_urls
  by (fastforce simp: effective_servers_def push_new_set list_all_iff server_ok_def http_url_def
      split: option.split sum.split)

section \<open>Mounting does not panic\<close>

lemma list_pubkey_defined:
  assumes "list_all (\<lambda>u. sanitize_hostname u \<noteq> None) servers"
  shows "list_pubkey M mx servers pd pk s \<noteq> None"
proof -
  have "build_all (list_server M mx pk d) servers x \<noteq> None" for d x
    by (rule build_all_defined)
      (use assms in \<open>auto simp: list_all_iff list_server_def Let_def split: prod.split sum.split\<close>)
  then show ?thesis
    by (cases s) (auto simp: list_pubkey_def case_prod_beta Let_def split: option.split)
qed

lemma server_source_defined:
  assumes "list_all (\<lambda>u. sanitize_hostname u \<noteq> None) servers"
  shows "server_source M a servers hexes public_dir s \<noteq> None"
proof -
  have "build_all (list_pubkey M mx servers pd) xs s \<noteq> None" for mx pd xs
    by (rule build_all_defined) (rule list_pubkey_defined [OF assms])
  then show ?thesis
    by (simp add: server_source_def del: not_None_eq build_all.simps split: option.split)
qed

lemma slice_hex: "is_hex_64 s \<Longrightarrow> slice_to 12 s \<noteq> None"
proof -
  assume h: "is_hex_64 s"
  then have "is_ascii_hexdigit (s ! 12)" by (simp add: is_hex_64_def list_all_length)
  then have "\<not> is_cont (s ! 12)" by (auto simp: is_ascii_hexdigit_def is_ascii_digit_def is_cont_def)
  with h show ?thesis by (simp add: slice_to_def is_char_boundary_def is_hex_64_def)
qed

lemma nip94_source_defined: "nip94_source M a pk b \<noteq> None"
proof -
  have "nip94_step M mr d r s \<noteq> None" for mr d r s
    using slice_hex by (fastforce simp: nip94_step_def Let_def split: option.split if_split)
  then have "build_all (nip94_step M mr d) rs s \<noteq> None" for mr d rs s
    by (rule build_all_defined)
  then show ?thesis
    by (auto simp: nip94_source_def case_prod_beta split: option.split sum.split)
qed

lemma nip34_source_defined:
  assumes "tree_wf (b_tree b)"
    and "\<And>pk data. fetch_nip34_events (me_nostr M) (a_nip34_relay a) pk = Inr data \<Longrightarrow> cut_ok data"
  shows "nip34_source M a b \<noteq> None"
proof -
  have "build_nip34_tree now (b_tree b) pk data c d \<noteq> None" if "cut_ok data" for now pk data c d
    using nip34_tree_built [OF assms(1) that, of now pk c d] by auto
  with assms(2) show ?thesis
    by (auto simp: nip34_source_def Let_def split: option.split sum.split)
qed

text \<open>\<open>run_mount\<close> returns whenever no server name is cut inside a character and the event ids of
  the repositories are ASCII.\<close>

lemma other_sources_defined:
  assumes wf: "tree_wf (b_tree (snd s))" and p: "\<And>pd. public_dir = Some pd \<Longrightarrow> is_dir (b_tree (snd s)) pd"
    and h: "list_all (\<lambda>u. sanitize_hostname u \<noteq> None) servers"
    and n: "\<And>pk data. fetch_nip34_events (me_nostr M) (a_nip34_relay a) pk = Inr data \<Longrightarrow> cut_ok data"
  shows "other_sources M a servers hexes public_dir s \<noteq> None"
proof -
  let ?pk = "case hexes of [] \<Rightarrow> None | h # _ \<Rightarrow> Some h"
  obtain w b1 where b1: "server_source M a servers hexes public_dir s = Some (w, b1)"
    using server_source_defined [OF h] by (metis not_None_eq surj_pair)
  obtain b2 where b2: "nip94_source M a ?pk (drive_source (me_nostr M) a servers ?pk b1) = Some b2"
    using nip94_source_defined by blast
  have "grows (b_tree (snd s)) (b_tree b1)" using server_source_grows [OF wf p b1] by simp
  then have "tree_wf (b_tree b2)"
    using nip94_source_grows [OF grows_wf [OF drive_source_grows] b2] grows_wf by blast
  from nip34_source_defined [OF this n] b1 b2 show ?thesis
    by (auto simp: other_sources_def Let_def)
qed

lemma run_mount_returns:
  assumes h: "list_all (\<lambda>u. sanitize_hostname u \<noteq> None) (effective_servers (me_nostr M) a
           (case resolve_pubkey_hexes (me_nostr M) a of [] \<Rightarrow> None | h # _ \<Rightarrow> Some h))"
    and n: "\<And>pk data. fetch_nip34_events (me_nostr M) (a_nip34_relay a) pk = Inr data \<Longrightarrow> cut_ok data"
    and a: "args_ok a" "me_exists M (a_mountpoint a)" "a_manifest a = None" "me_create_dir M (a_cache_dir a)"
  shows "\<exists>plan. run_mount M a w d = Some (Inr plan)"
proof -
  let ?hexes = "resolve_pubkey_hexes (me_nostr M) a"
  let ?servers = "effective_servers (me_nostr M) a (case ?hexes of [] \<Rightarrow> None | h # _ \<Rightarrow> Some h)"
  obtain pd t0 where pt: "public_root a ?servers = (pd, t0)" by fastforce
  have m: "manifest_source M a pd b = Inr b" for b
    using a(3) by (simp add: manifest_source_def)
  have "other_sources M a ?servers ?hexes pd (w, \<lparr>b_tree = t0, b_count = 0\<rparr>) \<noteq> None"
    by (rule other_sources_defined [OF _ _ h n]) (use public_root_ok [OF pt] in simp_all)
  then obtain w' b where "other_sources M a ?servers ?hexes pd (w, \<lparr>b_tree = t0, b_count = 0\<rparr>) = Some (w', b)"
    by (metis not_None_eq surj_pair)
  with a pt m show ?thesis
    by (simp add: run_mount_def Let_def case_prod_beta validate_args_iff [THEN iffD2] split: prod.split)
qed

text \<open>C11. The mount as a whole: when \<open>run_mount\<close> gets as far as mounting, its arguments are
  valid, every server it uses is an http(s) URL, it is writable exactly when it has keys, a
  server and \<open>--read-only=false\<close>, and the tree built from manifest, servers, drives, metadata,
  releases, repositories and the persisted drive is well formed, as is the state after every
  interleaving of FUSE callbacks and control commands; a mount that is not writable refuses
  every change throughout.\<close>

theorem mounted_system:
  assumes "run_mount M a w d = Some (Inr plan)"
    and "cache_sound (fe_fetch F) (a_cache_dir a) d"
    and s: "s = fold (event_step F C) evs (mp_fs plan)"
  shows "args_ok a \<and> list_all server_ok (mp_servers plan)
    \<and> (mp_rw plan \<longleftrightarrow> mp_keys plan \<noteq> None \<and> mp_servers plan \<noteq> [] \<and> \<not> a_read_only a)
    \<and> tree_wf (f_tree (mp_fs plan)) \<and> 0 < f_ttl (mp_fs plan)
    \<and> fs_inv F s
    \<and> (\<not> mp_rw plan \<and> changes_content op \<longrightarrow> fs_step F op s = Some (RpError EROFS, s))"
proof -
  obtain pd t0 b1 w' b t where g: "mount_stages M a w d plan pd t0 b1 w' b t"
    using run_mount_stages(2) [OF assms(1)] by blast
  define servers where "servers = mount_servers M a"
  define keys where "keys = resolve_keys (me_nostr M) a"
  have p: "tree_wf t" "make_fs a servers keys w' d t = (mp_fs plan, mp_rw plan)" "args_ok a"
    using stages_grow(6) [OF g] g run_mount_stages(1) [OF assms(1)]
    unfolding mount_stages_def servers_def keys_def by blast+
  have mp: "mp_servers plan = servers" "mp_keys plan = keys"
    using g by (simp_all add: mount_stages_def servers_def keys_def)
  note m = make_fs_inv [OF p(2,1) assms(2)]
  have i: "fs_inv F s"
    unfolding s by (rule controlled.run_inv [OF m(1)])
  have l: "locked s" if "\<not> mp_rw plan"
    using m(3) that by (simp add: s locked_def run_read_only [OF m(1)])
  have "list_all server_ok servers"
    using p(3) by (simp add: servers_def mount_servers_def effective_servers_http args_ok_def)
  then show ?thesis
    using p(1,3) m(2,5,6) mp i locked_step [OF l] by (auto simp: args_ok_def)
qed

section \<open>Two surprises\<close>

text \<open>Validation accepts a hex key for \<open>--npub\<close>, but only bech32 keys are resolved: the key is
  dropped and the mount lists the blobs of \<open>all\<close>.\<close>

lemma hex_npub_ignored:
  assumes "is_hex_64 n" and "ne_from_bech32 N n = None"
  shows "npub_ok n \<and> resolve_pubkey_hexes N (default_args\<lparr>a_npub := [n]\<rparr>) = []"
  using assms
  by (simp add: npub_ok_def resolve_pubkey_hexes_def parse_npub_def default_args_def List.map_filter_simps)

text \<open>Two servers with the same host name (say over http and https) get two directories of one
  name; \<open>lookup\<close> only ever finds the first.\<close>

lemma second_directory_hidden:
  assumes "tree_wf t" "is_dir t p" "lookup t p nm = Some i"
  shows "lookup (snd (add_directory t p nm)) p nm = Some i"
  using tree_ext_lookup [OF tree_ext_add_directory [OF assms(1,2)] assms(3)] .

text \<open>A writable mount of one server, which lists nothing, with a key on the command line.\<close>

definition demo_nostr :: nostr_env where
  "demo_nostr = \<lparr>ne_from_hex = Some, ne_from_bech32 = (\<lambda>_. None), ne_keys = Some,
     ne_read_file = (\<lambda>_. None), ne_fetch = (\<lambda>_ _. Inr [])\<rparr>"

definition demo_main :: "request list main_env" where
  "demo_main = \<lparr>me_nostr = demo_nostr, me_client = demo_cenv,
     me_cbor = \<lparr>cb_base64 = (\<lambda>_. None), cb_reader = (\<lambda>_. None)\<rparr>,
     me_db = \<lparr>mime_parse = (\<lambda>_. None), mime_exts = (\<lambda>_. None)\<rparr>,
     me_uni = \<lparr>uni_alnum = (\<lambda>_. False), uni_lower = (\<lambda>s. s)\<rparr>,
     me_exists = (\<lambda>_. True), me_display = (\<lambda>_. ''/m''), me_create_dir = (\<lambda>_. True),
     me_meta_json = (\<lambda>_. None), me_nwc = (\<lambda>_. None), me_public_key = id,
     me_auth = (\<lambda>_. \<lparr>ae_now = 0, ae_sign = (\<lambda>_ _ _. None), ae_b64 = id\<rparr>), me_now = 0\<rparr>"

definition demo_args :: mount_args where
  "demo_args = default_args\<lparr>a_pubkey := [replicate 64 (CHR ''a'')], a_server := [''http://s''],
     a_read_only := False, a_dangerous_nsec := Some ''k''\<rparr>"

lemma demo_mounts:
  "\<exists>plan. run_mount demo_main demo_args [] Map.empty = Some (Inr plan)"
proof (rule run_mount_returns)
  have "sanitize_hostname ''http://s'' \<noteq> None" by code_simp
  then show "list_all (\<lambda>u. sanitize_hostname u \<noteq> None) (effective_servers (me_nostr demo_main) demo_args
      (case resolve_pubkey_hexes (me_nostr demo_main) demo_args of [] \<Rightarrow> None | h # _ \<Rightarrow> Some h))"
    by (simp add: effective_servers_def demo_args_def default_args_def)
  show "args_ok demo_args"
    by (simp add: args_ok_def demo_args_def default_args_def is_hex_64_def is_ascii_hexdigit_def
        server_ok_def list_all_length)
qed (auto simp: demo_main_def demo_nostr_def demo_args_def default_args_def fetch_nip34_events_def
      List.map_filter_simps)

theorem mounted_system_witness:
  "\<exists>plan. run_mount demo_main demo_args [] Map.empty = Some (Inr plan)
     \<and> list_all server_ok (mp_servers plan)
     \<and> fs_inv demo_fs_env (fold (event_step demo_fs_env demo_control) [Callback (Mkdir 1 (Some ''d''))] (mp_fs plan))"
proof -
  obtain plan where p: "run_mount demo_main demo_args [] Map.empty = Some (Inr plan)"
    using demo_mounts by blast
  have c: "cache_sound (fe_fetch demo_fs_env) (a_cache_dir demo_args) Map.empty"
    by (simp add: cache_sound_def)
  show ?thesis
    using mounted_system [OF p c refl, of demo_control "[Callback (Mkdir 1 (Some ''d''))]"] p by auto
qed

end
