(* ===== verification/Bfs_Keeps.thy ===== *)
theory Bfs_Keeps
  imports Bfs_Readback Bfs_Control
begin

text \<open>
  What a mount without write access keeps.  Its tree still changes: listing a directory may clone
  a repository into it, and a read may record an expiry.  But every path that once resolves
  resolves to the same node for ever, and a node that stands for a blob goes on standing for it.
\<close>

section \<open>Trees that keep their paths and blobs\<close>

definition blob_ref :: "tree \<Rightarrow> nat \<Rightarrow> (string \<times> string) option" where
  "blob_ref t c = (case get t c of Some (File _ _ _ _ (Remote url sha _ _) _) \<Rightarrow> Some (url, sha) | _ \<Rightarrow> None)"

definition keeps :: "tree \<Rightarrow> tree \<Rightarrow> bool" where
  "keeps t t' \<longleftrightarrow> (\<forall>q m i. lookup t q m = Some i \<longrightarrow> lookup t' q m = Some i)
     \<and> (\<forall>c b. blob_ref t c = Some b \<longrightarrow> blob_ref t' c = Some b)"

lemma keeps_refl [simp]: "keeps t t"
  by (simp add: keeps_def)

lemma keeps_trans: "keeps a b \<Longrightarrow> keeps b c \<Longrightarrow> keeps a c"
  by (simp add: keeps_def)

lemma blob_ref_iff: "blob_ref t c = Some (url, sha) \<longleftrightarrow>
    (\<exists>i nm p n mime e up. get t c = Some (File i nm p n (Remote url sha mime e) up))"
  by (auto simp: blob_ref_def split: option.splits tree_node.splits file_content.splits)

lemma keeps_ext:
  assumes "tree_ext t t'"
  shows "keeps t t'"
  unfolding keeps_def
proof (intro conjI allI impI)
  fix c b assume "blob_ref t c = Some b"
  then obtain url sha where b: "b = (url, sha)" "blob_ref t c = Some (url, sha)" by (cases b) auto
  then show "blob_ref t' c = Some b"
    using tree_ext_file [OF assms] unfolding b(1) blob_ref_iff by blast
qed (use assms tree_ext_lookup in auto)

lemma keeps_find_path: "keeps t t' \<Longrightarrow> find_path t p ns = Some i \<Longrightarrow> find_path t' p ns = Some i"
  by (induction ns arbitrary: p) (auto simp: keeps_def split: option.splits)

text \<open>An update that leaves names, children and blobs alone.\<close>

lemma keeps_update:
  assumes "\<And>n. get t p = Some n \<Longrightarrow> n_name (f n) = n_name n \<and> kids (f n) = kids n"
    and "\<And>b. blob_ref t p = Some b \<Longrightarrow> blob_ref (update_node t p f) p = Some b"
  shows "keeps t (update_node t p f)"
proof -
  have nm: "map_option n_name (get (update_node t p f) c) = map_option n_name (get t c)" for c
    using assms(1) by (cases "get t c") (auto simp: get_update_node)
  have "dir_kids (update_node t p f) q = dir_kids t q" for q
    using assms(1) by (auto simp: dir_kids_def get_update_node split: option.split)
  then have "lookup (update_node t p f) q m = lookup t q m" for q m
    using lookup_in_cong [of "dir_kids t q" "update_node t p f" t m] nm by (simp add: lookup_kids)
  moreover have "blob_ref (update_node t p f) c = blob_ref t c" if "c \<noteq> p" for c
    using that by (simp add: blob_ref_def get_update_node)
  ultimately show ?thesis
    using assms(2) unfolding keeps_def by metis
qed

lemma keeps_set_expires: "keeps t (snd (set_expires t ino e))"
  by (auto simp: set_expires_def blob_ref_def get_update_node intro!: keeps_update
      split: option.split tree_node.split file_content.split)

lemma take_lazy_facts:
  assumes "take_lazy t ino = (r, t')"
  shows "keeps t t'" "tree_wf t \<Longrightarrow> tree_wf t'" "r = Some lz \<Longrightarrow> is_dir t' ino"
  using assms tree_wf_take_lazy [of t ino]
  by (auto simp: take_lazy_def is_dir_def blob_ref_def get_update_node intro!: keeps_update
      split: option.splits tree_node.splits)

section \<open>Reads and listings\<close>

lemma populate_keeps_tree:
  assumes "tree_wf (f_tree s)"
  shows "keeps (f_tree s) (f_tree (populate_if_lazy F ino s))"
proof -
  obtain r t where t: "take_lazy (f_tree s) ino = (r, t)" by (rule prod.exhaust)
  note k = take_lazy_facts [OF t]
  have w: "tree_wf t" by (rule k(2) [OF assms])
  have st: "keeps t (snd (add_static_file now t ino nm c))" if "is_dir t ino" for now nm c
    by (intro keeps_ext) (use that w in \<open>simp_all add: add_static_file_def Let_def tree_ext_add_node\<close>)
  have wk: "keeps t (snd (walk_repo_tree now es repo t ino))" if "is_dir t ino" for now es repo
    by (intro keeps_ext walk_repo_tree_ok(2) [OF w that])
  show ?thesis
    using k(1) keeps_trans [OF k(1)] st wk k(3) t
    by (auto simp: populate_if_lazy_def split: option.split lazy_dir.split sum.split)
qed

lemma host_tree [simp]: "f_tree (put_host h s) = f_tree s" "f_tree (unclaim sha s) = f_tree s"
  by (simp_all add: put_host_def unclaim_def)

lemma full_fetch_tree [simp]: "f_tree (snd (full_fetch F url sha base s)) = f_tree s"
  by (auto simp: full_fetch_def Let_def split: prod.split sum.split)

lemma finish_read_keeps: "keeps (f_tree s) (f_tree (snd (finish_read F ino sha base off sz r s)))"
  by (cases r) (auto simp: finish_read_def Let_def keeps_set_expires split: option.split prod.split)

lemma fetch_remote_keeps_tree: "keeps (f_tree s) (f_tree (snd (fetch_remote F ino url sha base off sz s)))"
proof -
  obtain q h where q: "fetch_range (fe_fetch F) url off (off + sz - 1) (host_of s) = (q, h)" by (rule prod.exhaust)
  obtain o1 s1 where f: "full_fetch F url sha base (put_host h s) = (o1, s1)" by (rule prod.exhaust)
  have t: "f_tree s1 = f_tree s" using full_fetch_tree [of F url sha base "put_host h s"] f by simp
  have k: "f_tree s1 = f_tree s \<Longrightarrow> keeps (f_tree s) (f_tree (snd (finish_read F ino sha base off sz r s1)))" for r s1
    using finish_read_keeps [of s1] by simp
  show ?thesis
  proof (cases q)
    case (Inl e)
    with f t k show ?thesis unfolding fetch_remote_def q by (auto split: option.split)
  next
    case (Inr x)
    then show ?thesis unfolding fetch_remote_def q
      by (cases x) (auto simp: Let_def intro!: k split: prod.split option.split sum.split)
  qed
qed

lemma read_content_keeps_tree:
  assumes "read_content F ino off sz s = Some (q, s')"
  shows "keeps (f_tree s) (f_tree s')"
proof -
  have fr: "keeps (f_tree s1) (f_tree s')" if "fetch_remote F ino url sha base off sz s1 = (q, s')" for url sha base s1
    using fetch_remote_keeps_tree [of s1 F ino url sha base off sz] that by simp
  have "read_remote F ino url sha off sz s = Some (q, s') \<Longrightarrow> keeps (f_tree s) (f_tree s')" for url sha
    by (auto simp: read_remote_def Let_def dest!: fr split: option.splits if_splits)
  then show ?thesis
    using assms by (auto simp: read_content_def split: option.splits tree_node.splits file_content.splits)
qed

section \<open>Runs\<close>

text \<open>Without write access no buffer is ever open, so flush and release upload nothing.\<close>

definition read_only_ok :: "'w fs_env \<Rightarrow> 'w fs \<Rightarrow> bool" where
  "read_only_ok F s \<longleftrightarrow> fs_inv F s \<and> f_read_only s"

lemma read_only_step_keeps:
  assumes i: "read_only_ok F s" and st: "fs_step F op s = Some (r, s')"
  shows "keeps (f_tree s) (f_tree s')"
proof -
  have ro: "locked s" "f_buffers s = Map.empty" "tree_wf (f_tree s)"
    using i by (auto simp: read_only_ok_def fs_inv_def locked_def)
  show ?thesis
    using st ro populate_keeps_tree [OF ro(3)] read_content_keeps_tree [of F _ _ _ s _ s']
    by (cases op)
      (auto simp: fs_step_def op_lookup_def op_readdir_def op_getattr_def op_statfs_def op_refused_def op_rename_def op_link_def
      op_fsync_def op_getxattr_def op_listxattr_def op_setattr_def op_mkdir_def op_unlink_def op_rmdir_def op_write_def
      op_create_def op_open_def op_flush_def op_release_def op_read_def Let_def split: option.splits sum.splits)
qed

lemma event_keeps: "read_only_ok F s \<Longrightarrow> keeps (f_tree s) (f_tree (event_step F C ev s))"
  by (auto simp: event_step_def handle_command_frame fs_exec_def dest: read_only_step_keeps
      split: mount_event.split option.split)

interpretation ro_run: invariant_machine "event_step F C" "read_only_ok F" for F C
  by unfold_locales (simp add: read_only_ok_def controlled.step_inv event_step_read_only)

lemma run_keeps: "read_only_ok F s \<Longrightarrow> keeps (f_tree s) (f_tree (fold (event_step F C) evs s))"
proof (induction evs arbitrary: s)
  case (Cons ev evs)
  from keeps_trans [OF event_keeps [OF Cons.prems] Cons.IH [OF ro_run.step_inv [OF Cons.prems]]]
  show ?case by simp
qed simp

lemma event_config: "config_of (event_step F C ev s) = config_of s"
  by (auto simp: event_step_def handle_command_frame fs_exec_def config_of_def dest: fs_step_config [unfolded config_of_def]
      split: mount_event.split option.split)

lemma events_config: "config_of (fold (event_step F C) evs s) = config_of s"
  by (induction evs arbitrary: s) (simp_all add: event_config)

text \<open>A blob that a path leads to stays at that path, and is read.\<close>

lemma blob_stays:
  fixes C :: control_env and evs :: "mount_event list"
  assumes i: "read_only_ok F s" and b: "blob_ref (f_tree s) c = Some (url, sha)"
  defines "s' \<equiv> fold (event_step F C) evs s"
  shows "find_path (f_tree s) p ns = Some c \<Longrightarrow> find_path (f_tree s') p ns = Some c"
    and "blob_ref (f_tree s') c = Some (url, sha)"
  using run_keeps [OF i, of C evs] keeps_find_path b unfolding s'_def keeps_def by blast+

lemma blob_reads:
  assumes "fs_inv F s" "config_of s = (Some base, True)" "blob_ref (f_tree s) c = Some (url, env_hash (fe_fetch F) data)"
    and "hash_names (fe_fetch F) data"
  shows "reads_as F c url data s"
  using assms(3) unfolding blob_ref_iff
  by (intro stored_file_reads [OF assms(1,2,4)]) (simp add: points_to_def)

end
