(* ===== verification/Bfs_Served.thy ===== *)
theory Bfs_Served
  imports Bfs_Mount_Inv Bfs_Keeps
begin

text \<open>
  From a server's listing to a read of the kernel: a blob that a server reports for a key is a file
  of the mount at \<open>public/KEY/servers/HOST/by-sha256/NAME\<close>, and reading it gives the blob.
\<close>

section \<open>The path to a listed blob\<close>

lemma manifest_source_names:
  assumes wf: "tree_wf (b_tree b)" and p: "is_dir (b_tree b) pd"
    and r: "manifest_source M a (Some pd) b = Inr b'"
  shows "set (dir_names (b_tree b') pd) \<subseteq> set (dir_names (b_tree b) pd) \<union> (if a_manifest a = None then {} else {''local''})"
proof (cases "a_manifest a")
  case None
  with r show ?thesis by (simp add: manifest_source_def)
next
  case (Some path)
  let ?t1 = "snd (add_directory (b_tree b) pd ''local'')"
  let ?l = "next_inode (b_tree b)" and ?s = "next_inode ?t1"
  let ?t2 = "snd (add_directory ?t1 ?l ''servers'')"
  let ?t3 = "snd (add_directory ?t2 ?s ''manifest'')"
  note A = fresh_dir [OF wf p, where nm = "''local''"]
  note B = above_fresh_dir [OF A(1,9) order_refl, where nm = "''servers''", unfolded adder_fst]
  note wB = grows_wf [OF above_grows [OF B(1)]]
  note C = above_fresh_dir [OF wB B(2,3), where nm = "''manifest''", unfolded adder_fst]
  note wC = grows_wf [OF above_grows [OF C(1)]]
  obtain ds where b': "b_tree b' = build_from_descriptors (me_db M) (me_uni M) ?t3 (next_inode ?t2) ds"
    using r Some by (auto simp: manifest_source_def Let_def case_prod_beta adder_fst split: sum.splits)
  have "above ?l ?t1 (b_tree b')"
    unfolding b' by (rule above_trans [OF above_trans [OF B(1) C(1)] build_from_descriptors_above [OF wC C(2,3)]])
  then have "new_child pd ''local'' (b_tree b) (b_tree b')" by (simp add: new_child_def)
  moreover have "sanitize_path_component ''local'' = ''local''"
    by (simp add: safe_component_iff [symmetric] safe_component_def comp_unsafe_def is_ascii_control_def)
  ultimately show ?thesis
    using new_child_facts(2) [OF wf p] Some by auto
qed

definition public_path :: "string \<Rightarrow> string \<Rightarrow> string list" where
  "public_path pk url = [''public'', sanitize_path_component pk, ''servers'',
     sanitize_path_component (host_of_url url), ''by-sha256'']"

text \<open>Which keys and servers the statement speaks of: a key whose directory name is its own (and
  not the manifest's \<open>local\<close>), a server whose host directory is its own.\<close>

definition own_key :: "'w main_env \<Rightarrow> mount_args \<Rightarrow> string \<Rightarrow> bool" where
  "own_key M a pk \<longleftrightarrow> own_name (\<lambda>k. k) (key_labels (mount_hexes M a)) pk
     \<and> (a_manifest a = None \<or> sanitize_path_component pk \<noteq> ''local'')"

lemma stages_listed:
  assumes st: "mount_stages M a w d plan pd t0 b1 w' b t" and k: "own_key M a pk"
    and sv: "own_name host_of_url (mount_servers M a) sv" and h: "honest_listing (me_client M) sv pk L"
  shows "listed_at (me_db M) (me_uni M) t 1 (public_path pk sv) (listed_blobs (a_max_blobs a) L)"
proof -
  note G = stages_grow [OF st]
  note s = st [unfolded mount_stages_def]
  define p where "p = next_inode new_tree"
  have ne: "mount_servers M a \<noteq> []" using sv by (auto simp: own_name_def)
  then have pd: "pd = Some p" "t0 = snd (add_directory new_tree 1 ''public'')"
    using s by (auto simp: public_root_def p_def case_prod_beta adder_fst new_tree_def)
  have d: "is_dir new_tree 1" using root_is_dir by (simp add: new_tree_def)
  note N = fresh_dir [OF tree_wf_new d, where nm = "''public''", folded pd(2) p_def]
  have pl: "sanitize_path_component ''public'' = ''public''"
    by (simp add: safe_component_iff [symmetric] safe_component_def comp_unsafe_def is_ascii_control_def)
  have "lookup new_tree 1 nm = None" for nm by (simp add: lookup_def new_tree_def get_def)
  then have l: "lookup t0 1 ''public'' = Some p" using N(10) pl by simp
  have names: "sanitize_path_component pk \<notin> set (dir_names (b_tree b1) p)"
    using manifest_source_names [of "\<lparr>b_tree = t0, b_count = 0\<rparr>" p M a b1] s pd(1) N(1,4,5) k
    by (auto simp: own_key_def dir_names_def split: if_splits)
  obtain s1 where s1: "server_source M a (mount_servers M a) (mount_hexes M a) (Some p) (w, b1) = Some s1"
      "tree_wf (b_tree (snd s1)) \<longrightarrow> grows (b_tree (snd s1)) (b_tree b)"
    using other_sources_split [of M a "mount_servers M a" "mount_hexes M a" pd "(w, b1)" "(w', b)"] s pd(1) by auto
  have w1: "tree_wf (b_tree b1)" and d1: "is_dir (b_tree b1) p"
    using grows_wf [OF G(3)] tree_ext_is_dir [OF grows_ext [OF G(3)] N(4)] by blast+
  have g1: "grows (b_tree b1) (b_tree (snd s1))"
    using server_source_grows [of "(w, b1)" "Some p"] w1 d1 s1(1) by auto
  have "listed_at (me_db M) (me_uni M) (b_tree (snd s1)) p (tl (public_path pk sv)) (listed_blobs (a_max_blobs a) L)"
    using server_source_listed [OF _ _ _ s1(1) _ sv h] w1 d1 names k by (simp add: public_path_def own_key_def)
  moreover have e: "grows (b_tree (snd s1)) t" using s1(2) grows_wf [OF g1] grows_trans G(5) by blast
  moreover have "lookup t 1 ''public'' = Some p"
    by (rule tree_ext_lookup [OF grows_ext [OF grows_trans [OF G(3) grows_trans [OF g1 e]]] l])
  ultimately show ?thesis
    using listed_at_below listed_at_ext [OF grows_ext] unfolding public_path_def by fastforce
qed

section \<open>Reading it\<close>

text \<open>What a mount starts with, whatever tree it is given.\<close>

lemma make_fs_config:
  "make_fs a servers keys w d t = (s, rw) \<Longrightarrow> config_of s = (Some (a_cache_dir a), True)"
  by (cases keys; cases servers; cases "a_read_only a")
    (auto simp: make_fs_def Let_def config_of_def set_http_timeout_def fs_new_rw_def fs_new_with_cache_def fs_new_def)

text \<open>C4. Every blob a server lists can be read.  A mount succeeds, and one of its servers pages
  its listing for one of its keys as it should.  Then every valid hash among the listed blobs (cut
  to \<open>--max-blobs\<close>, and to those with an http(s) URL and a legal size) has a file at
  \<open>public/KEY/servers/HOST/by-sha256/HASH.EXT\<close> that points to a blob reported with that hash.  On a
  mount without write access it stays there through all callbacks and control commands, as it is
  there before the first one on any mount; and at every moment a read of it gives exactly the slice
  of the blob asked for if the blob's server serves it and the disk works, and never bytes of
  anything else if partial answers of the server are honest.\<close>

theorem listed_blob_readable:
  assumes mnt: "run_mount M a w d = Some (Inr plan)"
    and cs: "cache_sound (fe_fetch F) (a_cache_dir a) d"
    and key: "own_key M a pk" and sv: "own_name host_of_url (mp_servers plan) sv"
    and h: "honest_listing (me_client M) sv pk L"
    and sha: "sha \<in> set (valid_shas (listed_blobs (a_max_blobs a) L))"
    and run: "s = fold (event_step F C) evs (mp_fs plan)" and ro: "mp_rw plan \<longrightarrow> evs = []"
  shows "\<exists>b \<in> set L. \<exists>c. sanitize_sha256 (bd_sha256 b) = Inr sha
    \<and> find_path (f_tree s) (root (f_tree s)) (public_path pk sv
        @ [sanitize_path_component (blob_file_name (me_db M) (me_uni M) b sha)]) = Some c
    \<and> points_to s c (bd_url b) sha
    \<and> (\<forall>data. hash_names (fe_fetch F) data \<and> env_hash (fe_fetch F) data = sha \<longrightarrow> reads_as F c (bd_url b) data s)"
proof -
  obtain pd t0 b1 w' bb t where st: "mount_stages M a w d plan pd t0 b1 w' bb t"
    using run_mount_stages(2) [OF mnt] by blast
  have mp: "mp_servers plan = mount_servers M a"
    and mk: "make_fs a (mount_servers M a) (resolve_keys (me_nostr M) a) w' d t = (mp_fs plan, mp_rw plan)"
    using st unfolding mount_stages_def by blast+
  note m = make_fs_inv [OF mk stages_grow(6) [OF st] cs]
  have "listed_at (me_db M) (me_uni M) t 1 (public_path pk sv) (listed_blobs (a_max_blobs a) L)"
    using stages_listed [OF st key _ h] sv mp by simp
  then obtain b c q where b: "b \<in> set (listed_blobs (a_max_blobs a) L)" "sanitize_sha256 (bd_sha256 b) = Inr sha"
      "find_path t 1 (public_path pk sv @ [sanitize_path_component (blob_file_name (me_db M) (me_uni M) b sha)]) = Some c"
      "get t c = Some (blob_node (sanitize_path_component (blob_file_name (me_db M) (me_uni M) b sha)) c q b sha)"
    using sha unfolding listed_at_def by blast
  have "b \<in> set L"
    using b(1) by (auto simp: listed_blobs_def valid_descriptors_def dest: in_set_takeD split: if_splits)
  have ref: "blob_ref (f_tree (mp_fs plan)) c = Some (bd_url b, sha)"
    using b(4) m(5) by (simp add: blob_ref_def blob_node_def)
  have i: "fs_inv F s" unfolding run by (rule controlled.run_inv [OF m(1)])
  have cfg: "config_of s = (Some (a_cache_dir a), True)"
    unfolding run events_config by (rule make_fs_config [OF mk])
  have now: "find_path (f_tree s) 1 (public_path pk sv
        @ [sanitize_path_component (blob_file_name (me_db M) (me_uni M) b sha)]) = Some c
      \<and> blob_ref (f_tree s) c = Some (bd_url b, sha)"
  proof (cases "mp_rw plan")
    case True
    then show ?thesis using run ro b(3) ref m(5) by simp
  next
    case False
    then have "read_only_ok F (mp_fs plan)" using m(1,3) by (simp add: read_only_ok_def)
    from blob_stays [OF this ref, where C = C and evs = evs] show ?thesis using b(3) m(5) unfolding run by simp
  qed
  have "root (f_tree s) = 1" using i by (simp add: fs_inv_def tree_wf_def)
  moreover have "points_to s c (bd_url b) sha"
    using now unfolding points_to_def blob_ref_iff by blast
  moreover have "reads_as F c (bd_url b) data s"
    if "hash_names (fe_fetch F) data" "env_hash (fe_fetch F) data = sha" for data
    using blob_reads [OF i cfg _ that(1)] now that(2) by simp
  ultimately show ?thesis using \<open>b \<in> set L\<close> b(2) now by auto
qed

text \<open>A server that lists the blob \<open>ab\<close> for a key, mounted read-only.\<close>

definition one_blob :: blob_descriptor where
  "one_blob = \<lparr>bd_url = ''http://s/ab'', bd_sha256 = demo_sha, bd_size = 2, bd_mime = None,
     bd_uploaded = 0, bd_expiration = None\<rparr>"

definition one_main :: "request list main_env" where
  "one_main = demo_main\<lparr>me_client := demo_cenv\<lparr>
     ce_http := (\<lambda>rq w. (Inr \<lparr>rs_status = 200, rs_content_length = None, rs_headers = (\<lambda>_. None),
       rs_body = Inr (if rq_url rq = list_url (client_new ''http://s'') demo_sha None (Some 500)
                      then ''1'' else ''0'')\<rparr>, w @ [rq])),
     ce_json_list := (\<lambda>b. Some (if b = ''1'' then [one_blob] else []))\<rparr>\<rparr>"

definition one_args :: mount_args where
  "one_args = default_args\<lparr>a_pubkey := [demo_sha], a_server := [''http://s'']\<rparr>"

lemma one_listing: "honest_listing (me_client one_main) ''http://s'' demo_sha [one_blob]"
proof -
  have "list_url base pk (Some c) (Some n) \<noteq> list_url base pk None (Some n)" for base pk c n
    by (simp add: list_url_def)
  then have "serves (me_client one_main) (client_new ''http://s'') demo_sha 500 [one_blob]"
    by (auto simp: serves_def one_main_def http_get_def server_page_def one_blob_def split: option.split)
  then show ?thesis by (simp add: honest_listing_def MAX_PAGES_def)
qed

lemma one_servers: "mount_servers one_main one_args = [''http://s'']"
  by (simp add: mount_servers_def effective_servers_def one_args_def default_args_def)

lemma one_hexes: "mount_hexes one_main one_args = [demo_sha]"
  by (simp add: mount_hexes_def resolve_pubkey_hexes_def one_args_def default_args_def List.map_filter_simps)

lemma one_mounts: "\<exists>plan. run_mount one_main one_args [] Map.empty = Some (Inr plan)"
proof (rule run_mount_returns)
  have "sanitize_hostname ''http://s'' \<noteq> None" by code_simp
  then show "list_all (\<lambda>u. sanitize_hostname u \<noteq> None) (effective_servers (me_nostr one_main) one_args
      (case resolve_pubkey_hexes (me_nostr one_main) one_args of [] \<Rightarrow> None | h # _ \<Rightarrow> Some h))"
    using one_servers by (simp add: mount_servers_def mount_hexes_def)
  show "args_ok one_args"
    by (simp add: args_ok_def one_args_def default_args_def is_hex_64_def is_ascii_hexdigit_def
        server_ok_def list_all_length demo_sha_def)
qed (auto simp: one_main_def demo_main_def demo_nostr_def one_args_def default_args_def fetch_nip34_events_def
      List.map_filter_simps)

theorem listed_blob_readable_witness:
  "\<exists>plan c t. run_mount one_main one_args [] Map.empty = Some (Inr plan)
     \<and> fs_step echo_fs_env (Read c 1 5)
         (fold (event_step echo_fs_env demo_control) [Command ''freeze'', Callback Statfs] (mp_fs plan))
       = Some (RpData ''b'', t)"
proof -
  obtain plan where p: "run_mount one_main one_args [] Map.empty = Some (Inr plan)"
    using one_mounts by blast
  obtain pd t0 b1 w' b t where st: "mount_stages one_main one_args [] Map.empty plan pd t0 b1 w' b t"
    using run_mount_stages(2) [OF p] by blast
  have mk: "make_fs one_args (mount_servers one_main one_args) (resolve_keys (me_nostr one_main) one_args) w' Map.empty t
      = (mp_fs plan, mp_rw plan)" and sv: "mp_servers plan = [''http://s'']"
    using st one_servers unfolding mount_stages_def by auto
  have c: "cache_sound (fe_fetch echo_fs_env) (a_cache_dir one_args) Map.empty"
    by (simp add: cache_sound_def)
  have ro: "\<not> mp_rw plan"
    using make_fs_inv(2) [OF mk stages_grow(6) [OF st] c] by (simp add: one_args_def default_args_def)
  have k: "own_key one_main one_args demo_sha"
    unfolding own_key_def own_name_def key_labels_def one_hexes by (simp add: one_args_def default_args_def)
  have s: "own_name host_of_url (mp_servers plan) ''http://s''"
    by (simp add: own_name_def sv)
  have v: "demo_sha \<in> set (valid_shas (listed_blobs (a_max_blobs one_args) [one_blob]))"
    by (simp add: listed_blobs_def valid_descriptors_def validate_descriptor_def one_blob_def MAX_BLOB_SIZE_def
        valid_shas_def map_filter_def demo_sha_ok one_args_def default_args_def)
  obtain c where "\<forall>data. hash_names (fe_fetch echo_fs_env) data \<and> env_hash (fe_fetch echo_fs_env) data = demo_sha \<longrightarrow>
      reads_as echo_fs_env c (bd_url one_blob) data
        (fold (event_step echo_fs_env demo_control) [Command ''freeze'', Callback Statfs] (mp_fs plan))"
    using listed_blob_readable [OF p c k s one_listing v refl, where C = demo_control
        and evs = "[Command ''freeze'', Callback Statfs]"] ro
    by auto
  moreover have "env_hash (fe_fetch echo_fs_env) ''ab'' = demo_sha"
    by (simp add: echo_fs_env_def echo_hash_def)
  ultimately have "\<exists>t. fs_step echo_fs_env (Read c 1 5)
      (fold (event_step echo_fs_env demo_control) [Command ''freeze'', Callback Statfs] (mp_fs plan))
      = Some (RpData (read_slice 1 5 ''ab''), t)"
    using echo_hash_names echo_serves unfolding reads_as_def by blast
  with p show ?thesis unfolding read_slice_demo by blast
qed

end
