(* ===== verification/Bfs_Restore.thy ===== *)
theory Bfs_Restore
  imports Bfs_Mount_Inv
begin

text \<open>
  Restoring a drive: the tags that one mount publishes, applied to the tree of the next
  (\<open>persist_tags\<close> and \<open>apply_persisted\<close> of \<open>src/fuse/tree.rs\<close>, the persistence steps of
  \<open>src/main.rs\<close>).  The theory follows paths through the tree while directories and files are
  added to it.
\<close>

section \<open>Paths in a tree\<close>

lemma find_path_snoc: "find_path t p (us @ [m]) = Option.bind (find_path t p us) (\<lambda>q. lookup t q m)"
  by (induction us arbitrary: p) (auto split: option.split)

lemma find_path_unique:
  assumes wf: "tree_wf t"
  shows "find_path t 1 us = Some p \<Longrightarrow> find_path t 1 vs = Some p \<Longrightarrow> us = vs"
proof (induction us arbitrary: vs p rule: rev_induct)
  case Nil
  then have "find_path t 1 vs = Some 1" by simp
  then show ?case
  proof (cases vs rule: rev_cases)
    case (snoc ys m)
    then obtain q where "lookup t q m = Some 1" using \<open>find_path t 1 vs = Some 1\<close>
      by (auto simp: find_path_snoc bind_eq_Some_conv)
    from lookup_valid [OF wf this] dir_kids_valid [OF wf, of 1 q] have "q < 1" "1 \<in> set (dir_kids t q)" by simp_all
    then show ?thesis by (simp add: dir_kids_def get_def)
  qed simp
next
  case (snoc m us)
  obtain q where q: "find_path t 1 us = Some q" "lookup t q m = Some p"
    using snoc.prems(1) by (auto simp: find_path_snoc bind_eq_Some_conv)
  have qp: "par t p = q" "name_at t p = m" "q < p"
    using lookup_valid [OF wf q(2)] par_lookup [OF wf q(2)] dir_kids_valid [OF wf, of p q] by auto
  have "q \<noteq> 0" using q(2) by (cases "q = 0") (auto simp: lookup_def get_def)
  show ?case
  proof (cases vs rule: rev_cases)
    case Nil
    then show ?thesis using snoc.prems(2) qp(3) \<open>q \<noteq> 0\<close> by simp
  next
    case (snoc ys m')
    then obtain q' where q': "find_path t 1 ys = Some q'" "lookup t q' m' = Some p"
      using \<open>find_path t 1 vs = Some p\<close> by (auto simp: find_path_snoc bind_eq_Some_conv)
    have "q' = q" "m' = m" using lookup_valid [OF wf q'(2)] par_lookup [OF wf q'(2)] qp by auto
    then show ?thesis using snoc.IH [OF q(1)] q'(1) snoc by simp
  qed
qed

text \<open>A new node adds one path.\<close>

lemma find_path_add_node:
  assumes wf: "tree_wf t" and p: "is_dir t p" and mk: "kids (mk (next_inode t)) = []"
    and ks: "find_path t 1 ks = Some p"
  shows "find_path (snd (add_node t p mk)) 1 ms = Some c \<Longrightarrow>
    find_path t 1 ms = Some c \<or> ms = ks @ [n_name (mk (next_inode t))] \<and> c = next_inode t"
proof (induction ms arbitrary: c rule: rev_induct)
  case (snoc m us)
  let ?t = "snd (add_node t p mk)"
  obtain q where q: "find_path ?t 1 us = Some q" "lookup ?t q m = Some c"
    using snoc.prems by (auto simp: find_path_snoc bind_eq_Some_conv)
  have l: "lookup t q m = Some c \<or> q = p \<and> n_name (mk (next_inode t)) = m \<and> c = next_inode t"
    using q(2) lookup_add_node [where mk = mk, OF wf p mk, of q m] by (auto split: option.splits if_splits)
  from snoc.IH [OF q(1)] show ?case
  proof
    assume u: "find_path t 1 us = Some q"
    from l show ?thesis
    proof
      assume "lookup t q m = Some c"
      with u show ?thesis by (simp add: find_path_snoc)
    next
      assume a: "q = p \<and> n_name (mk (next_inode t)) = m \<and> c = next_inode t"
      then have "us = ks" using find_path_unique [OF wf _ ks] u by simp
      with a show ?thesis by simp
    qed
  next
    assume "us = ks @ [n_name (mk (next_inode t))] \<and> q = next_inode t"
    then have "lookup t q m = None" "q \<noteq> p"
      using lookup_fresh_None [OF wf] next_inode_above [OF p] by auto
    with l show ?thesis by simp
  qed
qed simp

lemma find_path_mkdir:
  assumes "tree_wf t" "is_dir t p" "find_path t 1 ks = Some p" "plain_name n"
    and "find_path (snd (get_or_create_dir t p n)) 1 ms = Some c"
  shows "find_path t 1 ms = Some c \<or> ms = ks @ [n]"
proof (cases "lookup t p n")
  case None
  then show ?thesis
    using find_path_add_node [of t p "\<lambda>ino. Directory ino (sanitize_path_component n) [] p None" ks ms c] assms
    by (auto simp: get_or_create_dir_new plain_name_def)
next
  case (Some i)
  then show ?thesis using assms(5) by (simp add: get_or_create_dir_def)
qed

lemma find_path_dir_path:
  "tree_wf t \<Longrightarrow> clear_path t p ns \<Longrightarrow> list_all plain_name ns \<Longrightarrow> find_path t 1 ks = Some p \<Longrightarrow>
     find_path (snd (dir_path t p ns)) 1 ms = Some c \<Longrightarrow>
     find_path t 1 ms = Some c \<or> (\<exists>vs. prefix vs ns \<and> ms = ks @ vs)"
proof (induction ns arbitrary: t p ks)
  case (Cons n ns)
  let ?r = "get_or_create_dir t p n"
  have d: "is_dir t p" using Cons.prems(2) by (rule dirs.clear_way_isd)
  have w: "tree_wf (snd ?r)" using Cons.prems(1) d by (rule dirs.mkdir_wf)
  have pl: "plain_name n" using Cons.prems(3) by simp
  have "find_path (snd ?r) 1 ks = Some p"
    by (rule tree_ext_find_path [OF tree_ext_get_or_create [OF Cons.prems(1) d] Cons.prems(4)])
  then have k: "find_path (snd ?r) 1 (ks @ [n]) = Some (fst ?r)"
    using dirs.mkdir_find [OF Cons.prems(1) d pl] by (simp add: find_path_snoc)
  have "find_path (snd (dir_path (snd ?r) (fst ?r) ns)) 1 ms = Some c"
    using Cons.prems(5) by (simp add: case_prod_beta)
  from Cons.IH [OF w dirs.mkdir_clear [OF Cons.prems(1,2)] _ k this] Cons.prems(3)
  consider "find_path (snd ?r) 1 ms = Some c" | vs where "prefix vs ns" "ms = (ks @ [n]) @ vs" by auto
  then show ?case
  proof cases
    case 1
    from find_path_mkdir [OF Cons.prems(1) d Cons.prems(4) pl this] show ?thesis
      by (auto intro!: exI [of _ "[n]"])
  next
    case 2
    then show ?thesis by (intro disjI2 exI [of _ "n # vs"]) simp
  qed
qed simp

text \<open>New directories never stand in a path's way.\<close>

lemma clear_path_mkdir:
  assumes wf: "tree_wf t" and p: "is_dir t p"
  shows "clear_path t q ms \<Longrightarrow> clear_path (snd (get_or_create_dir t p n)) q ms"
proof (induction ms arbitrary: q)
  case (Cons m ms)
  let ?t = "snd (get_or_create_dir t p n)"
  have d: "is_dir ?t q" using Cons.prems by (auto intro: dirs.mkdir_isd_keeps)
  have "clear_path ?t i ms" if "lookup ?t q m = Some i" for i
  proof (cases "lookup t q m")
    case None
    then have i: "lookup t p n = None" "i = next_inode t"
      using that by (auto simp: lookup_get_or_create_dir [OF wf p] split: if_splits)
    have "is_dir ?t i \<and> (\<forall>m. lookup ?t i m = None)"
      using dirs.mkdir_new [OF wf p i(1)] i by (simp add: get_or_create_dir_new)
    then show ?thesis by (cases ms) auto
  next
    case (Some j)
    then show ?thesis using that Cons by (simp add: lookup_get_or_create_dir [OF wf p])
  qed
  with d show ?case by (simp split: option.split)
qed (auto intro: dirs.mkdir_isd_keeps)

lemma clear_path_dir_path:
  "tree_wf t \<Longrightarrow> clear_path t p ns \<Longrightarrow> clear_path t q ms \<Longrightarrow> clear_path (snd (dir_path t p ns)) q ms"
proof (induction ns arbitrary: t p)
  case (Cons n ns)
  have d: "is_dir t p" using Cons.prems(2) by (rule dirs.clear_way_isd)
  show ?case
    using Cons.IH [OF dirs.mkdir_wf [OF Cons.prems(1) d] dirs.mkdir_clear [OF Cons.prems(1,2)]
        clear_path_mkdir [OF Cons.prems(1) d Cons.prems(3)]]
    by (simp add: case_prod_beta)
qed simp

section \<open>Paths as strings\<close>

lemma plain_slash: "plain_name n \<Longrightarrow> n \<noteq> [] \<and> CHR ''/'' \<notin> set n"
  using safe_component_no_slash by (auto simp: plain_name_def safe_component_iff [symmetric] safe_component_def)

lemma abs_path_join: "abs_path (n # ns) = CHR ''/'' # str_join ''/'' (n # ns)"
proof (induction ns arbitrary: n)
  case (Cons m ns)
  then have "abs_path (m # ns) = CHR ''/'' # str_join ''/'' (m # ns)" .
  then show ?case by (simp add: abs_path_def)
qed (simp add: abs_path_def)

lemma path_parts_abs:
  assumes "list_all plain_name ns" "ns \<noteq> []"
  shows "path_parts (abs_path ns) = ns"
proof -
  obtain n ms where ns: "ns = n # ms" using assms(2) by (cases ns) auto
  have "n \<noteq> []" "CHR ''/'' \<notin> set n" using assms(1) plain_slash ns by auto
  then have "trim_start_matches (CHR ''/'') (abs_path ns) = str_join ''/'' ns"
    unfolding ns abs_path_join by (cases n; cases ms) (auto simp: trim_start_matches_def)
  then show ?thesis
    using split_on_join [OF assms(2), of "CHR ''/''"] assms(1) plain_slash
    by (auto simp: path_parts_def list_all_iff)
qed

lemma filter_plain: "list_all plain_name ns \<Longrightarrow> filter (\<lambda>p. p \<noteq> []) ns = ns"
  using plain_slash by (auto simp: list_all_iff intro!: filter_True)

section \<open>User nodes\<close>

text \<open>What the walk of \<open>persist_tags\<close> visits, and when its paths name one node each.\<close>

definition user_at :: "tree \<Rightarrow> nat \<Rightarrow> string list \<Rightarrow> bool" where
  "user_at t j ns \<longleftrightarrow> below t 1 j ns \<and> \<not> starts_with (abs_path ns) ''/public''"

definition tidy :: "tree \<Rightarrow> bool" where
  "tidy t \<longleftrightarrow> (\<forall>j ns. user_at t j ns \<longrightarrow> list_all plain_name ns)
     \<and> (\<forall>i j ns. user_at t i ns \<longrightarrow> user_at t j ns \<longrightarrow> i = j)"

lemma tidy_plain: "tidy t \<Longrightarrow> user_at t j ns \<Longrightarrow> list_all plain_name ns"
  by (simp add: tidy_def)

lemma tidy_unique: "tidy t \<Longrightarrow> user_at t i ns \<Longrightarrow> user_at t j ns \<Longrightarrow> i = j"
  unfolding tidy_def by blast

lemma below_snoc:
  "below t i j ns \<Longrightarrow> ns = us @ [m] \<Longrightarrow> \<exists>p. below t i p us \<and> j \<in> set (dir_kids t p)"
proof (induction arbitrary: us rule: below.induct)
  case (below_kid c i j ns)
  show ?case
  proof (cases us)
    case Nil
    then have "ns = []" using below_kid.prems by simp
    with below_kid.hyps(2) have "j = c" by (auto elim: below.cases)
    with below_kid.hyps(1) Nil below.below_refl show ?thesis by blast
  next
    case (Cons n vs)
    then obtain p where "below t c p vs" "j \<in> set (dir_kids t p)"
      using below_kid.IH [of vs] below_kid.prems by auto
    with below.below_kid [OF below_kid.hyps(1)] Cons below_kid.prems show ?thesis by auto
  qed
qed simp

lemma below_less: "tree_wf t \<Longrightarrow> below t i j ns \<Longrightarrow> ns \<noteq> [] \<Longrightarrow> i < j"
proof (induction ns arbitrary: j rule: rev_induct)
  case (snoc m us)
  then obtain p where p: "below t i p us" "j \<in> set (dir_kids t p)" using below_snoc by blast
  then have "p < j" using dir_kids_valid snoc.prems(1) by blast
  moreover have "i \<le> p"
    using snoc.IH [OF snoc.prems(1) p(1)] p(1) by (cases "us = []") (auto elim: below.cases)
  ultimately show ?case by simp
qed simp

lemma user_at_parent:
  assumes "user_at t j (us @ [m])"
  shows "\<exists>p. user_at t p us \<and> is_dir t p"
proof -
  obtain p where p: "below t 1 p us" "j \<in> set (dir_kids t p)"
    using assms below_snoc unfolding user_at_def by blast
  have "is_dir t p"
    using p(2) by (cases "get t p") (auto simp: dir_kids_def is_dir_def kids_def split: tree_node.splits)
  moreover have "\<not> starts_with (abs_path us) ''/public''"
    using assms by (auto simp: user_at_def abs_path_simps)
  ultimately show ?thesis using p(1) by (auto simp: user_at_def)
qed

definition user_dir :: "tree \<Rightarrow> string list \<Rightarrow> bool" where
  "user_dir t ns \<longleftrightarrow> (\<exists>j. user_at t j ns \<and> is_dir t j)"

lemma user_dir_prefix: "user_dir t ns \<Longrightarrow> prefix us ns \<Longrightarrow> user_dir t us"
proof (induction ns rule: rev_induct)
  case (snoc m ns)
  then show ?case using user_at_parent unfolding user_dir_def by (metis prefix_snoc)
qed simp

lemma user_dir_not_file:
  "tidy t \<Longrightarrow> user_dir t ns \<Longrightarrow> user_at t j ns \<Longrightarrow> is_dir t j"
  unfolding user_dir_def using tidy_unique by blast

section \<open>The tags\<close>

definition user_file :: "tree \<Rightarrow> nat \<Rightarrow> string list \<Rightarrow> nat \<Rightarrow> string \<Rightarrow> string option \<Rightarrow> bool" where
  "user_file t j ns sz sha mime \<longleftrightarrow> user_at t j ns
     \<and> (\<exists>i nm p url e up. get t j = Some (File i nm p sz (Remote url sha mime e) up))"

definition folder_tag :: "string list \<Rightarrow> tag" where
  "folder_tag ns = [''folder'', abs_path ns]"

definition file_tag :: "string list \<Rightarrow> nat \<Rightarrow> string \<Rightarrow> string option \<Rightarrow> tag" where
  "file_tag ns sz sha mime = [''x'', sha, abs_path ns, nat_to_string sz, (case mime of None \<Rightarrow> [] | Some m \<Rightarrow> m)]"

lemma node_option_cases:
  obtains (none) "x = None" | (dir) i nm cs p lz where "x = Some (Directory i nm cs p lz)"
  | (stat) i nm p sz d up where "x = Some (File i nm p sz (Static d) up)"
  | (remote) i nm p sz url sha mime e up where "x = Some (File i nm p sz (Remote url sha mime e) up)"
  | (loc) i nm p sz q up where "x = Some (File i nm p sz (Local q) up)"
  by (metis file_content.exhaust not_None_eq tree_node.exhaust)

lemma persist_tags_iff:
  assumes wf: "tree_wf t" and tags: "persist_tags t = Some tags"
  shows "tag \<in> set tags \<longleftrightarrow> (\<exists>ns. ns \<noteq> [] \<and> user_dir t ns \<and> tag = folder_tag ns)
    \<or> (\<exists>j ns sz sha mime. user_file t j ns sz sha mime \<and> tag = file_tag ns sz sha mime)"
    (is "_ \<longleftrightarrow> ?R tag")
proof -
  have r: "root t = 1" using wf by (simp add: tree_wf_def)
  have nt: "node_tag t j (abs_path ns) = Some tag \<longleftrightarrow>
      (ns \<noteq> [] \<and> is_dir t j \<and> tag = folder_tag ns)
      \<or> (\<exists>sz sha mime. user_file t j ns sz sha mime \<and> tag = file_tag ns sz sha mime)"
    if u: "user_at t j ns" for j ns
  proof -
    have "j = 1 \<longleftrightarrow> ns = []"
      using u below_less [OF wf, of 1 j ns] unfolding user_at_def by (cases "ns = []") (auto elim: below.cases)
    with u r show ?thesis
      by (cases "get t j" rule: node_option_cases)
        (auto simp: node_tag_def user_file_def is_dir_def folder_tag_def file_tag_def)
  qed
  have mem: "tag \<in> set tags \<longleftrightarrow> (\<exists>j ns. user_at t j ns \<and> node_tag t j (abs_path ns) = Some tag)"
    using persist_tags_exact [OF wf] tags r by (auto simp: user_at_def)
  show ?thesis
  proof
    assume "tag \<in> set tags"
    then obtain j ns where u: "user_at t j ns" "node_tag t j (abs_path ns) = Some tag" using mem by blast
    with nt [OF u(1)] show "?R tag" unfolding user_dir_def by blast
  next
    assume "?R tag"
    then consider ns j where "ns \<noteq> []" "user_at t j ns" "is_dir t j" "tag = folder_tag ns"
      | j ns sz sha mime where "user_file t j ns sz sha mime" "tag = file_tag ns sz sha mime"
      unfolding user_dir_def by blast
    then show "tag \<in> set tags"
    proof cases
      case 1
      with nt [OF 1(2)] mem show ?thesis by blast
    next
      case 2
      then have "user_at t j ns" by (simp add: user_file_def)
      with nt [OF this] mem 2 show ?thesis by blast
    qed
  qed
qed

lemma user_file_ne:
  assumes wf: "tree_wf t" and f: "user_file t j ns sz sha mime"
  shows "ns \<noteq> []"
proof
  assume "ns = []"
  then have "j = 1" using f by (auto simp: user_file_def user_at_def elim: below.cases)
  then have "is_file t 1" using f get_is_file unfolding user_file_def by blast
  then show False using wf dir_not_file unfolding tree_wf_def by blast
qed

lemma user_file_tidy:
  assumes "tidy t" "user_file t j ns sz sha mime" "user_file t j' ns sz' sha' mime'"
  shows "j' = j \<and> sz' = sz \<and> sha' = sha \<and> mime' = mime"
proof -
  have "j' = j" using assms tidy_unique unfolding user_file_def by blast
  then show ?thesis using assms(2,3) unfolding user_file_def by auto
qed

lemma user_file_not_dir: "tidy t \<Longrightarrow> user_file t j ns sz sha mime \<Longrightarrow> \<not> user_dir t ns"
  using user_dir_not_file dir_not_file get_is_file unfolding user_file_def by blast

section \<open>Applying the tags\<close>

text \<open>Nothing in the new tree stands where a directory is to be restored.\<close>

definition room_for :: "tree \<Rightarrow> tree \<Rightarrow> bool" where
  "room_for t t0 \<longleftrightarrow> (\<forall>ns. user_dir t ns \<longrightarrow> clear_path t0 1 ns)"

lemma apply_folder_eq:
  assumes "tidy t" "tree_wf t0"
  shows "ns \<noteq> [] \<Longrightarrow> user_dir t ns \<Longrightarrow> apply_folder t0 (folder_tag ns) = snd (dir_path t0 1 ns)"
    and "apply_folder t0 (file_tag ns' sz sha mime) = t0"
proof -
  assume a: "ns \<noteq> []" "user_dir t ns"
  then have "list_all plain_name ns" using tidy_plain [OF assms(1)] unfolding user_dir_def by blast
  then show "apply_folder t0 (folder_tag ns) = snd (dir_path t0 1 ns)"
    using path_parts_abs [OF _ a(1)] filter_plain assms(2)
    by (simp add: apply_folder_def folder_tag_def ensure_parts_def tree_wf_def)
qed (simp add: apply_folder_def file_tag_def)

text \<open>The first pass: all folders are there, and nothing else is new.\<close>

definition folders_done :: "tree \<Rightarrow> tree \<Rightarrow> string list set \<Rightarrow> tree \<Rightarrow> bool" where
  "folders_done t t0 D t' \<longleftrightarrow> tree_wf t' \<and> tree_ext t0 t' \<and> room_for t t'
     \<and> (\<forall>ns \<in> D. \<exists>i. find_path t' 1 ns = Some i \<and> is_dir t' i)
     \<and> (\<forall>ns c. find_path t' 1 ns = Some c \<longrightarrow> find_path t0 1 ns = Some c \<or> user_dir t ns)"

lemma folder_pass_step:
  assumes t: "tidy t" and f: "folders_done t t0 D t'" and ns: "ns \<noteq> []" "user_dir t ns"
  shows "folders_done t t0 (insert ns D) (apply_folder t' (folder_tag ns))"
proof -
  have w: "tree_wf t'" and c: "clear_path t' 1 ns" and e: "tree_ext t0 t'"
    using f ns by (auto simp: folders_done_def room_for_def)
  have pl: "list_all plain_name ns" using tidy_plain [OF t] ns(2) unfolding user_dir_def by blast
  let ?r = "dir_path t' 1 ns"
  have a: "apply_folder t' (folder_tag ns) = snd ?r" by (rule apply_folder_eq(1) [OF t w ns])
  have ext: "tree_ext t' (snd ?r)" by (rule tree_ext_dir_path [OF w c])
  note F3 = f [unfolded folders_done_def, THEN conjunct2, THEN conjunct2, THEN conjunct2]
  note FD = F3 [THEN conjunct1] and FN = F3 [THEN conjunct2]
  have "room_for t (snd ?r)"
    using f clear_path_dir_path [OF w c] by (simp add: folders_done_def room_for_def)
  moreover have "\<exists>i. find_path (snd ?r) 1 ms = Some i \<and> is_dir (snd ?r) i" if "ms \<in> insert ns D" for ms
  proof (cases "ms = ns")
    case True
    then show ?thesis using dirs.walk_resolve [OF w c pl] dirs.walk_isd [OF w c] by blast
  next
    case False
    then have "ms \<in> D" using that by simp
    from bspec [OF FD this] obtain i where "find_path t' 1 ms = Some i" "is_dir t' i" by (elim exE conjE)
    then show ?thesis using tree_ext_find_path [OF ext] tree_ext_is_dir [OF ext] by (intro exI conjI)
  qed
  moreover have "find_path t0 1 ms = Some c \<or> user_dir t ms" if m: "find_path (snd ?r) 1 ms = Some c" for ms c
  proof -
    have "find_path t' 1 [] = Some 1" by simp
    from find_path_dir_path [OF w \<open>clear_path t' 1 ns\<close> pl this m]
    consider "find_path t' 1 ms = Some c" | "prefix ms ns" by auto
    then show ?thesis
    proof cases
      case 1
      with FN show ?thesis by (elim allE impE)
    next
      case 2
      then show ?thesis using user_dir_prefix [OF ns(2)] by blast
    qed
  qed
  ultimately show ?thesis
    unfolding a folders_done_def using dirs.walk_wf [OF w c] tree_ext_trans [OF e ext] by blast
qed

text \<open>The second pass: a file is added where its path was free.\<close>

definition restored_file :: "string \<Rightarrow> tree \<Rightarrow> nat \<Rightarrow> string list \<Rightarrow> nat \<Rightarrow> string \<Rightarrow> string option \<Rightarrow> bool" where
  "restored_file url t' c ns sz sha mime \<longleftrightarrow> (\<exists>q. get t' c = Some (File c (last ns) q sz
     (Remote (trim_end_matches (CHR ''/'') url @ ''/'' @ sha) sha (if mime = Some [] then None else mime) None) 0))"

lemma restored_file_ext: "tree_ext t t' \<Longrightarrow> restored_file url t c ns sz sha mime \<Longrightarrow> restored_file url t' c ns sz sha mime"
  unfolding restored_file_def using tree_ext_file by blast

definition files_done :: "string \<Rightarrow> tree \<Rightarrow> tree \<Rightarrow> string list set \<Rightarrow> tree \<Rightarrow> bool" where
  "files_done url t t1 P t' \<longleftrightarrow> tree_wf t' \<and> tree_ext t1 t'
     \<and> (\<forall>ns \<in> P. find_path t' 1 ns \<noteq> None)
     \<and> (\<forall>ns c. find_path t' 1 ns = Some c \<longrightarrow> find_path t1 1 ns = Some c
          \<or> (\<exists>j sz sha mime. user_file t j ns sz sha mime \<and> restored_file url t' c ns sz sha mime))"

lemma apply_file_eq:
  assumes wf: "tree_wf t'" and pl: "list_all plain_name (us @ [nm])" and sz: "sz < u64_max"
    and i: "find_path t' 1 us = Some i"
  shows "apply_file url t' (file_tag (us @ [nm]) sz sha mime) =
    (if lookup t' i nm = None
     then snd (add_remote_file t' i nm (trim_end_matches (CHR ''/'') url @ ''/'' @ sha) sha sz
                 (if mime = Some [] then None else mime) 0 None)
     else t')"
proof -
  have p: "path_parts (abs_path (us @ [nm])) = us @ [nm]" by (rule path_parts_abs [OF pl]) simp
  have ne: "nm \<noteq> []" "hd (us @ [nm]) \<noteq> []" using pl plain_slash by (cases us; auto)+
  have "dir_path t' 1 us = (i, t')" by (rule dirs.walk_existing [OF i])
  then have e: "ensure_parts t' us = (i, t')"
    using wf pl filter_plain [of us] by (simp add: ensure_parts_def tree_wf_def)
  show ?thesis
    using parse_nat_to_string [OF sz] p ne e
    by (auto simp: apply_file_def file_tag_def Let_def split: option.split)
qed

lemma file_pass_step:
  assumes t: "tidy t" "tree_wf t" and f: "files_done url t t1 P t'"
    and dirs1: "\<And>us. user_dir t us \<Longrightarrow> \<exists>i. find_path t1 1 us = Some i \<and> is_dir t1 i"
    and u: "user_file t j ns sz sha mime" and sz: "sz < u64_max"
  shows "files_done url t t1 (insert ns P) (apply_file url t' (file_tag ns sz sha mime))"
proof -
  obtain us nm where ns: "ns = us @ [nm]" using user_file_ne [OF t(2) u] by (cases ns rule: rev_cases) auto
  have w: "tree_wf t'" and e: "tree_ext t1 t'" using f by (simp_all add: files_done_def)
  have pl: "list_all plain_name (us @ [nm])" using tidy_plain [OF t(1)] u ns unfolding user_file_def by blast
  have "user_dir t us" using user_at_parent u ns unfolding user_file_def user_dir_def by blast
  then obtain i where "find_path t1 1 us = Some i" "is_dir t1 i" using dirs1 by blast
  then have i: "find_path t' 1 us = Some i" "is_dir t' i"
    using tree_ext_find_path [OF e] tree_ext_is_dir [OF e] by blast+
  let ?mk = "\<lambda>ino. File ino (sanitize_path_component nm) i sz (Remote (trim_end_matches (CHR ''/'') url @ ''/'' @ sha)
    sha (if mime = Some [] then None else mime) None) 0"
  have san: "sanitize_path_component nm = nm" using pl by (simp add: plain_name_def)
  show ?thesis
  proof (cases "lookup t' i nm")
    case (Some c)
    then have "apply_file url t' (file_tag ns sz sha mime) = t'"
      unfolding ns by (simp add: apply_file_eq [OF w pl sz i(1)])
    moreover have "find_path t' 1 ns = Some c" using i(1) Some ns by (simp add: find_path_snoc)
    ultimately show ?thesis using f by (simp add: files_done_def)
  next
    case None
    let ?t = "snd (add_node t' i ?mk)"
    have a: "apply_file url t' (file_tag ns sz sha mime) = ?t"
      unfolding ns apply_file_eq [OF w pl sz i(1)] using None by (simp add: add_remote_file_def Let_def)
    have k: "kids (?mk (next_inode t')) = []" by simp
    have w': "tree_wf ?t"
      using tree_wf_add_remote_file [OF w is_dir_valid [OF i(2)]] a unfolding ns apply_file_eq [OF w pl sz i(1)]
      using None by (metis (no_types))
    have ext: "tree_ext t' ?t" by (rule tree_ext_add_node [where mk = ?mk, OF w i(2) k])
    have new: "restored_file url ?t (next_inode t') ns sz sha mime"
      using get_add_node_new [OF is_dir_valid [OF i(2)], of ?mk] san by (simp add: restored_file_def ns)
    have "lookup ?t i nm = Some (next_inode t')"
      unfolding lookup_add_node [where mk = ?mk, OF w i(2) k] using None san by simp
    then have "find_path ?t 1 ns \<noteq> None"
      using tree_ext_find_path [OF ext i(1)] by (simp add: ns find_path_snoc)
    moreover have "find_path ?t 1 ms \<noteq> None" if "ms \<in> P" for ms
      using f that tree_ext_find_path [OF ext] unfolding files_done_def by blast
    moreover have "find_path t1 1 ms = Some c \<or> (\<exists>j sz sha mime. user_file t j ms sz sha mime \<and> restored_file url ?t c ms sz sha mime)"
      if "find_path ?t 1 ms = Some c" for ms c
    proof -
      from find_path_add_node [where mk = ?mk, OF w i(2) k i(1) that]
      consider "find_path t' 1 ms = Some c" | "ms = ns" "c = next_inode t'" using san ns by auto
      then show ?thesis
      proof cases
        case 1
        then show ?thesis using f restored_file_ext [OF ext] unfolding files_done_def by blast
      next
        case 2
        then show ?thesis using u new by blast
      qed
    qed
    ultimately show ?thesis
      unfolding a files_done_def using w' tree_ext_trans [OF e ext] by blast
  qed
qed

section \<open>The restored tree\<close>

lemma folder_pass:
  assumes t: "tidy t" and tags: "\<And>tag. tag \<in> set tags \<Longrightarrow> (\<exists>ns. ns \<noteq> [] \<and> user_dir t ns \<and> tag = folder_tag ns)
      \<or> (\<exists>ns sz sha mime. tag = file_tag ns sz sha mime)"
  shows "folders_done t t0 D t' \<Longrightarrow>
    folders_done t t0 (D \<union> {ns. ns \<noteq> [] \<and> user_dir t ns \<and> folder_tag ns \<in> set tags}) (foldl apply_folder t' tags)"
  using tags
proof (induction tags arbitrary: D t')
  case (Cons tag tags)
  let ?E = "\<lambda>ts. {ns. ns \<noteq> [] \<and> user_dir t ns \<and> folder_tag ns \<in> set ts}"
  have w: "tree_wf t'" using Cons.prems(1) by (simp add: folders_done_def)
  from Cons.prems(2) [of tag] consider ns where "ns \<noteq> []" "user_dir t ns" "tag = folder_tag ns"
    | ns sz sha mime where "tag = file_tag ns sz sha mime" by auto
  then show ?case
  proof cases
    case 1
    have inj: "ms = ns" if "ms \<noteq> []" "user_dir t ms" "folder_tag ms = folder_tag ns" for ms
    proof -
      have "list_all plain_name ms" "list_all plain_name ns"
        using that(2) 1(2) tidy_plain [OF t] unfolding user_dir_def by blast+
      then have "path_parts (abs_path ms) = ms" "path_parts (abs_path ns) = ns"
        using that(1) 1(1) by (simp_all add: path_parts_abs)
      moreover have "path_parts (abs_path ms) = path_parts (abs_path ns)"
        using that(3) by (simp add: folder_tag_def)
      ultimately show ?thesis by metis
    qed
    have "folders_done t t0 (insert ns D) (apply_folder t' tag)"
      using folder_pass_step [OF t Cons.prems(1) 1(1,2)] 1(3) by simp
    from Cons.IH [OF this] Cons.prems(2)
    have "folders_done t t0 (insert ns D \<union> ?E tags) (foldl apply_folder (apply_folder t' tag) tags)" by simp
    moreover have "insert ns D \<union> ?E tags = D \<union> ?E (tag # tags)" using 1 inj by auto
    ultimately show ?thesis by simp
  next
    case 2
    then have "apply_folder t' tag = t'" using apply_folder_eq(2) [OF t w] by simp
    moreover have "?E (tag # tags) = ?E tags" using 2 by (auto simp: folder_tag_def file_tag_def)
    ultimately show ?thesis using Cons.IH [OF Cons.prems(1)] Cons.prems(2) by simp
  qed
qed simp

lemma file_pass:
  assumes t: "tidy t" "tree_wf t"
    and dirs1: "\<And>us. user_dir t us \<Longrightarrow> \<exists>i. find_path t1 1 us = Some i \<and> is_dir t1 i"
    and tags: "\<And>tag. tag \<in> set tags \<Longrightarrow> (\<exists>ns. tag = folder_tag ns)
      \<or> (\<exists>j ns sz sha mime. user_file t j ns sz sha mime \<and> sz < u64_max \<and> tag = file_tag ns sz sha mime)"
  shows "files_done url t t1 P t' \<Longrightarrow> \<exists>Q. files_done url t t1 Q (foldl (apply_file url) t' tags) \<and> P \<subseteq> Q
    \<and> (\<forall>ns sz sha mime. file_tag ns sz sha mime \<in> set tags \<longrightarrow> list_all plain_name ns \<longrightarrow> ns \<noteq> [] \<longrightarrow> ns \<in> Q)"
  using tags
proof (induction tags arbitrary: P t')
  case Nil
  then show ?case by auto
next
  case (Cons tag tags)
  from Cons.prems(2) [of tag] consider ns where "tag = folder_tag ns"
    | j ns sz sha mime where "user_file t j ns sz sha mime" "sz < u64_max" "tag = file_tag ns sz sha mime" by auto
  then obtain R where R: "files_done url t t1 R (apply_file url t' tag)" "P \<subseteq> R"
    "\<And>ns sz sha mime. tag = file_tag ns sz sha mime \<Longrightarrow> list_all plain_name ns \<Longrightarrow> ns \<noteq> [] \<Longrightarrow> ns \<in> R"
  proof cases
    case 1
    then have "apply_file url t' tag = t'" by (simp add: apply_file_def folder_tag_def)
    then show thesis using that [of P] Cons.prems(1) 1 by (simp add: folder_tag_def file_tag_def)
  next
    case 2
    have pl: "list_all plain_name ns" "ns \<noteq> []"
      using tidy_plain [OF t(1)] user_file_ne [OF t(2) 2(1)] 2(1) unfolding user_file_def by blast+
    have "ms = ns" if "tag = file_tag ms sz' sha' mime'" "list_all plain_name ms" "ms \<noteq> []" for ms sz' sha' mime'
      using that 2(3) path_parts_abs [OF that(2,3)] path_parts_abs [OF pl] by (auto simp: file_tag_def)
    then show thesis
      using that [of "insert ns P"] file_pass_step [OF t Cons.prems(1) dirs1 2(1,2), folded 2(3)] by blast
  qed
  obtain Q where Q: "files_done url t t1 Q (foldl (apply_file url) (apply_file url t' tag) tags)" "R \<subseteq> Q"
    "\<forall>ns sz sha mime. file_tag ns sz sha mime \<in> set tags \<longrightarrow> list_all plain_name ns \<longrightarrow> ns \<noteq> [] \<longrightarrow> ns \<in> Q"
    using Cons.IH [OF R(1)] Cons.prems(2) by auto
  have "ns \<in> Q" if "file_tag ns sz sha mime \<in> set (tag # tags)" "list_all plain_name ns" "ns \<noteq> []" for ns sz sha mime
  proof (cases "file_tag ns sz sha mime = tag")
    case True
    then show ?thesis using R(3) [OF True [symmetric] that(2,3)] Q(2) by blast
  next
    case False
    then have "file_tag ns sz sha mime \<in> set tags" using that(1) by simp
    then show ?thesis using Q(3) that(2,3) by blast
  qed
  then show ?case using Q(1,2) R(2) by (intro exI [of _ Q]) auto
qed

text \<open>What is restored, and that nothing else is.\<close>

definition restores :: "string \<Rightarrow> tree \<Rightarrow> tree \<Rightarrow> tree \<Rightarrow> bool" where
  "restores url t t0 t' \<longleftrightarrow> tree_wf t' \<and> tree_ext t0 t'
     \<and> (\<forall>ns. user_dir t ns \<longrightarrow> (\<exists>i. find_path t' 1 ns = Some i \<and> is_dir t' i))
     \<and> (\<forall>j ns sz sha mime. user_file t j ns sz sha mime \<longrightarrow> find_path t0 1 ns = None \<longrightarrow>
          (\<exists>c. find_path t' 1 ns = Some c \<and> restored_file url t' c ns sz sha mime))
     \<and> (\<forall>ns c. find_path t' 1 ns = Some c \<longrightarrow> find_path t0 1 ns = Some c \<or> (\<exists>j. user_at t j ns))"

lemma apply_persisted_restores:
  assumes wf: "tree_wf t" and tidy: "tidy t" and tags: "persist_tags t = Some tags"
    and sizes: "\<And>j ns sz sha mime. user_file t j ns sz sha mime \<Longrightarrow> sz < u64_max"
    and wf0: "tree_wf t0" and room: "room_for t t0"
  shows "restores url t t0 (apply_persisted t0 tags url)"
proof -
  define t1 where "t1 = foldl apply_folder t0 tags"
  define t' where "t' = foldl (apply_file url) t1 tags"
  note T = persist_tags_iff [OF wf tags]
  have "folders_done t t0 {} t0" using wf0 room by (simp add: folders_done_def)
  from folder_pass [OF tidy _ this, of tags] T
  have f: "folders_done t t0 {ns. ns \<noteq> [] \<and> user_dir t ns \<and> folder_tag ns \<in> set tags} t1"
    unfolding t1_def by simp blast
  note F3 = f [unfolded folders_done_def, THEN conjunct2, THEN conjunct2, THEN conjunct2]
  have w1: "tree_wf t1" and e1: "tree_ext t0 t1" using f by (simp_all add: folders_done_def)
  have d1: "is_dir t1 1" using w1 by (simp add: tree_wf_def)
  have dirs1: "\<exists>i. find_path t1 1 us = Some i \<and> is_dir t1 i" if u: "user_dir t us" for us
  proof (cases "us = []")
    case True
    then show ?thesis using d1 by simp
  next
    case False
    then have "us \<in> {ns. ns \<noteq> [] \<and> user_dir t ns \<and> folder_tag ns \<in> set tags}" using u T by blast
    from bspec [OF F3 [THEN conjunct1] this] show ?thesis .
  qed
  have "files_done url t t1 {} t1" using w1 by (simp add: files_done_def)
  from file_pass [OF tidy wf dirs1 _ this, of tags] T sizes
  obtain Q where q: "files_done url t t1 Q t'"
      "\<forall>ns sz sha mime. file_tag ns sz sha mime \<in> set tags \<longrightarrow> list_all plain_name ns \<longrightarrow> ns \<noteq> [] \<longrightarrow> ns \<in> Q"
    unfolding t'_def by blast
  note q3 = q(1) [unfolded files_done_def, THEN conjunct2, THEN conjunct2]
  have w': "tree_wf t'" and e': "tree_ext t1 t'" using q(1) by (simp_all add: files_done_def)
  have only: "find_path t0 1 ns = Some c \<or> user_dir t ns
      \<or> (\<exists>j sz sha mime. user_file t j ns sz sha mime \<and> restored_file url t' c ns sz sha mime)"
    if "find_path t' 1 ns = Some c" for ns c
  using q3 [THEN conjunct2, rule_format, OF that]
  proof
    assume "find_path t1 1 ns = Some c"
    from F3 [THEN conjunct2, rule_format, OF this] show ?thesis by (elim disjE) simp_all
  qed (intro disjI2)
  have fl: "\<exists>c. find_path t' 1 ns = Some c \<and> restored_file url t' c ns sz sha mime"
    if u: "user_file t j ns sz sha mime" and new: "find_path t0 1 ns = None" for j ns sz sha mime
  proof -
    have "user_at t j ns" using u by (simp add: user_file_def)
    then have "list_all plain_name ns" "ns \<noteq> []"
      using tidy_plain [OF tidy] user_file_ne [OF wf u] by simp_all
    moreover have "file_tag ns sz sha mime \<in> set tags"
      by (rule T [THEN iffD2], intro disjI2 exI conjI, rule u, rule refl)
    ultimately have "ns \<in> Q" using q(2) by blast
    with q3 [THEN conjunct1] obtain c where c: "find_path t' 1 ns = Some c" by blast
    from only [OF c] new user_file_not_dir [OF tidy u] obtain j' sz' sha' mime' where
      "user_file t j' ns sz' sha' mime'" "restored_file url t' c ns sz' sha' mime'" by auto
    with user_file_tidy [OF tidy u] c show ?thesis by blast
  qed
  have dirs': "\<exists>i. find_path t' 1 ns = Some i \<and> is_dir t' i" if "user_dir t ns" for ns
    using dirs1 [OF that] tree_ext_find_path [OF e'] tree_ext_is_dir [OF e'] by blast
  have rest: "find_path t0 1 ns = Some c \<or> (\<exists>j. user_at t j ns)" if "find_path t' 1 ns = Some c" for ns c
    using only [OF that] unfolding user_dir_def user_file_def by blast
  have "apply_persisted t0 tags url = t'" by (simp add: apply_persisted_def t'_def t1_def)
  then show ?thesis
    unfolding restores_def using w' tree_ext_trans [OF e1 e'] fl dirs' rest by blast
qed

lemma remount_restores:
  assumes wf: "tree_wf t" and tidy: "tidy t"
    and sizes: "\<And>j ns sz sha mime. user_file t j ns sz sha mime \<Longrightarrow> sz < u64_max"
    and drive: "a_persist a = Some drive" and un: "unmount_publish a plan t = Some (Some ev)"
    and nxt: "a_persist a' = Some drive" "a_relay a' \<noteq> []"
    and fetch: "ne_fetch (me_nostr M) (a_relay a')
        \<lparr>ef_kinds = [30078], ef_author = Some (me_public_key M k), ef_limit = Some 10\<rparr> = Inr events"
    and found: "map ev_tags events = older @ ev # rest" "\<forall>e \<in> set older. \<not> persist_event_matches drive e"
    and wf0: "tree_wf t0" and room: "room_for t t0"
  shows "restores (case servers of [] \<Rightarrow> [] | s # _ \<Rightarrow> s) t t0 (persist_source M a' servers (Some k) t0)"
proof -
  obtain tags where tags: "persist_tags t = Some tags" "publish_tags drive tags = Some ev"
    using un drive by (auto simp: unmount_publish_def bind_eq_Some_conv split: option.splits if_splits)
  have "fetch_persist_event (older @ ev # rest) drive = Inr tags"
    using persist_roundtrip [OF wf tags(1) found(2), of rest] tags(2) by auto
  then have "persist_source M a' servers (Some k) t0
      = apply_persisted t0 tags (case servers of [] \<Rightarrow> [] | s # _ \<Rightarrow> s)"
    using nxt fetch found(1) by (simp add: persist_source_def)
  then show ?thesis
    using apply_persisted_restores [OF wf tidy tags(1) sizes wf0 room] by simp
qed

text \<open>C26. A drive survives unmounting and mounting again.  A mount that persists its drive ends with
  the tree \<open>t\<close>, in which the paths outside \<open>/public\<close> name one node each, by names that need no
  sanitising, and publishes the drive.  If the relays of the next mount return that event before
  any other of the drive, and nothing in the tree \<open>t0\<close> that its other sources built stands in the
  way of the directories, then afterwards every directory is back at its path; every blob is back
  at its path with its hash, size and MIME type (and the URL of the first server), unless \<open>t0\<close> had
  something there already; everything \<open>t0\<close> had is still there; and no path is there that was
  neither in \<open>t0\<close> nor in \<open>t\<close>.\<close>

theorem drive_survives_remount:
  assumes wf: "tree_wf t" and tidy: "tidy t"
    and sizes: "\<And>j ns sz sha mime. user_file t j ns sz sha mime \<Longrightarrow> sz < u64_max"
    and drive: "a_persist a = Some drive" and un: "unmount_publish a plan t = Some (Some ev)"
    and nxt: "a_persist a' = Some drive" "a_relay a' \<noteq> []"
    and fetch: "ne_fetch (me_nostr M) (a_relay a')
        \<lparr>ef_kinds = [30078], ef_author = Some (me_public_key M k), ef_limit = Some 10\<rparr> = Inr events"
    and found: "map ev_tags events = older @ ev # rest" "\<forall>e \<in> set older. \<not> persist_event_matches drive e"
    and wf0: "tree_wf t0" and room: "room_for t t0"
  shows "restores (case servers of [] \<Rightarrow> [] | s # _ \<Rightarrow> s) t t0 (persist_source M a' servers (Some k) t0)"
  by (rule remount_restores [OF assms])

lemma make_fs_tree: "make_fs a servers keys w d t = (s, rw) \<Longrightarrow> f_tree s = t"
  by (cases keys; cases servers; cases "a_read_only a")
    (auto simp: make_fs_def Let_def set_http_timeout_def fs_new_rw_def fs_new_with_cache_def fs_new_def)

text \<open>The same from session to session: a mount is built, serves any callbacks and commands, and
  publishes its drive; the next mount finds it after its other sources.\<close>

theorem session_then_remount:
  assumes mnt: "run_mount M a w d = Some (Inr plan)" and cs: "cache_sound (fe_fetch F) (a_cache_dir a) d"
    and s: "s = fold (event_step F C) evs (mp_fs plan)"
    and tidy: "tidy (f_tree s)"
    and sizes: "\<And>j ns sz sha mime. user_file (f_tree s) j ns sz sha mime \<Longrightarrow> sz < u64_max"
    and drive: "a_persist a = Some drive" and un: "unmount_publish a plan (f_tree s) = Some (Some ev)"
    and st: "mount_stages M' a' w' d' plan' pd t0 b1 w'' b t'" and k: "mp_keys plan' = Some k"
    and nxt: "a_persist a' = Some drive" "a_relay a' \<noteq> []"
    and fetch: "ne_fetch (me_nostr M') (a_relay a')
        \<lparr>ef_kinds = [30078], ef_author = Some (me_public_key M' k), ef_limit = Some 10\<rparr> = Inr events"
    and found: "map ev_tags events = older @ ev # rest" "\<forall>e \<in> set older. \<not> persist_event_matches drive e"
    and room: "room_for (f_tree s) (virtual_files M' a' (mp_servers plan') b)"
  shows "restores (case mp_servers plan' of [] \<Rightarrow> [] | u # _ \<Rightarrow> u) (f_tree s)
    (virtual_files M' a' (mp_servers plan') b) (f_tree (mp_fs plan'))"
proof -
  obtain pd1 t1 c1 v1 c2 t2 where st1: "mount_stages M a w d plan pd1 t1 c1 v1 c2 t2"
    using run_mount_stages(2) [OF mnt] by blast
  have mk1: "make_fs a (mount_servers M a) (resolve_keys (me_nostr M) a) v1 d t2 = (mp_fs plan, mp_rw plan)"
    using st1 unfolding mount_stages_def by blast
  have "fs_inv F s"
    unfolding s by (rule controlled.run_inv [OF make_fs_inv(1) [OF mk1 stages_grow(6) [OF st1] cs]])
  then have wf: "tree_wf (f_tree s)" by (simp add: fs_inv_def)
  have mk: "make_fs a' (mount_servers M' a') (resolve_keys (me_nostr M') a') w'' d' t' = (mp_fs plan', mp_rw plan')"
    and t': "t' = persist_source M' a' (mp_servers plan') (Some k) (virtual_files M' a' (mp_servers plan') b)"
    using st k unfolding mount_stages_def by auto
  have ft: "f_tree (mp_fs plan') = t'" by (rule make_fs_tree [OF mk])
  have w0: "tree_wf (virtual_files M' a' (mp_servers plan') b)"
    by (rule grows_wf [OF virtual_files_grows [OF grows_wf [OF stages_grow(4) [OF st]]]])
  show ?thesis
    unfolding ft t' by (rule remount_restores [OF wf tidy sizes drive un nxt fetch found w0 room])
qed

text \<open>The walk skips everything whose path begins with \<open>/public\<close> as a string, so a directory of the
  user like \<open>/publications\<close> is not published either.\<close>

lemma publications_not_persisted:
  assumes "tree_wf t" "persist_tags t = Some tags"
  shows "folder_tag (''publications'' # ns) \<notin> set tags"
proof
  assume "folder_tag (''publications'' # ns) \<in> set tags"
  then obtain ms where m: "user_dir t ms" "abs_path ms = abs_path (''publications'' # ns)"
    unfolding persist_tags_iff [OF assms] by (auto simp: folder_tag_def file_tag_def)
  have "starts_with (abs_path (''publications'' # ns)) ''/public''"
    by (simp add: abs_path_def)
  with m show False by (auto simp: user_dir_def user_at_def)
qed

text \<open>A mount with one directory and a blob in it, and a next mount that starts empty.\<close>

definition docs_tree :: tree where
  "docs_tree = snd (add_remote_file (snd (add_directory new_tree 1 ''docs'')) 2 ''a'' ''u'' ''h'' 3 None 9 None)"

lemma docs_tree_wf: "tree_wf docs_tree"
  unfolding docs_tree_def
  by (intro inv_intros) (simp_all add: valid_ino_def node_count_def new_tree_def add_directory_def add_node_def
      update_node_def Let_def get_def next_inode_def)

lemma docs_san: "sanitize_path_component ''docs'' = ''docs''" "sanitize_path_component ''a'' = ''a''"
  by (simp_all add: safe_component_iff [symmetric] safe_component_def comp_unsafe_def is_ascii_control_def)

lemma docs_get: "get docs_tree (Suc 0) = Some (Directory 1 ''/'' [2] 0 None)"
    "get docs_tree 2 = Some (Directory 2 ''docs'' [3] 1 None)"
    "get docs_tree 3 = Some (File 3 ''a'' 2 3 (Remote ''u'' ''h'' None None) 9)"
  by (simp_all add: docs_tree_def add_directory_def add_remote_file_def add_node_def new_tree_def get_def
      next_inode_def update_node_def link_child_def docs_san Let_def)

lemma docs_below: "below docs_tree (Suc 0) j ns \<longleftrightarrow> j = 1 \<and> ns = [] \<or> j = 2 \<and> ns = [''docs'']
    \<or> j = 3 \<and> ns = [''docs'', ''a'']"
proof -
  have 3: "below docs_tree 3 j ns \<longleftrightarrow> j = 3 \<and> ns = []" for j ns
    by (subst below.simps) (auto simp: dir_kids_def docs_get(3))
  have 2: "below docs_tree 2 j ns \<longleftrightarrow> j = 2 \<and> ns = [] \<or> j = 3 \<and> ns = [''a'']" for j ns
    by (subst below.simps) (auto simp: dir_kids_def docs_get 3 name_at_def)
  show ?thesis
    by (subst below.simps) (auto simp: dir_kids_def docs_get 2 name_at_def)
qed

lemma docs_tidy: "tidy docs_tree"
  by (auto simp: tidy_def user_at_def docs_below plain_name_def docs_san)

definition docs_env :: "tag list \<Rightarrow> request list main_env" where
  "docs_env ev = demo_main\<lparr>me_nostr := demo_nostr\<lparr>ne_fetch := (\<lambda>_ _. Inr [\<lparr>ev_kind = 30078, ev_tags = ev,
     ev_content = [], ev_id = [], ev_pubkey = [], ev_created = 0\<rparr>])\<rparr>\<rparr>"

definition docs_args :: mount_args where
  "docs_args = default_args\<lparr>a_persist := Some ''home'', a_relay := [''r'']\<rparr>"

definition docs_plan :: "request list mount_plan" where
  "docs_plan = \<lparr>mp_fs = demo_mount, mp_rw = True, mp_payment = (\<lambda>_ w. (Inl TokenFileRead, w)),
     mp_keys = Some ''k'', mp_servers = [''http://s/'']\<rparr>"

theorem drive_survives_remount_witness:
  "\<exists>ev c q. unmount_publish docs_args docs_plan docs_tree = Some (Some ev)
     \<and> find_path (persist_source (docs_env ev) docs_args [''http://s/''] (Some ''k'') new_tree) 1 [''docs'', ''a''] = Some c
     \<and> get (persist_source (docs_env ev) docs_args [''http://s/''] (Some ''k'') new_tree) c
         = Some (File c ''a'' q 3 (Remote ''http://s/h'' ''h'' None None) 0)"
proof -
  obtain tags where tags: "persist_tags docs_tree = Some tags" using persist_tags_ends [OF docs_tree_wf] by blast
  have args: "a_persist docs_args = Some ''home''" "a_relay docs_args \<noteq> []"
    by (simp_all add: docs_args_def default_args_def)
  obtain ev where un: "unmount_publish docs_args docs_plan docs_tree = Some (Some ev)"
    using tags publish_user_tags [OF persist_tags_user_tags [OF docs_tree_wf tags]] args
    by (auto simp: unmount_publish_def docs_plan_def)
  have f: "user_file docs_tree 3 [''docs'', ''a''] 3 ''h'' None"
    by (simp add: user_file_def user_at_def docs_below docs_get abs_path_def)
  have sizes: "\<And>j ns sz sha mime. user_file docs_tree j ns sz sha mime \<Longrightarrow> sz < u64_max"
    by (auto simp: user_file_def user_at_def docs_below docs_get)
  have no: "lookup new_tree p nm = None" for p nm by (cases p) (auto simp: lookup_def new_tree_def get_def)
  have "clear_path new_tree 1 ns" for ns
    by (cases ns) (simp_all add: no is_dir_def get_def, simp_all add: new_tree_def)
  then have room: "room_for docs_tree new_tree" by (simp add: room_for_def)
  let ?t = "persist_source (docs_env ev) docs_args [''http://s/''] (Some ''k'') new_tree"
  let ?e = "\<lparr>ev_kind = 30078, ev_tags = ev, ev_content = [], ev_id = [], ev_pubkey = [], ev_created = 0\<rparr>"
  have fetch: "ne_fetch (me_nostr (docs_env ev)) (a_relay docs_args) fl = Inr [?e]" for fl
    by (simp add: docs_env_def)
  have found: "map ev_tags [?e] = [] @ ev # []" "\<forall>e \<in> set []. \<not> persist_event_matches ''home'' e" by simp_all
  have "restores (case [''http://s/''] of [] \<Rightarrow> [] | s # _ \<Rightarrow> s) docs_tree new_tree ?t"
    by (rule drive_survives_remount [OF docs_tree_wf docs_tidy sizes args(1) un args fetch found tree_wf_new room])
  then have "restores ''http://s/'' docs_tree new_tree ?t" by simp
  moreover have "find_path new_tree 1 [''docs'', ''a''] = None" by (simp add: no)
  ultimately obtain c where c: "find_path ?t 1 [''docs'', ''a''] = Some c"
      "restored_file ''http://s/'' ?t c [''docs'', ''a''] 3 ''h'' None"
    using f unfolding restores_def by blast
  have "trim_end_matches (CHR ''/'') ''http://s/'' = ''http://s''" by (simp add: trim_end_matches_def)
  then obtain q where "get ?t c = Some (File c ''a'' q 3 (Remote ''http://s/h'' ''h'' None None) 0)"
    using c(2) by (auto simp: restored_file_def)
  with un c(1) show ?thesis by blast
qed

end
